(* ===== verification/Prelude.thy ===== *)
theory Prelude
  imports "HOL-Library.Word" "HOL-Library.Monad_Syntax"
begin

text \<open>
  Shared vocabulary of the development: the machine types of the C++ sources (\<open>uint8_t\<close>,
  \<open>uint32_t\<close>, \<open>std::vector<uint8_t>\<close>, \<open>std::string\<close>), buffer operations that fail where the
  C++ call leaves its buffer, the little-endian 32-bit field of the frame header, and the
  generic lemmas the components share.
\<close>

unbundle bit_operations_syntax

section \<open>Machine types\<close>

type_synonym byte = "8 word"
type_synonym bytes = "byte list"
type_synonym u32 = "32 word"
type_synonym u64 = "64 word"

text \<open>
  Fact collections: \<open>wire_simps\<close> evaluates concrete frames, \<open>frame_defs\<close> unfolds
  the buffer operations, \<open>msg_intros\<close> collects preservation facts of messages.
\<close>

named_theorems wire_simps
named_theorems frame_defs
named_theorems msg_intros

section \<open>Buffers\<close>

text \<open>
  \<open>slice xs off n\<close> is the range of \<open>n\<close> bytes that starts at offset \<open>off\<close>; \<open>None\<close> stands for
  a range that is not inside the buffer, which no defined C++ execution reads.
\<close>

definition slice :: "'a list \<Rightarrow> nat \<Rightarrow> nat \<Rightarrow> 'a list option" where
  "slice xs off n = (if off + n \<le> length xs then Some (take n (drop off xs)) else None)"

text \<open>\<open>suffix_from xs off\<close> is the range \<open>[data() + off, size() - off)\<close>: when \<open>off\<close> exceeds the
  size, the subtraction on \<open>size_t\<close> wraps around and the range is not readable.\<close>

definition suffix_from :: "'a list \<Rightarrow> nat \<Rightarrow> 'a list option" where
  "suffix_from xs off = (if off \<le> length xs then Some (drop off xs) else None)"

text \<open>
  \<open>overwrite buf off src\<close> copies \<open>src\<close> over \<open>buf\<close> from offset \<open>off\<close> on; \<open>blit\<close> is the same copy
  (\<open>std::memcpy\<close> from a buffer that does not overlap \<open>buf\<close>), undefined when it leaves \<open>buf\<close>.
\<close>

definition overwrite :: "'a list \<Rightarrow> nat \<Rightarrow> 'a list \<Rightarrow> 'a list" where
  "overwrite buf off src = take off buf @ src @ drop (off + length src) buf"

definition blit :: "'a list \<Rightarrow> nat \<Rightarrow> 'a list \<Rightarrow> 'a list option" where
  "blit buf off src =
     (if off + length src \<le> length buf then Some (overwrite buf off src) else None)"

text \<open>\<open>std::vector::resize\<close>: cut, or fill with value-initialised elements.\<close>

definition resize :: "nat \<Rightarrow> bytes \<Rightarrow> bytes" where
  "resize n xs = take n xs @ replicate (n - length xs) 0"

lemma length_resize [simp]: "length (resize n xs) = n"
  by (simp add: resize_def)

lemma slice_Some_iff [frame_defs]:
  "slice xs off n = Some ys \<longleftrightarrow> off + n \<le> length xs \<and> ys = take n (drop off xs)"
  by (auto simp: slice_def)

lemma slice_length: "slice xs off n = Some ys \<Longrightarrow> length ys = n"
  by (auto simp: slice_def split: if_splits)

lemma slice_middle: "length xs = off \<Longrightarrow> length ys = n \<Longrightarrow> slice (xs @ ys @ zs) off n = Some ys"
  by (simp add: slice_def)

lemma slice_last: "length xs = off \<Longrightarrow> length ys = n \<Longrightarrow> slice (xs @ ys) off n = Some ys"
  by (simp add: slice_def)

lemma suffix_from_Some_iff [frame_defs]:
  "suffix_from xs off = Some ys \<longleftrightarrow> off \<le> length xs \<and> ys = drop off xs"
  by (auto simp: suffix_from_def)

lemma suffix_from_append [simp]: "length xs = n \<Longrightarrow> suffix_from (xs @ ys) n = Some ys"
  by (auto simp: suffix_from_def)

lemma blit_length: "blit buf off src = Some buf' \<Longrightarrow> length buf' = length buf"
  by (auto simp: blit_def overwrite_def split: if_splits)

lemma blit_replicate:
  "blit (hdr @ replicate n 0) (length hdr) src = Some (hdr @ src @ replicate (n - length src) 0)"
  if "length src \<le> n"
  using that by (simp add: blit_def overwrite_def)

lemma blit_resize:
  assumes "length pre = k"
  shows "blit (resize (k + length d) (pre @ rest)) k d = Some (pre @ d)"
  using assms by (auto simp: blit_def resize_def overwrite_def)

section \<open>The little-endian 32-bit field\<close>

text \<open>
  The four header bytes \<open>static_cast<uint8_t>((v >> 8k) & 0xFF)\<close> and their inverse
  \<open>b0 | b1 << 8 | b2 << 16 | b3 << 24\<close> on \<open>uint32_t\<close>.
\<close>

definition le32 :: "u32 \<Rightarrow> bytes" where
  "le32 v = [ucast (v AND 0xFF), ucast (drop_bit 8 v AND 0xFF),
             ucast (drop_bit 16 v AND 0xFF), ucast (drop_bit 24 v AND 0xFF)]"

definition of_le32 :: "byte \<Rightarrow> byte \<Rightarrow> byte \<Rightarrow> byte \<Rightarrow> u32" where
  "of_le32 b0 b1 b2 b3 =
     ucast b0 OR push_bit 8 (ucast b1) OR push_bit 16 (ucast b2) OR push_bit 24 (ucast b3)"

lemma length_le32 [simp]: "length (le32 v) = 4"
  by (simp add: le32_def)

lemma mask_0xFF: "(0xFF :: u32) = mask 8"
  by (simp add: mask_eq_exp_minus_1)

lemma of_le32_le32:
  "of_le32 (ucast (v AND 0xFF)) (ucast (drop_bit 8 v AND 0xFF))
           (ucast (drop_bit 16 v AND 0xFF)) (ucast (drop_bit 24 v AND 0xFF)) = v"
  unfolding of_le32_def mask_0xFF
proof (rule bit_word_eqI, goal_cases)
  case (1 n)
  then consider "n < 8" | "8 \<le> n" "n < 16" | "16 \<le> n" "n < 24" | "24 \<le> n" "n < 32"
    by fastforce
  then show ?case
    by cases (auto simp: bit_simps)
qed

lemma le32_of_le32: "le32 (of_le32 b0 b1 b2 b3) = [b0, b1, b2, b3]"
proof -
  have high: "\<not> bit (b :: byte) (m + n)" if "8 \<le> m" for b m n
    using that bit_imp_le_length [of b "m + n"] by auto
  show ?thesis
    unfolding of_le32_def le32_def mask_0xFF
    by (auto intro!: bit_word_eqI simp: bit_simps high)
qed

section \<open>Strings\<close>

text \<open>A \<open>std::string\<close> is a \<open>char list\<close>; its bytes are the codes of its characters.\<close>

definition byte_of_char :: "char \<Rightarrow> byte" where
  "byte_of_char c = word_of_nat (of_char c)"

definition char_of_byte :: "byte \<Rightarrow> char" where
  "char_of_byte b = char_of (unat b)"

lemma of_char_less_256: "(of_char c :: nat) < 256"
  by (metis char_of_char of_char_mod_256 mod_less_divisor zero_less_numeral)

lemma char_of_byte_of_char [simp]: "char_of_byte (byte_of_char c) = c"
  using of_char_less_256 [of c]
  by (simp add: char_of_byte_def byte_of_char_def unat_of_nat)

lemma map_char_of_byte_of_char [simp]: "map char_of_byte (map byte_of_char s) = s"
  by (induction s) auto

lemma byte_of_char_eq_0_iff [simp]: "byte_of_char c = 0 \<longleftrightarrow> c = CHR 0x00"
proof
  assume "byte_of_char c = 0"
  then have "char_of_byte (byte_of_char c) = char_of_byte 0" by simp
  moreover have "char_of_byte 0 = CHR 0x00" by (simp add: char_of_byte_def char_of_def)
  ultimately show "c = CHR 0x00" by simp
qed (simp add: byte_of_char_def)

text \<open>
  \<open>std::string(const char *)\<close>: the bytes before the first null byte. A buffer without a null
  byte is read past its end, which has no defined result.
\<close>

definition cstring :: "bytes \<Rightarrow> string option" where
  "cstring bs = (if 0 \<in> set bs then Some (map char_of_byte (takeWhile (\<lambda>b. b \<noteq> 0) bs)) else None)"

lemma cstring_terminated:
  assumes "CHR 0x00 \<notin> set s"
  shows "cstring (map byte_of_char s @ 0 # rest) = Some s"
proof -
  have "takeWhile (\<lambda>b. b \<noteq> 0) (map byte_of_char s @ 0 # rest) = map byte_of_char s"
    using assms by (induction s) auto
  moreover have "0 \<in> set (map byte_of_char s @ 0 # rest)"
    by (simp only: set_append list.set) simp
  ultimately show ?thesis
    by (simp only: cstring_def map_char_of_byte_of_char if_True)
qed

section \<open>Exceptions\<close>

text \<open>
  A computation that may throw a \<open>std::exception\<close> is \<open>Inl\<close> its \<open>what()\<close> string or \<open>Inr\<close> its result.
  \<open>throw_first\<close> is a sequence of \<open>if (condition) throw\<close> statements in front of a computation.
\<close>

type_synonym 'a throws = "string + 'a"

primrec bind_sum :: "'e + 'a \<Rightarrow> ('a \<Rightarrow> 'e + 'b) \<Rightarrow> 'e + 'b" where
  "bind_sum (Inl e) f = Inl e"
| "bind_sum (Inr x) f = f x"

primrec throw_first :: "(bool \<times> string) list \<Rightarrow> 'a throws \<Rightarrow> 'a throws" where
  "throw_first [] k = k"
| "throw_first (c # cs) k = (if fst c then Inl (snd c) else throw_first cs k)"

lemma bind_sum_Inr_iff [simp]: "bind_sum x f = Inr y \<longleftrightarrow> (\<exists>v. x = Inr v \<and> f v = Inr y)"
  by (cases x) simp_all

definition no_throw :: "(bool \<times> string) list \<Rightarrow> bool" where
  "no_throw cs \<longleftrightarrow> list_all (\<lambda>c. \<not> fst c) cs"

lemma no_throw_simps [simp]:
  "no_throw []"
  "no_throw ((b, msg) # cs) \<longleftrightarrow> \<not> b \<and> no_throw cs"
  "no_throw (cs @ ds) \<longleftrightarrow> no_throw cs \<and> no_throw ds"
  by (simp_all add: no_throw_def)

lemma throw_first_Inr_iff [simp]:
  "throw_first cs k = Inr y \<longleftrightarrow> no_throw cs \<and> k = Inr y"
  by (induction cs) (auto simp: no_throw_def)

declare throw_first.simps [simp del]

text \<open>A text in double quotes.\<close>

definition quoted :: "string \<Rightarrow> string" where
  "quoted s = CHR 0x22 # s @ [CHR 0x22]"

section \<open>Scanning\<close>

text \<open>A scan for characters of \<open>P\<close> ends in front of \<open>ys\<close>.\<close>

definition stops :: "('a \<Rightarrow> bool) \<Rightarrow> 'a list \<Rightarrow> bool" where
  "stops P ys \<longleftrightarrow> (case ys of [] \<Rightarrow> True | y # _ \<Rightarrow> \<not> P y)"

lemma stops_Cons [simp]: "stops P (y # ys) \<longleftrightarrow> \<not> P y"
  by (simp add: stops_def)

lemma stops_append: "list_all Q xs \<Longrightarrow> (\<And>c. Q c \<Longrightarrow> \<not> P c) \<Longrightarrow> stops P ys \<Longrightarrow> stops P (xs @ ys)"
  by (cases xs) (simp_all add: stops_def)

lemma dropWhile_prefix: "list_all P xs \<Longrightarrow> stops P ys \<Longrightarrow> dropWhile P (xs @ ys) = ys"
  by (induction xs) (auto simp: stops_def split: list.splits)

lemma takeWhile_prefix: "list_all P xs \<Longrightarrow> stops P ys \<Longrightarrow> takeWhile P (xs @ ys) = xs"
  by (induction xs) (auto simp: stops_def split: list.splits)

lemma list_all_takeWhile: "list_all P (takeWhile P xs)"
  by (induction xs) auto

text \<open>At most one element.\<close>

definition opt_list :: "'a option \<Rightarrow> 'a list" where
  "opt_list x = (case x of None \<Rightarrow> [] | Some y \<Rightarrow> [y])"

lemma opt_list_simps [simp]: "opt_list None = []" "opt_list (Some x) = [x]"
  by (simp_all add: opt_list_def)

end
