(* ===== verification/Types.thy ===== *)
theory Types
  imports Prelude
begin

text \<open>
  The data of \<^verbatim>\<open>include/connect/types.hpp\<close>: compressors, op-codes, topic and service/action
  definitions and the built-in quality-of-service profiles. A C++ \<open>enum : uint8_t\<close> is a datatype
  with a code function; the cast back from a byte is partial. The enumerations and time constants
  of rmw are named symbolically, since their numeric values belong to the ROS middleware.
\<close>

section \<open>Compressors\<close>

datatype Compressor = NONE | LZ4_DEFAULT | LZ4_HC | ZLIB

primrec compressor_code :: "Compressor \<Rightarrow> byte" where
  "compressor_code NONE = 0"
| "compressor_code LZ4_DEFAULT = 1"
| "compressor_code LZ4_HC = 2"
| "compressor_code ZLIB = 3"

text \<open>\<open>static_cast<Compressor>\<close>, which the code guards by \<open>COMPRESSOR_MIN\<close> and \<open>COMPRESSOR_MAX\<close>.\<close>

definition compressor_of :: "byte \<Rightarrow> Compressor option" where
  "compressor_of b =
     (if b = 0 then Some NONE else if b = 1 then Some LZ4_DEFAULT
      else if b = 2 then Some LZ4_HC else if b = 3 then Some ZLIB else None)"

lemma compressor_of_code [simp]: "compressor_of (compressor_code c) = Some c"
  by (cases c) (simp_all add: compressor_of_def)

lemma compressor_of_Some [simp]: "compressor_of b = Some c \<longleftrightarrow> b = compressor_code c"
  by (cases c) (auto simp: compressor_of_def)

lemma compressor_code_inject [simp]: "compressor_code c = compressor_code d \<longleftrightarrow> c = d"
  by (cases c; cases d) simp_all

lemma compressor_code_eq_0 [simp]: "compressor_code c = 0 \<longleftrightarrow> c = NONE"
  by (cases c) simp_all

lemma compressor_code_le_3: "compressor_code c \<le> 3"
  by (cases c) simp_all

record compression_t =
  compressor_of_profile :: Compressor
  rate :: u32

definition DEFAULT_COMPRESSION_PROFILE :: compression_t where
  "DEFAULT_COMPRESSION_PROFILE = \<lparr>compressor_of_profile = NONE, rate = 0\<rparr>"

section \<open>Op-codes\<close>

datatype OpCode =
    NOTIFICATION | SUBSCRIPTION | SERVICE_ACTION | TF | TF_STATIC | CLOCK | AUTHENTICATION

primrec opcode :: "OpCode \<Rightarrow> byte" where
  "opcode NOTIFICATION = 249"
| "opcode SUBSCRIPTION = 250"
| "opcode SERVICE_ACTION = 251"
| "opcode TF = 252"
| "opcode TF_STATIC = 253"
| "opcode CLOCK = 254"
| "opcode AUTHENTICATION = 255"

definition OP_CODE_MIN :: byte where
  "OP_CODE_MIN = 249"

lemma opcode_inject [simp]: "opcode a = opcode b \<longleftrightarrow> a = b"
  by (cases a; cases b) simp_all

lemma opcode_reserved: "OP_CODE_MIN \<le> opcode a"
  by (cases a) (simp_all add: OP_CODE_MIN_def)

datatype ServiceActionOpCode =
    SERVICE_TO_CLIENT | SERVICE_TO_CLIENT_CANCEL | SERVICE_TO_SERVER
  | ACTION_TO_CLIENT_GOAL | ACTION_TO_SERVER_GOAL_REJECT | ACTION_TO_SERVER_GOAL_ACCEPT
  | ACTION_TO_CLIENT_CANCEL | ACTION_TO_SERVER_CANCEL_REJECT | ACTION_TO_SERVER_CANCEL_ACCEPT
  | ACTION_TO_SERVER_FEEDBACK | ACTION_TO_SERVER_RESULT_SUCCEEDED
  | ACTION_TO_SERVER_RESULT_ABORTED | ACTION_TO_SERVER_RESULT_CANCELED
  | ACTION_TO_SERVER_RESULT_UNKNOWN

primrec sa_code :: "ServiceActionOpCode \<Rightarrow> byte" where
  "sa_code SERVICE_TO_CLIENT = 0"
| "sa_code SERVICE_TO_CLIENT_CANCEL = 1"
| "sa_code SERVICE_TO_SERVER = 2"
| "sa_code ACTION_TO_CLIENT_GOAL = 3"
| "sa_code ACTION_TO_SERVER_GOAL_REJECT = 4"
| "sa_code ACTION_TO_SERVER_GOAL_ACCEPT = 5"
| "sa_code ACTION_TO_CLIENT_CANCEL = 6"
| "sa_code ACTION_TO_SERVER_CANCEL_REJECT = 7"
| "sa_code ACTION_TO_SERVER_CANCEL_ACCEPT = 8"
| "sa_code ACTION_TO_SERVER_FEEDBACK = 9"
| "sa_code ACTION_TO_SERVER_RESULT_SUCCEEDED = 10"
| "sa_code ACTION_TO_SERVER_RESULT_ABORTED = 11"
| "sa_code ACTION_TO_SERVER_RESULT_CANCELED = 12"
| "sa_code ACTION_TO_SERVER_RESULT_UNKNOWN = 13"

definition SERVICE_ACTION_OP_CODE_MAX :: byte where
  "SERVICE_ACTION_OP_CODE_MAX = 13"

definition all_sa_opcodes :: "ServiceActionOpCode list" where
  "all_sa_opcodes =
    [SERVICE_TO_CLIENT, SERVICE_TO_CLIENT_CANCEL, SERVICE_TO_SERVER,
     ACTION_TO_CLIENT_GOAL, ACTION_TO_SERVER_GOAL_REJECT, ACTION_TO_SERVER_GOAL_ACCEPT,
     ACTION_TO_CLIENT_CANCEL, ACTION_TO_SERVER_CANCEL_REJECT, ACTION_TO_SERVER_CANCEL_ACCEPT,
     ACTION_TO_SERVER_FEEDBACK, ACTION_TO_SERVER_RESULT_SUCCEEDED,
     ACTION_TO_SERVER_RESULT_ABORTED, ACTION_TO_SERVER_RESULT_CANCELED,
     ACTION_TO_SERVER_RESULT_UNKNOWN]"

text \<open>\<open>static_cast<ServiceActionOpCode>\<close>, guarded in the code by the op-code range 0 to 13.\<close>

definition sa_opcode_of :: "byte \<Rightarrow> ServiceActionOpCode option" where
  "sa_opcode_of b =
     (if b > SERVICE_ACTION_OP_CODE_MAX then None else find (\<lambda>x. sa_code x = b) all_sa_opcodes)"

lemma sa_code_inject [simp]: "sa_code a = sa_code b \<longleftrightarrow> a = b"
  by (cases a; cases b) simp_all

lemma sa_code_le_13: "sa_code a \<le> SERVICE_ACTION_OP_CODE_MAX"
  by (cases a) (simp_all add: SERVICE_ACTION_OP_CODE_MAX_def)

lemma set_all_sa_opcodes: "x \<in> set all_sa_opcodes"
  by (cases x) (simp_all add: all_sa_opcodes_def)

lemma sa_opcode_of_code [simp]: "sa_opcode_of (sa_code a) = Some a"
  by (cases a) (simp_all add: sa_opcode_of_def all_sa_opcodes_def SERVICE_ACTION_OP_CODE_MAX_def)

lemma sa_opcode_of_SomeD: "sa_opcode_of b = Some a \<Longrightarrow> sa_code a = b"
  by (auto simp: sa_opcode_of_def find_Some_iff split: if_splits)

text \<open>The range check of the code accepts exactly the bytes that name an op-code.\<close>

lemma byte_upto_13:
  fixes b :: byte
  assumes "b \<le> 13"
  shows "b \<in> {0, 1, 2, 3, 4, 5, 6, 7, 8, 9, 10, 11, 12, 13}"
proof -
  have "unat b \<le> 13" using assms by (simp add: word_le_nat_alt)
  then have "unat b \<in> {0, 1, 2, 3, 4, 5, 6, 7, 8, 9, 10, 11, 12, 13}"
    by (simp only: insert_iff empty_iff) arith
  then have "(word_of_nat (unat b) :: byte) \<in> word_of_nat ` {0, 1, 2, 3, 4, 5, 6, 7, 8, 9, 10, 11, 12, 13}"
    by (rule imageI)
  then show ?thesis by simp
qed

lemma sa_opcode_of_None_iff: "sa_opcode_of b = None \<longleftrightarrow> b > SERVICE_ACTION_OP_CODE_MAX"
proof (cases "b > SERVICE_ACTION_OP_CODE_MAX")
  case False
  then have "b \<le> 13" by (simp add: SERVICE_ACTION_OP_CODE_MAX_def not_less)
  then have "b \<in> {0, 1, 2, 3, 4, 5, 6, 7, 8, 9, 10, 11, 12, 13}" by (rule byte_upto_13)
  with False show ?thesis
    by (auto simp: sa_opcode_of_def all_sa_opcodes_def SERVICE_ACTION_OP_CODE_MAX_def)
qed (simp add: sa_opcode_of_def)

section \<open>Quality-of-service profiles\<close>

datatype rmw_history = HISTORY_SYSTEM_DEFAULT | HISTORY_KEEP_LAST | HISTORY_KEEP_ALL
datatype rmw_reliability =
    RELIABILITY_SYSTEM_DEFAULT | RELIABILITY_RELIABLE | RELIABILITY_BEST_EFFORT
datatype rmw_durability =
    DURABILITY_SYSTEM_DEFAULT | DURABILITY_TRANSIENT_LOCAL | DURABILITY_VOLATILE
datatype rmw_liveliness =
    LIVELINESS_SYSTEM_DEFAULT | LIVELINESS_AUTOMATIC | LIVELINESS_MANUAL_BY_TOPIC
  | LIVELINESS_BEST_AVAILABLE

text \<open>An \<open>rmw_time_t\<close> is either one of the named constants of rmw or a pair of seconds and
  nanoseconds, both \<open>uint64_t\<close>.\<close>

datatype rmw_time = RMW_TIME_DEFAULT | RMW_TIME_BEST_AVAILABLE | RMW_TIME u64 u64

record rmw_qos_profile =
  history :: rmw_history
  depth :: u64
  reliability :: rmw_reliability
  durability :: rmw_durability
  deadline :: rmw_time
  lifespan :: rmw_time
  liveliness :: rmw_liveliness
  liveliness_lease_duration :: rmw_time
  avoid_ros_namespace_conventions :: bool

definition CLOCK_AND_TF_QOS :: rmw_qos_profile where
  "CLOCK_AND_TF_QOS =
     \<lparr>history = HISTORY_KEEP_LAST, depth = 100, reliability = RELIABILITY_RELIABLE,
      durability = DURABILITY_VOLATILE, deadline = RMW_TIME_DEFAULT,
      lifespan = RMW_TIME_DEFAULT, liveliness = LIVELINESS_SYSTEM_DEFAULT,
      liveliness_lease_duration = RMW_TIME_DEFAULT, avoid_ros_namespace_conventions = False\<rparr>"

definition TF_STATIC_QOS :: rmw_qos_profile where
  "TF_STATIC_QOS = CLOCK_AND_TF_QOS\<lparr>durability := DURABILITY_TRANSIENT_LOCAL\<rparr>"

section \<open>Topic and service/action definitions\<close>

text \<open>
  Pointers to profiles are the profiles themselves: the maps of profiles they point into are only
  written while the parameters are read, and no element is ever changed. A null pointer is \<open>None\<close>.
\<close>

record Topic_t =
  tp_channel :: byte
  tp_topic :: string
  tp_type :: string
  tp_useOwnThread :: bool
  tp_permanent :: bool
  tp_qos :: "rmw_qos_profile option"
  tp_compression :: compression_t

record Service_Action_t =
  sa_def_channel :: byte
  sa_def_type :: string
  sa_useOwnThread :: bool
  sa_allowSimultaneous :: bool
  sa_serviceQos :: rmw_qos_profile
  sa_feedbackQos :: rmw_qos_profile
  sa_statusQos :: rmw_qos_profile
  sa_resultTimeout :: "32 word"
  sa_maxExecTime :: u32
  sa_compression :: compression_t

end
