(* ===== verification/Thread.thy ===== *)
theory Thread
  imports Types
begin

text \<open>
  \<^verbatim>\<open>src/common/thread.hpp\<close> and \<^verbatim>\<open>thread.cpp\<close>: the base class of every component with a thread of
  its own, and the ordered map (\<open>std::map\<close>) in which the managers keep their parts. A manager stops
  and joins a part before it erases it; the laws of the map are the locale \<open>std_map\<close>.
\<close>

section \<open>Threads\<close>

text \<open>
  \<open>has_thread\<close> is \<open>thread != nullptr\<close>: the pointer is set when the thread is created and reset only
  after it was joined, so the thread it points to is joinable.
\<close>

record thread_state =
  stopping :: bool
  has_thread :: bool

definition new_thread :: thread_state where
  "new_thread = \<lparr>stopping = False, has_thread = False\<rparr>"

text \<open>
  \<open>startThread\<close> deletes the previous thread object. The destructor of a joinable \<open>std::thread\<close>
  terminates the program, which is the outer \<open>None\<close>. \<open>before\<close> is the result of
  \<open>onBeforeStartThread\<close>, \<open>created\<close> tells whether the operating system creates the thread.
\<close>

definition startThread :: "bool \<Rightarrow> bool \<Rightarrow> thread_state \<Rightarrow> (bool \<times> thread_state) option" where
  "startThread before created t =
     (if has_thread t then None
      else let t = t\<lparr>stopping := False\<rparr> in
        if \<not> before then Some (False, t)
        else if \<not> created then Some (False, t)
        else Some (True, t\<lparr>has_thread := True\<rparr>))"

definition stopThread :: "thread_state \<Rightarrow> thread_state" where
  "stopThread t = t\<lparr>stopping := True\<rparr>"

text \<open>
  \<open>joinThread\<close> is the state after the run loop has left. That it leaves once \<open>stopping\<close> is set is
  not assumed: \<open>Worker\<close>, \<open>Listener\<close> and \<open>ClientNode\<close> show when it does.
\<close>

definition joinThread :: "thread_state \<Rightarrow> thread_state" where
  "joinThread t = t\<lparr>has_thread := False\<rparr>"

text \<open>The name of the thread for the operating system, which takes 15 characters at most.\<close>

definition setThreadName :: "string \<Rightarrow> string" where
  "setThreadName name = take 15 name"

lemma startThread_twice:
  "startThread b c t = Some (True, t') \<Longrightarrow> startThread b' c' t' = None"
  by (auto simp: startThread_def Let_def split: if_splits)

lemma restart_after_join:
  "startThread True True (joinThread (stopThread t)) = Some (True, \<lparr>stopping = False, has_thread = True\<rparr>)"
  by (cases t) (simp add: startThread_def joinThread_def stopThread_def)

section \<open>Ordered maps\<close>

text \<open>\<open>std::map\<close> as the list of its elements in key order; \<open>insert\<close> keeps the element of a present key.\<close>

definition map_insert_new :: "'k::linorder \<Rightarrow> 'v \<Rightarrow> ('k \<times> 'v) list \<Rightarrow> ('k \<times> 'v) list" where
  "map_insert_new k v m = (case map_of m k of Some _ \<Rightarrow> m | None \<Rightarrow> insort_key fst (k, v) m)"

definition map_erase :: "'k \<Rightarrow> ('k \<times> 'v) list \<Rightarrow> ('k \<times> 'v) list" where
  "map_erase k m = filter (\<lambda>p. fst p \<noteq> k) m"

text \<open>Overwriting the element of a present key.\<close>

definition map_put :: "'k \<Rightarrow> 'v \<Rightarrow> ('k \<times> 'v) list \<Rightarrow> ('k \<times> 'v) list" where
  "map_put k v m = map (\<lambda>p. if fst p = k then (k, v) else p) m"

lemma map_of_insort_key [simp]:
  "map_of m k = None \<Longrightarrow> map_of (insort_key fst (k, v) m) = (map_of m)(k \<mapsto> v)"
  by (induction m) (auto simp: fun_eq_iff split: if_splits)

lemma map_of_map_insert_new [simp]:
  "map_of (map_insert_new k v m) k' = (if k' = k \<and> map_of m k = None then Some v else map_of m k')"
  by (auto simp: map_insert_new_def split: option.split)

lemma map_of_map_erase [simp]: "map_of (map_erase k m) k' = (if k' = k then None else map_of m k')"
  by (induction m) (auto simp: map_erase_def)

lemma map_of_map_put [simp]:
  "map_of (map_put k v m) k' = (if k' = k then map_option (\<lambda>_. v) (map_of m k) else map_of m k')"
  by (induction m) (auto simp: map_put_def)

lemma keys_map_put [simp]: "map fst (map_put k v m) = map fst m"
  by (induction m) (auto simp: map_put_def)

text \<open>The invariant of the container: the keys are strictly increasing.\<close>

definition map_ok :: "('k::linorder \<times> 'v) list \<Rightarrow> bool" where
  "map_ok m \<longleftrightarrow> sorted (map fst m) \<and> distinct (map fst m)"

lemma insort_keys: "map fst (insort_key fst (k, v) m) = insort k (map fst m)"
  by (induction m) auto

lemma map_ok_insert_new: "map_ok m \<Longrightarrow> map_ok (map_insert_new k v m)"
proof -
  assume ok: "map_ok m"
  show ?thesis
  proof (cases "map_of m k")
    case None
    then have "k \<notin> set (map fst m)" by (simp add: map_of_eq_None_iff)
    with ok None show ?thesis
      by (simp add: map_insert_new_def map_ok_def insort_keys sorted_insort distinct_insort)
  qed (use ok in \<open>simp add: map_insert_new_def\<close>)
qed

lemma map_ok_erase: "map_ok m \<Longrightarrow> map_ok (map_erase k m)"
  by (auto simp: map_ok_def map_erase_def intro: sorted_filter distinct_map_filter)

lemma map_ok_put: "map_ok m \<Longrightarrow> map_ok (map_put k v m)"
  by (simp add: map_ok_def)

text \<open>
  The interface the managers use: lookup after the three updates, and an invariant they keep.
  Whatever sequence of updates a manager performs, only the keys it inserted can be found.
\<close>

locale std_map =
  fixes inv :: "'m \<Rightarrow> bool"
    and look :: "'m \<Rightarrow> 'k \<Rightarrow> 'v option"
    and ins :: "'k \<Rightarrow> 'v \<Rightarrow> 'm \<Rightarrow> 'm"
    and del :: "'k \<Rightarrow> 'm \<Rightarrow> 'm"
    and put :: "'k \<Rightarrow> 'v \<Rightarrow> 'm \<Rightarrow> 'm"
  assumes inv_ins: "inv m \<Longrightarrow> inv (ins k v m)"
    and inv_del: "inv m \<Longrightarrow> inv (del k m)"
    and inv_put: "inv m \<Longrightarrow> inv (put k v m)"
    and look_ins: "look (ins k v m) k' = (if k' = k \<and> look m k = None then Some v else look m k')"
    and look_del: "look (del k m) k' = (if k' = k then None else look m k')"
    and look_put: "look (put k v m) k' = (if k' = k then map_option (\<lambda>_. v) (look m k) else look m k')"
begin

text \<open>Inserting the elements of a list one after the other: the first element with a key wins.\<close>

lemma inv_insert_all: "inv m \<Longrightarrow> inv (foldl (\<lambda>m x. ins (key x) (val x) m) m xs)"
  by (induction xs arbitrary: m) (auto intro: inv_ins)

lemma look_insert_all:
  "look (foldl (\<lambda>m x. ins (key x) (val x) m) m xs) k =
     (case look m k of Some v \<Rightarrow> Some v | None \<Rightarrow> map_option val (find (\<lambda>x. key x = k) xs))"
  by (induction xs arbitrary: m) (auto simp: look_ins split: option.splits)

text \<open>A put under a present key keeps the set of keys.\<close>

lemma dom_put: "look m k \<noteq> None \<Longrightarrow> look (put k v m) k' = None \<longleftrightarrow> look m k' = None"
  by (auto simp: look_put)

end

interpretation stdmap: std_map map_ok map_of map_insert_new map_erase map_put
  by unfold_locales (auto simp: map_ok_insert_new map_ok_erase map_ok_put)

text \<open>The loops of the \<open>init\<close> functions, which create an element for every definition.\<close>

definition insert_all :: "('x \<Rightarrow> 'k::linorder) \<Rightarrow> ('x \<Rightarrow> 'v) \<Rightarrow> 'x list \<Rightarrow> ('k \<times> 'v) list \<Rightarrow> ('k \<times> 'v) list" where
  "insert_all key val xs m = foldl (\<lambda>m x. map_insert_new (key x) (val x) m) m xs"

lemmas map_of_insert_all = stdmap.look_insert_all [folded insert_all_def]

end
