(* ===== verification/MessageBase.thy ===== *)
theory MessageBase
  imports Types
begin

text \<open>
  The abstract class of \<^verbatim>\<open>include/connect/messageBase.hpp\<close> and \<^verbatim>\<open>src/message/messageBase.cpp\<close>: the
  three protected fields, the virtual operations of the three message classes as records of
  functions, and the compression and decompression routines written over them. The compression
  libraries are the parameter \<open>codecs\<close>. The locale \<open>message_data\<close> is the contract of \<open>getSrc\<close>
  and \<open>store\<close> under which decompression is proved correct once for every message class.
\<close>

section \<open>State and virtual operations\<close>

record message_base =
  channel :: byte
  compressor :: Compressor
  uncompressedSize :: u32

text \<open>
  A message class extends \<open>message_base\<close>. \<open>getSrc\<close> is the range \<open>[getSrc(), getSrc() + getSrcSize())\<close>
  and \<open>None\<close> when this range is not inside the object's buffer. \<open>store\<close> is \<open>None\<close> when the C++
  execution is undefined.
\<close>

record 'z data_ops =
  getSrc :: "'z message_base_scheme \<Rightarrow> bytes option"
  getCombinedVector :: "'z message_base_scheme \<Rightarrow> bytes"
  getSerializedMessage :: "'z message_base_scheme \<Rightarrow> bytes option"
  store :: "'z message_base_scheme \<Rightarrow> bytes \<Rightarrow> 'z message_base_scheme option"

text \<open>
  The compression libraries. The LZ4 compressors return the bytes written (none on failure), the
  decompressors and zlib's \<open>compress2\<close> return \<open>None\<close> on failure. Sizes and levels of the LZ4 calls
  are C \<open>int\<close>s.
\<close>

record codecs =
  LZ4_compressBound :: "int \<Rightarrow> int"
  LZ4_compress_fast :: "bytes \<Rightarrow> int \<Rightarrow> int \<Rightarrow> int \<Rightarrow> bytes"
  LZ4_compress_HC :: "bytes \<Rightarrow> int \<Rightarrow> int \<Rightarrow> int \<Rightarrow> bytes"
  LZ4_decompress_safe :: "bytes \<Rightarrow> int \<Rightarrow> int \<Rightarrow> bytes option"
  compressBound :: "nat \<Rightarrow> nat"
  compress2 :: "bytes \<Rightarrow> nat \<Rightarrow> int \<Rightarrow> bytes option"
  uncompress :: "bytes \<Rightarrow> nat \<Rightarrow> bytes option"

record 'z compress_ops =
  op_lz4DefaultCompression :: "codecs \<Rightarrow> 'z message_base_scheme \<Rightarrow> u32 \<Rightarrow> bytes option"
  op_lz4HCCompression :: "codecs \<Rightarrow> 'z message_base_scheme \<Rightarrow> u32 \<Rightarrow> bytes option"
  op_zlibCompression :: "codecs \<Rightarrow> 'z message_base_scheme \<Rightarrow> u32 \<Rightarrow> bytes option"

text \<open>\<open>LZ4_MAX_INPUT_SIZE\<close> is the smallest of the three limits in the macro.\<close>

definition LZ4_MAX_SRC_SIZE :: nat where
  "LZ4_MAX_SRC_SIZE = min 0x7E000000 (min (2 ^ 31 - 1 - 1) (2 ^ 32 - 1 - 1))"

definition ZLIB_MAX_SRC_SIZE :: nat where
  "ZLIB_MAX_SRC_SIZE = min (2 ^ 64 - 1 - 1) (2 ^ 32 - 1 - 1)"

lemma LZ4_MAX_SRC_SIZE_eq: "LZ4_MAX_SRC_SIZE = 2113929216"
  by (simp add: LZ4_MAX_SRC_SIZE_def)

lemma ZLIB_MAX_SRC_SIZE_eq: "ZLIB_MAX_SRC_SIZE = 4294967294"
  by (simp add: ZLIB_MAX_SRC_SIZE_def)

section \<open>Operations of the base class\<close>

definition isOpCode :: "'z message_base_scheme \<Rightarrow> OpCode \<Rightarrow> bool" where
  "isOpCode m op \<longleftrightarrow> channel m = opcode op"

definition getChannel :: "'z message_base_scheme \<Rightarrow> byte" where
  "getChannel m = channel m"

definition isCompressed :: "'z message_base_scheme \<Rightarrow> bool" where
  "isCompressed m \<longleftrightarrow> compressor m \<noteq> NONE"

text \<open>
  The compressors allocate the header and the worst case, let the library write behind the header
  and cut the buffer to the bytes written. \<open>None\<close> would be a library that writes past its capacity.
\<close>

definition compress_frame :: "bytes \<Rightarrow> nat \<Rightarrow> bytes \<Rightarrow> bytes option" where
  "compress_frame hdr cap out = do {
     buf \<leftarrow> blit (hdr @ replicate cap 0) (length hdr) out;
     Some (resize (length out + length hdr) buf)
   }"

lemma compress_frame_fits [simp]:
  "length out \<le> cap \<Longrightarrow> compress_frame hdr cap out = Some (hdr @ out)"
  by (simp add: compress_frame_def blit_replicate resize_def)

definition lz4DefaultCompression ::
    "('z, 'y) data_ops_scheme \<Rightarrow> codecs \<Rightarrow> 'z message_base_scheme \<Rightarrow> u32 \<Rightarrow> bytes option" where
  "lz4DefaultCompression ops c m r = do {
     src \<leftarrow> getSrc ops m;
     if length src > LZ4_MAX_SRC_SIZE then Some (getCombinedVector ops m)
     else do {
       let srcSize = (word_of_nat (length src) :: u32);
       let maxDstSize = LZ4_compressBound c (sint srcSize);
       let out = LZ4_compress_fast c src (sint srcSize) maxDstSize (sint r);
       if out = [] then Some (getCombinedVector ops m)
       else compress_frame (channel m # compressor_code LZ4_DEFAULT # le32 srcSize) (nat maxDstSize) out
     }
   }"

definition lz4HCCompression ::
    "('z, 'y) data_ops_scheme \<Rightarrow> codecs \<Rightarrow> 'z message_base_scheme \<Rightarrow> u32 \<Rightarrow> bytes option" where
  "lz4HCCompression ops c m r = do {
     src \<leftarrow> getSrc ops m;
     if length src > LZ4_MAX_SRC_SIZE then Some (getCombinedVector ops m)
     else do {
       let srcSize = (word_of_nat (length src) :: u32);
       let maxDstSize = LZ4_compressBound c (sint srcSize);
       let out = LZ4_compress_HC c src (sint srcSize) maxDstSize (sint r);
       if out = [] then Some (getCombinedVector ops m)
       else compress_frame (channel m # compressor_code LZ4_HC # le32 srcSize) (nat maxDstSize) out
     }
   }"

definition zlibCompression ::
    "('z, 'y) data_ops_scheme \<Rightarrow> codecs \<Rightarrow> 'z message_base_scheme \<Rightarrow> u32 \<Rightarrow> bytes option" where
  "zlibCompression ops c m r = do {
     src \<leftarrow> getSrc ops m;
     if length src > ZLIB_MAX_SRC_SIZE then Some (getCombinedVector ops m)
     else do {
       let dstSize = compressBound c (length src);
       case compress2 c src dstSize (sint r) of
         None \<Rightarrow> Some (getCombinedVector ops m)
       | Some out \<Rightarrow>
           compress_frame (channel m # compressor_code ZLIB # le32 (word_of_nat (length src)))
             dstSize out
     }
   }"

definition base_compress_ops :: "('z, 'y) data_ops_scheme \<Rightarrow> 'z compress_ops" where
  "base_compress_ops ops =
     \<lparr>op_lz4DefaultCompression = lz4DefaultCompression ops,
      op_lz4HCCompression = lz4HCCompression ops,
      op_zlibCompression = zlibCompression ops\<rparr>"

definition getCompressedCombinedVector ::
    "('z, 'y) data_ops_scheme \<Rightarrow> 'z compress_ops \<Rightarrow> codecs \<Rightarrow> 'z message_base_scheme
     \<Rightarrow> compression_t \<Rightarrow> bytes option" where
  "getCompressedCombinedVector ops cops c m p =
     (case compressor_of_profile p of
        LZ4_DEFAULT \<Rightarrow> op_lz4DefaultCompression cops c m (rate p)
      | LZ4_HC \<Rightarrow> op_lz4HCCompression cops c m (rate p)
      | ZLIB \<Rightarrow> op_zlibCompression cops c m (rate p)
      | NONE \<Rightarrow> Some (getCombinedVector ops m))"

text \<open>
  Decompression returns whether it succeeded and the message afterwards; the outer option is \<open>None\<close>
  when the source range or the final \<open>store\<close> is undefined.
\<close>

definition lz4Decompression ::
    "('z, 'y) data_ops_scheme \<Rightarrow> codecs \<Rightarrow> 'z message_base_scheme
     \<Rightarrow> (bool \<times> 'z message_base_scheme) option" where
  "lz4Decompression ops c m =
     (if unat (uncompressedSize m) > ZLIB_MAX_SRC_SIZE then Some (False, m)
      else do {
        src \<leftarrow> getSrc ops m;
        let srcSize = (word_of_nat (length src) :: u32);
        case LZ4_decompress_safe c src (sint srcSize) (sint (uncompressedSize m)) of
          None \<Rightarrow> Some (False, m)
        | Some out \<Rightarrow>
            if int (length out) \<noteq> sint (uncompressedSize m) then Some (False, m)
            else do {
              m' \<leftarrow> store ops (m\<lparr>compressor := NONE\<rparr>) out;
              Some (True, m')
            }
      })"

definition zlibDecompression ::
    "('z, 'y) data_ops_scheme \<Rightarrow> codecs \<Rightarrow> 'z message_base_scheme
     \<Rightarrow> (bool \<times> 'z message_base_scheme) option" where
  "zlibDecompression ops c m =
     (if unat (uncompressedSize m) > ZLIB_MAX_SRC_SIZE then Some (False, m)
      else do {
        src \<leftarrow> getSrc ops m;
        case uncompress c src (unat (uncompressedSize m)) of
          None \<Rightarrow> Some (False, m)
        | Some out \<Rightarrow>
            if length out \<noteq> unat (uncompressedSize m) then Some (False, m)
            else do {
              m' \<leftarrow> store ops (m\<lparr>compressor := NONE\<rparr>) out;
              Some (True, m')
            }
      })"

definition decompress ::
    "('z, 'y) data_ops_scheme \<Rightarrow> codecs \<Rightarrow> 'z message_base_scheme
     \<Rightarrow> (bool \<times> 'z message_base_scheme) option" where
  "decompress ops c m =
     (case compressor m of
        LZ4_HC \<Rightarrow> lz4Decompression ops c m
      | LZ4_DEFAULT \<Rightarrow> lz4Decompression ops c m
      | ZLIB \<Rightarrow> zlibDecompression ops c m
      | NONE \<Rightarrow> Some (False, m))"

section \<open>The documented behaviour of the compression libraries\<close>

text \<open>
  A compressor stays within its capacity, and decompressing what it wrote into a buffer of at least
  the original size gives the original data back. Nothing is assumed about inputs that no
  compressor produced. A zlib stream has a header and a checksum, so it is never empty.
\<close>

definition lz4_ok ::
    "codecs \<Rightarrow> (bytes \<Rightarrow> int \<Rightarrow> int \<Rightarrow> int \<Rightarrow> bytes) \<Rightarrow> bool" where
  "lz4_ok c enc \<longleftrightarrow>
     (\<forall>src cap r out. enc src (int (length src)) cap r = out \<and> out \<noteq> [] \<longrightarrow>
        int (length out) \<le> cap \<and>
        (\<forall>dst. int (length src) \<le> dst \<longrightarrow>
           LZ4_decompress_safe c out (int (length out)) dst = Some src))"

definition codecs_ok :: "codecs \<Rightarrow> bool" where
  "codecs_ok c \<longleftrightarrow>
     lz4_ok c (LZ4_compress_fast c) \<and> lz4_ok c (LZ4_compress_HC c) \<and>
     (\<forall>n. n \<le> int LZ4_MAX_SRC_SIZE \<longrightarrow> LZ4_compressBound c n < 2 ^ 31) \<and>
     (\<forall>src cap r out. compress2 c src cap r = Some out \<longrightarrow>
        out \<noteq> [] \<and> length out \<le> cap \<and>
        (\<forall>dst. length src \<le> dst \<longrightarrow> uncompress c out dst = Some src))"

text \<open>A codec that satisfies the contract: it stores the data as it is and refuses empty data.\<close>

definition stored_codecs :: codecs where
  "stored_codecs =
     \<lparr>LZ4_compressBound = (\<lambda>n. min n (2 ^ 31 - 1)),
      LZ4_compress_fast = (\<lambda>src n cap r. if int (length src) \<le> cap then src else []),
      LZ4_compress_HC = (\<lambda>src n cap r. if int (length src) \<le> cap then src else []),
      LZ4_decompress_safe = (\<lambda>src n cap. if int (length src) \<le> cap then Some src else None),
      compressBound = (\<lambda>n. n),
      compress2 = (\<lambda>src cap r. if src \<noteq> [] \<and> length src \<le> cap then Some src else None),
      uncompress = (\<lambda>src cap. if length src \<le> cap then Some src else None)\<rparr>"

lemma stored_codecs_ok: "codecs_ok stored_codecs"
  by (auto simp: codecs_ok_def lz4_ok_def stored_codecs_def split: if_splits)

lemma compress2D:
  "codecs_ok c \<Longrightarrow> compress2 c src cap r = Some out \<Longrightarrow>
   out \<noteq> [] \<and> length out \<le> cap \<and> (\<forall>dst. length src \<le> dst \<longrightarrow> uncompress c out dst = Some src)"
  unfolding codecs_ok_def by blast

lemma lz4_okD:
  "lz4_ok c enc \<Longrightarrow> enc src (int (length src)) cap r = out \<Longrightarrow> out \<noteq> [] \<Longrightarrow>
   int (length out) \<le> cap \<and>
   (\<forall>dst. int (length src) \<le> dst \<longrightarrow> LZ4_decompress_safe c out (int (length out)) dst = Some src)"
  unfolding lz4_ok_def by blast

lemma sint_word_of_nat_small:
  "n < 2 ^ 31 \<Longrightarrow> sint (word_of_nat n :: u32) = int n"
  by (simp add: signed_of_nat signed_take_bit_int_eq_self)

lemma unat_of_sint:
  fixes w :: u32
  assumes "int n = sint w"
  shows "unat w = n"
proof -
  have "int n < 2 ^ 31" using sint_lt [of w] assms by simp
  moreover have "w = word_of_int (int n)"
    by (simp only: assms of_int_sint scast_id)
  then have "w = word_of_nat n" by simp
  ultimately show ?thesis by (simp add: unat_of_nat)
qed

section \<open>The contract of getSrc and store\<close>

text \<open>
  What \<open>decompress\<close> relies on: in a well-formed message the source range is readable, and storing
  data into a compressed one leaves a well-formed uncompressed message with these data.
\<close>

locale message_data =
  fixes ops :: "('z, 'y) data_ops_scheme"
    and wf :: "'z message_base_scheme \<Rightarrow> bool"
    and meta :: "'z message_base_scheme \<Rightarrow> 'x"
  assumes getSrc_defined: "wf m \<Longrightarrow> \<exists>src. getSrc ops m = Some src"
    and store_defined: "wf m \<Longrightarrow> isCompressed m \<Longrightarrow> \<exists>m'. store ops (m\<lparr>compressor := NONE\<rparr>) d = Some m'"
    and store_correct: "wf m \<Longrightarrow> isCompressed m \<Longrightarrow> store ops (m\<lparr>compressor := NONE\<rparr>) d = Some m' \<Longrightarrow>
       wf m' \<and> getSrc ops m' = Some d \<and> compressor m' = NONE \<and> meta m' = meta m
       \<and> uncompressedSize m' = uncompressedSize m"
begin

lemma lz4_defined:
  assumes "wf m" and "isCompressed m"
  shows "\<exists>b m'. lz4Decompression ops c m = Some (b, m')"
proof -
  obtain src where "getSrc ops m = Some src"
    using getSrc_defined assms(1) by blast
  moreover obtain st where "\<And>d. store ops (m\<lparr>compressor := NONE\<rparr>) d = Some (st d)"
    using store_defined [OF assms] by metis
  ultimately show ?thesis
    by (auto simp: lz4Decompression_def Let_def split: option.split)
qed

lemma zlib_defined:
  assumes "wf m" and "isCompressed m"
  shows "\<exists>b m'. zlibDecompression ops c m = Some (b, m')"
proof -
  obtain src where "getSrc ops m = Some src"
    using getSrc_defined assms(1) by blast
  moreover obtain st where "\<And>d. store ops (m\<lparr>compressor := NONE\<rparr>) d = Some (st d)"
    using store_defined [OF assms] by metis
  ultimately show ?thesis
    by (auto simp: zlibDecompression_def split: option.split)
qed

text \<open>Decompression of a well-formed message never leaves its buffers.\<close>

lemma decompress_defined: "wf m \<Longrightarrow> \<exists>b m'. decompress ops c m = Some (b, m')"
  using lz4_defined [of m c] zlib_defined [of m c]
  by (auto simp: decompress_def isCompressed_def split: Compressor.split)

text \<open>A failed decompression leaves the message as it was.\<close>

lemma decompress_False: "decompress ops c m = Some (False, m') \<Longrightarrow> m' = m"
  by (auto simp: decompress_def lz4Decompression_def zlibDecompression_def Let_def
      bind_eq_Some_conv split: Compressor.splits option.splits if_splits)

lemma lz4_True:
  assumes "lz4Decompression ops c m = Some (True, m')"
  shows "\<exists>src out. getSrc ops m = Some src
    \<and> LZ4_decompress_safe c src (sint (word_of_nat (length src) :: u32)) (sint (uncompressedSize m)) = Some out
    \<and> int (length out) = sint (uncompressedSize m)
    \<and> store ops (m\<lparr>compressor := NONE\<rparr>) out = Some m'"
  using assms
  by (auto simp: lz4Decompression_def Let_def bind_eq_Some_conv split: option.splits if_splits)

lemma zlib_True:
  assumes "zlibDecompression ops c m = Some (True, m')"
  shows "\<exists>src out. getSrc ops m = Some src
    \<and> uncompress c src (unat (uncompressedSize m)) = Some out
    \<and> length out = unat (uncompressedSize m)
    \<and> store ops (m\<lparr>compressor := NONE\<rparr>) out = Some m'"
  using assms
  by (auto simp: zlibDecompression_def bind_eq_Some_conv split: option.splits if_splits)

text \<open>
  A successful decompression yields a well-formed uncompressed message of exactly the announced
  size, with the same routing data.
\<close>

lemma decompress_True:
  assumes "wf m" and "decompress ops c m = Some (True, m')"
  shows "wf m' \<and> \<not> isCompressed m' \<and> meta m' = meta m
    \<and> (\<exists>d. getSrc ops m' = Some d \<and> length d = unat (uncompressedSize m))"
proof -
  have cmp: "isCompressed m"
    using assms(2) by (auto simp: decompress_def isCompressed_def split: Compressor.splits)
  have "\<exists>out. length out = unat (uncompressedSize m) \<and> store ops (m\<lparr>compressor := NONE\<rparr>) out = Some m'"
  proof (cases "compressor m = ZLIB")
    case True
    then show ?thesis using assms(2) zlib_True [of c m m'] by (auto simp: decompress_def)
  next
    case False
    then have "lz4Decompression ops c m = Some (True, m')"
      using assms(2) by (auto simp: decompress_def split: Compressor.splits)
    then obtain out where "int (length out) = sint (uncompressedSize m)"
      and st: "store ops (m\<lparr>compressor := NONE\<rparr>) out = Some m'"
      using lz4_True by blast
    then have "length out = unat (uncompressedSize m)"
      using unat_of_sint by simp
    with st show ?thesis by blast
  qed
  then obtain out where len: "length out = unat (uncompressedSize m)"
    and st: "store ops (m\<lparr>compressor := NONE\<rparr>) out = Some m'" by blast
  from store_correct [OF assms(1) cmp st] len show ?thesis
    by (auto simp: isCompressed_def)
qed

text \<open>What the compressors wrote is decompressed to the original data.\<close>

lemma decompress_lz4_roundtrip:
  assumes "wf m" and "compressor m = LZ4_DEFAULT \<or> compressor m = LZ4_HC"
    and src: "getSrc ops m = Some src" and len: "length src < 2 ^ 31"
    and size: "uncompressedSize m = word_of_nat (length x)" and max: "length x \<le> LZ4_MAX_SRC_SIZE"
    and codec: "\<And>dst. int (length x) \<le> dst \<Longrightarrow>
      LZ4_decompress_safe c src (int (length src)) dst = Some x"
  shows "\<exists>m'. decompress ops c m = Some (True, m') \<and> wf m' \<and> compressor m' = NONE
    \<and> getSrc ops m' = Some x \<and> meta m' = meta m"
proof -
  have cmp: "isCompressed m" using assms(2) by (auto simp: isCompressed_def)
  have xs: "length x < 2 ^ 31" using max by (simp add: LZ4_MAX_SRC_SIZE_def)
  have small: "\<not> ZLIB_MAX_SRC_SIZE < unat (uncompressedSize m)"
    using xs by (simp add: size ZLIB_MAX_SRC_SIZE_def unat_of_nat)
  obtain m' where st: "store ops (m\<lparr>compressor := NONE\<rparr>) x = Some m'"
    using store_defined [OF assms(1) cmp] by blast
  have "sint (word_of_nat (length src) :: u32) = int (length src)"
    and "sint (uncompressedSize m) = int (length x)"
    using len xs size by (simp_all only: sint_word_of_nat_small)
  then have "lz4Decompression ops c m = Some (True, m')"
    using small st codec [of "int (length x)"]
    by (simp add: lz4Decompression_def src)
  with store_correct [OF assms(1) cmp st] assms(2) show ?thesis
    by (auto simp: decompress_def)
qed

lemma decompress_zlib_roundtrip:
  assumes "wf m" and "compressor m = ZLIB"
    and src: "getSrc ops m = Some src"
    and size: "uncompressedSize m = word_of_nat (length x)" and max: "length x \<le> ZLIB_MAX_SRC_SIZE"
    and codec: "\<And>dst. length x \<le> dst \<Longrightarrow> uncompress c src dst = Some x"
  shows "\<exists>m'. decompress ops c m = Some (True, m') \<and> wf m' \<and> compressor m' = NONE
    \<and> getSrc ops m' = Some x \<and> meta m' = meta m"
proof -
  have cmp: "isCompressed m" using assms(2) by (auto simp: isCompressed_def)
  have len: "unat (uncompressedSize m) = length x"
    using max by (simp add: size ZLIB_MAX_SRC_SIZE_def unat_of_nat)
  obtain m' where st: "store ops (m\<lparr>compressor := NONE\<rparr>) x = Some m'"
    using store_defined [OF assms(1) cmp] by blast
  have "zlibDecompression ops c m = Some (True, m')"
    using st max by (simp add: zlibDecompression_def src len codec)
  with store_correct [OF assms(1) cmp st] assms(2) show ?thesis
    by (auto simp: decompress_def)
qed

end

end
