(* ===== verification/RclMessage.thy ===== *)
theory RclMessage
  imports MessageBase
begin

text \<open>
  \<^verbatim>\<open>src/message/rclMessage.hpp\<close> and \<^verbatim>\<open>rclMessage.cpp\<close>: the message that keeps its payload as a
  serialized ROS message, and \<open>fromFlatBuffer\<close>, the parser of every frame that arrives over the
  websocket. The parser and the printer \<open>getCombinedVector\<close> are inverse to each other on valid
  frames. The locale \<open>wire_message\<close> adds to \<open>message_data\<close> that the printed frame of an
  uncompressed message parses back; under it every compression profile transports the payload.
\<close>

section \<open>State and operations\<close>

record rcl_message = message_base +
  serialized :: bytes

definition RclMessage :: "byte \<Rightarrow> Compressor \<Rightarrow> u32 \<Rightarrow> bytes \<Rightarrow> rcl_message" where
  "RclMessage ch cmpr usize msg =
     \<lparr>channel = ch, compressor = cmpr, uncompressedSize = usize, serialized = msg\<rparr>"

text \<open>
  The frame is channel, compressor, the four size bytes when compressed, then the payload. The
  code reads the header bytes without comparing the frame's length with the header's.
\<close>

definition fromFlatBuffer :: "bytes \<Rightarrow> rcl_message option" where
  "fromFlatBuffer buf = do {
     hdr \<leftarrow> slice buf 0 2;
     let ch = hdr ! 0;
     let cmpr = hdr ! 1;
     if cmpr = compressor_code NONE then do {
       body \<leftarrow> suffix_from buf 2;
       Some (RclMessage ch NONE (word_of_nat (length body)) body)
     } else (case compressor_of cmpr of
       Some cc \<Rightarrow> do {
         sz \<leftarrow> slice buf 2 4;
         body \<leftarrow> suffix_from buf 6;
         Some (RclMessage ch cc (of_le32 (sz ! 0) (sz ! 1) (sz ! 2) (sz ! 3)) body)
       }
     | None \<Rightarrow> Some (RclMessage ch NONE 0 []))
   }"

definition rcl_getCombinedVector :: "rcl_message \<Rightarrow> bytes" where
  "rcl_getCombinedVector m =
     (if compressor m = NONE then channel m # compressor_code NONE # serialized m
      else channel m # compressor_code (compressor m) # le32 (uncompressedSize m) @ serialized m)"

definition rcl_getSerializedMessage :: "rcl_message \<Rightarrow> bytes option" where
  "rcl_getSerializedMessage m = Some (serialized m)"

definition rcl_toString :: "rcl_message \<Rightarrow> string option" where
  "rcl_toString m = cstring (serialized m)"

definition rcl_toSubscription :: "rcl_message \<Rightarrow> (byte \<times> bool) option" where
  "rcl_toSubscription m = do {
     bs \<leftarrow> slice (serialized m) 0 2;
     Some (bs ! 0, bs ! 1 = 1)
   }"

definition rcl_getSrc :: "rcl_message \<Rightarrow> bytes option" where
  "rcl_getSrc m = Some (serialized m)"

definition rcl_store :: "rcl_message \<Rightarrow> bytes \<Rightarrow> rcl_message option" where
  "rcl_store m data = Some (m\<lparr>serialized := data\<rparr>)"

definition rcl_ops :: "unit rcl_message_ext data_ops" where
  "rcl_ops = \<lparr>getSrc = rcl_getSrc, getCombinedVector = rcl_getCombinedVector,
     getSerializedMessage = rcl_getSerializedMessage, store = rcl_store\<rparr>"

lemma rcl_ops_simps [simp]:
  "getSrc rcl_ops m = Some (serialized m)"
  "getCombinedVector rcl_ops m = rcl_getCombinedVector m"
  "getSerializedMessage rcl_ops m = Some (serialized m)"
  "store rcl_ops m d = Some (m\<lparr>serialized := d\<rparr>)"
  by (simp_all add: rcl_ops_def rcl_getSrc_def rcl_getSerializedMessage_def rcl_store_def)

interpretation rcl: message_data rcl_ops "\<lambda>_. True" channel
  by unfold_locales (auto simp: isCompressed_def)

section \<open>Parsing and printing frames\<close>

lemma fromFlatBuffer_plain [simp]:
  "fromFlatBuffer (ch # 0 # body) = Some (RclMessage ch NONE (word_of_nat (length body)) body)"
  by (simp add: fromFlatBuffer_def slice_def suffix_from_def)

lemma fromFlatBuffer_compressed [simp]:
  "cmpr \<noteq> NONE \<Longrightarrow>
   fromFlatBuffer (ch # compressor_code cmpr # b0 # b1 # b2 # b3 # body)
     = Some (RclMessage ch cmpr (of_le32 b0 b1 b2 b3) body)"
  by (simp add: fromFlatBuffer_def slice_def suffix_from_def)

lemma fromFlatBuffer_le32 [simp]:
  "cmpr \<noteq> NONE \<Longrightarrow>
   fromFlatBuffer (ch # compressor_code cmpr # le32 n @ body) = Some (RclMessage ch cmpr n body)"
  by (simp add: le32_def of_le32_le32)

lemmas fromFlatBuffer_codes [simp] =
  fromFlatBuffer_le32 [of LZ4_DEFAULT, simplified]
  fromFlatBuffer_le32 [of LZ4_HC, simplified]
  fromFlatBuffer_le32 [of ZLIB, simplified]

lemma fromFlatBuffer_unknown:
  "compressor_of cmpr = None \<Longrightarrow>
   fromFlatBuffer (ch # cmpr # rest) = Some (RclMessage ch NONE 0 [])"
  by (auto simp: fromFlatBuffer_def slice_def compressor_of_def split: if_splits)

text \<open>The lengths at which a header field lies outside the frame.\<close>

lemma fromFlatBuffer_None_iff:
  "fromFlatBuffer buf = None \<longleftrightarrow>
     length buf < 2
     \<or> (length buf < 6 \<and> (\<exists>cc. cc \<noteq> NONE \<and> compressor_of (buf ! 1) = Some cc))"
proof (cases "length buf < 2")
  case False
  then obtain ch cmpr rest where buf: "buf = ch # cmpr # rest"
    by (cases buf; cases "tl buf") auto
  show ?thesis
  proof (cases "compressor_of cmpr")
    case None
    then show ?thesis by (simp add: buf fromFlatBuffer_unknown)
  next
    case (Some cc)
    then show ?thesis
      by (auto simp: buf fromFlatBuffer_def slice_def suffix_from_def Let_def)
  qed
qed (simp add: fromFlatBuffer_def slice_def)

lemma take4_conv: "4 \<le> length xs \<Longrightarrow> \<exists>a b c d ys. xs = a # b # c # d # ys"
  by (auto simp: numeral_eq_Suc Suc_le_length_iff)

lemma rcl_print_parse:
  assumes "compressor m = NONE \<Longrightarrow> uncompressedSize m = word_of_nat (length (serialized m))"
  shows "fromFlatBuffer (rcl_getCombinedVector m) = Some m"
  using assms by (simp add: rcl_getCombinedVector_def RclMessage_def)

lemma rcl_parse_print:
  assumes "fromFlatBuffer buf = Some m" and "compressor_of (buf ! 1) \<noteq> None"
  shows "rcl_getCombinedVector m = buf"
proof -
  have "fromFlatBuffer buf \<noteq> None" using assms(1) by simp
  then have len: "2 \<le> length buf" and len6: "\<And>cc. compressor_of (buf ! 1) = Some cc \<Longrightarrow> cc \<noteq> NONE \<Longrightarrow> 6 \<le> length buf"
    unfolding fromFlatBuffer_None_iff by (auto simp: not_less)
  from assms(2) obtain cc where cc: "compressor_of (buf ! 1) = Some cc" by blast
  from len obtain ch cmpr rest where buf: "buf = ch # cmpr # rest"
    by (cases buf; cases "tl buf") auto
  have cmpr: "cmpr = compressor_code cc" using cc by (simp add: buf)
  show ?thesis
  proof (cases "cc = NONE")
    case True
    then show ?thesis
      using assms(1) by (auto simp: buf cmpr rcl_getCombinedVector_def RclMessage_def)
  next
    case False
    then have "4 \<le> length rest" using len6 cc buf by simp
    then obtain b0 b1 b2 b3 body where "rest = b0 # b1 # b2 # b3 # body"
      using take4_conv by blast
    then show ?thesis
      using assms(1) False
      by (auto simp: buf cmpr rcl_getCombinedVector_def RclMessage_def le32_of_le32)
  qed
qed

section \<open>Transport of a payload\<close>

text \<open>
  What a receiver publishes for a parsed message: the payload itself, or the decompressed payload;
  \<open>None\<close> when the decompression fails and the message is dropped.
\<close>

definition received_payload :: "codecs \<Rightarrow> rcl_message \<Rightarrow> bytes option" where
  "received_payload c r =
     (if isCompressed r
      then (case decompress rcl_ops c r of
              Some (True, r') \<Rightarrow> Some (serialized r')
            | _ \<Rightarrow> None)
      else Some (serialized r))"

lemma received_payload_lz4:
  assumes ok: "lz4_ok c enc" and bound: "length out < 2 ^ 31"
    and cmpr: "cmpr = LZ4_DEFAULT \<or> cmpr = LZ4_HC"
    and out: "enc d (int (length d)) cap r = out" "out \<noteq> []"
    and max: "length d \<le> LZ4_MAX_SRC_SIZE"
  shows "received_payload c (RclMessage ch cmpr (word_of_nat (length d)) out) = Some d"
proof -
  let ?r = "RclMessage ch cmpr (word_of_nat (length d)) out"
  have "\<exists>m'. decompress rcl_ops c ?r = Some (True, m') \<and> True \<and> compressor m' = NONE
      \<and> getSrc rcl_ops m' = Some d \<and> channel m' = channel ?r"
    by (rule rcl.decompress_lz4_roundtrip [where src = out])
      (use cmpr bound max lz4_okD [OF ok out] in \<open>auto simp: RclMessage_def\<close>)
  then show ?thesis
    using cmpr by (auto simp: received_payload_def isCompressed_def RclMessage_def)
qed

lemma received_payload_zlib:
  assumes "codecs_ok c" and "compress2 c d cap r = Some out" and "length d \<le> ZLIB_MAX_SRC_SIZE"
  shows "received_payload c (RclMessage ch ZLIB (word_of_nat (length d)) out) = Some d"
proof -
  let ?r = "RclMessage ch ZLIB (word_of_nat (length d)) out"
  have "\<exists>m'. decompress rcl_ops c ?r = Some (True, m') \<and> True \<and> compressor m' = NONE
      \<and> getSrc rcl_ops m' = Some d \<and> channel m' = channel ?r"
    by (rule rcl.decompress_zlib_roundtrip [where src = out])
      (use assms(3) compress2D [OF assms(1,2)] in \<open>auto simp: RclMessage_def\<close>)
  then show ?thesis
    by (auto simp: received_payload_def isCompressed_def RclMessage_def)
qed

locale wire_message = message_data +
  assumes getCombinedVector_parses:
    "wf m \<Longrightarrow> \<not> isCompressed m \<Longrightarrow> getSrc ops m = Some d \<Longrightarrow>
     fromFlatBuffer (getCombinedVector ops m)
       = Some (RclMessage (channel m) NONE (word_of_nat (length d)) d)"
begin

lemma transfer_plain:
  assumes "wf m" and "\<not> isCompressed m" and "getSrc ops m = Some d"
  shows "\<exists>r. fromFlatBuffer (getCombinedVector ops m) = Some r \<and> channel r = channel m
    \<and> received_payload c r = Some d"
  using getCombinedVector_parses [OF assms]
  by (simp add: received_payload_def isCompressed_def RclMessage_def)

lemma transfer_lz4:
  assumes m: "wf m" "\<not> isCompressed m" "getSrc ops m = Some d"
    and ok: "lz4_ok c enc" and max: "length d \<le> LZ4_MAX_SRC_SIZE"
    and bound: "LZ4_compressBound c (int (length d)) < 2 ^ 31"
    and out: "enc d (int (length d)) (LZ4_compressBound c (int (length d))) r = out" "out \<noteq> []"
    and cmpr: "cmpr = LZ4_DEFAULT \<or> cmpr = LZ4_HC"
  shows "\<exists>frame r. compress_frame (channel m # compressor_code cmpr # le32 (word_of_nat (length d)))
      (nat (LZ4_compressBound c (int (length d)))) out = Some frame
    \<and> fromFlatBuffer frame = Some r \<and> channel r = channel m \<and> received_payload c r = Some d"
proof -
  have fits: "int (length out) \<le> LZ4_compressBound c (int (length d))"
    using lz4_okD [OF ok out] by blast
  with bound have "length out < 2 ^ 31" by simp
  then have "received_payload c (RclMessage (channel m) cmpr (word_of_nat (length d)) out) = Some d"
    by (rule received_payload_lz4 [OF ok _ cmpr out max])
  moreover have "length out \<le> nat (LZ4_compressBound c (int (length d)))"
    using fits by simp
  moreover have "cmpr \<noteq> NONE" using cmpr by auto
  ultimately show ?thesis
    by (auto simp: RclMessage_def)
qed

text \<open>
  Whatever the compression profile, the receiver parses the sent frame and publishes the payload
  that was sent, on the channel of the sender.
\<close>

lemma transfer:
  assumes m: "wf m" "\<not> isCompressed m" "getSrc ops m = Some d" and ok: "codecs_ok c"
  shows "\<exists>frame r. getCompressedCombinedVector ops (base_compress_ops ops) c m p = Some frame
    \<and> fromFlatBuffer frame = Some r \<and> channel r = channel m \<and> received_payload c r = Some d"
proof -
  note plain = transfer_plain [OF m, of c]
  have lz4: "lz4_ok c (LZ4_compress_fast c)" "lz4_ok c (LZ4_compress_HC c)"
    using ok by (auto simp: codecs_ok_def)
  have small: "sint (word_of_nat (length d) :: u32) = int (length d)"
    "LZ4_compressBound c (int (length d)) < 2 ^ 31" if "length d \<le> LZ4_MAX_SRC_SIZE"
    using that ok by (simp_all add: LZ4_MAX_SRC_SIZE_eq sint_word_of_nat_small codecs_ok_def)
  show ?thesis
  proof (cases "compressor_of_profile p")
    case NONE
    then show ?thesis using plain by (simp add: getCompressedCombinedVector_def)
  next
    case LZ4_DEFAULT
    then show ?thesis
      using plain small transfer_lz4 [OF m lz4(1), where cmpr = LZ4_DEFAULT]
      by (simp add: getCompressedCombinedVector_def base_compress_ops_def lz4DefaultCompression_def
          m(3) Let_def)
  next
    case LZ4_HC
    then show ?thesis
      using plain small transfer_lz4 [OF m lz4(2), where cmpr = LZ4_HC]
      by (simp add: getCompressedCombinedVector_def base_compress_ops_def lz4HCCompression_def
          m(3) Let_def)
  next
    case ZLIB
    show ?thesis
    proof (cases "length d > ZLIB_MAX_SRC_SIZE \<or> compress2 c d (compressBound c (length d)) (sint (rate p)) = None")
      case True
      with ZLIB plain show ?thesis
        by (auto simp: getCompressedCombinedVector_def base_compress_ops_def zlibCompression_def m(3))
    next
      case False
      then obtain out where out: "compress2 c d (compressBound c (length d)) (sint (rate p)) = Some out"
        and max: "length d \<le> ZLIB_MAX_SRC_SIZE" by auto
      from out have "length out \<le> compressBound c (length d)"
        using compress2D [OF ok] by blast
      with ZLIB out max received_payload_zlib [OF ok out max, of "channel m"] show ?thesis
        by (auto simp: getCompressedCombinedVector_def base_compress_ops_def zlibCompression_def m(3)
            RclMessage_def)
    qed
  qed
qed

end

text \<open>A received message that is forwarded again satisfies the same contract.\<close>

interpretation rcl_wire: wire_message rcl_ops "\<lambda>_. True" channel
  by unfold_locales (auto simp: isCompressed_def rcl_getCombinedVector_def)

end
