(* ===== verification/VectorMessage.thy ===== *)
theory VectorMessage
  imports RclMessage
begin

text \<open>
  \<^verbatim>\<open>src/message/vectorMessage.hpp\<close> and \<^verbatim>\<open>vectorMessage.cpp\<close>: the message that keeps its whole frame
  (header and payload) in one vector, and the constructors of the messages this program sends:
  topic data, subscription requests, authentication and notification texts.
  \<open>VectorMessage::toString\<close> reads the bytes of the vector object instead of its elements, so it is
  not a function of the message; no call of it exists and it is not modelled.
\<close>

section \<open>State and operations\<close>

record vector_message = message_base +
  combinedVector :: bytes

definition VectorMessage :: "byte \<Rightarrow> Compressor \<Rightarrow> u32 \<Rightarrow> bytes \<Rightarrow> vector_message" where
  "VectorMessage ch cmpr usize v =
     \<lparr>channel = ch, compressor = cmpr, uncompressedSize = usize, combinedVector = v\<rparr>"

definition fromSerializedMessage :: "byte \<Rightarrow> bytes \<Rightarrow> vector_message" where
  "fromSerializedMessage ch msg =
     (let v = (replicate (2 + length msg) 0)[0 := ch, 1 := compressor_code NONE];
          v = overwrite v 2 msg
      in VectorMessage ch NONE (word_of_nat (length v - 2)) v)"

definition forOpCodeSubscription :: "byte \<Rightarrow> bool \<Rightarrow> vector_message" where
  "forOpCodeSubscription ch value =
     VectorMessage (opcode SUBSCRIPTION) NONE 2
       [opcode SUBSCRIPTION, compressor_code NONE, ch, if value then 1 else 0]"

text \<open>
  The vector is created with room for one null byte behind the text, and \<open>push_back\<close> appends
  another one.
\<close>

definition forOpCodeAuthentication :: "string \<Rightarrow> vector_message" where
  "forOpCodeAuthentication value =
     (let v = (replicate (3 + length value) 0)[0 := opcode AUTHENTICATION, 1 := compressor_code NONE];
          v = overwrite v 2 (map byte_of_char value);
          v = v @ [0]
      in VectorMessage (opcode AUTHENTICATION) NONE (word_of_nat (length value + 1)) v)"

definition forOpCodeNotification :: "string \<Rightarrow> vector_message" where
  "forOpCodeNotification message =
     (let v = (replicate (3 + length message) 0)[0 := opcode NOTIFICATION, 1 := compressor_code NONE];
          v = overwrite v 2 (map byte_of_char message);
          v = v @ [0]
      in VectorMessage (opcode NOTIFICATION) NONE (word_of_nat (length message + 1)) v)"

definition vec_getSrc :: "vector_message \<Rightarrow> bytes option" where
  "vec_getSrc m =
     (if compressor m = NONE then suffix_from (combinedVector m) 2
      else suffix_from (combinedVector m) 6)"

definition vec_getSerializedMessage :: "vector_message \<Rightarrow> bytes option" where
  "vec_getSerializedMessage m =
     (if compressor m = NONE then suffix_from (combinedVector m) 2
      else suffix_from (combinedVector m) 6)"

definition vec_getCombinedVector :: "vector_message \<Rightarrow> bytes" where
  "vec_getCombinedVector m = combinedVector m"

definition vec_toSubscription :: "vector_message \<Rightarrow> (byte \<times> bool) option" where
  "vec_toSubscription m = do {
     bs \<leftarrow> slice (combinedVector m) 2 2;
     Some (bs ! 0, bs ! 1 = 1)
   }"

definition vec_store :: "vector_message \<Rightarrow> bytes \<Rightarrow> vector_message option" where
  "vec_store m data = do {
     let v = resize (2 + length data) (combinedVector m);
     let v = v[1 := compressor_code NONE];
     v \<leftarrow> blit v 2 data;
     Some (m\<lparr>combinedVector := v\<rparr>)
   }"

definition vector_ops :: "unit vector_message_ext data_ops" where
  "vector_ops = \<lparr>getSrc = vec_getSrc, getCombinedVector = vec_getCombinedVector,
     getSerializedMessage = vec_getSerializedMessage, store = vec_store\<rparr>"

section \<open>Well-formed frames\<close>

text \<open>The header of the stored frame agrees with the fields, and the frame holds its whole header.\<close>

definition vector_wf :: "vector_message \<Rightarrow> bool" where
  "vector_wf m \<longleftrightarrow>
     (\<exists>body. if compressor m = NONE
        then combinedVector m = channel m # compressor_code NONE # body
        else combinedVector m = channel m # compressor_code (compressor m) # body \<and> 4 \<le> length body)"

lemma overwrite_header [simp]:
  "length src = n \<Longrightarrow> overwrite (a # b # replicate n 0) 2 src = a # b # src"
  by (simp add: overwrite_def)

lemma fromSerializedMessage_eq:
  "fromSerializedMessage ch msg =
     VectorMessage ch NONE (word_of_nat (length msg)) (ch # 0 # msg)"
  by (simp add: fromSerializedMessage_def)

lemma text_vector:
  "overwrite ((replicate (3 + n) 0)[0 := a, 1 := b]) 2 s = a # b # s @ [0]" if "length s = n"
  using that by (simp add: overwrite_def numeral_eq_Suc flip: replicate_append_same)

lemma forOpCodeAuthentication_eq:
  "forOpCodeAuthentication value =
     VectorMessage (opcode AUTHENTICATION) NONE (word_of_nat (length value + 1))
       (opcode AUTHENTICATION # 0 # map byte_of_char value @ [0, 0])"
  unfolding forOpCodeAuthentication_def Let_def by (subst text_vector) simp_all

lemma forOpCodeNotification_eq:
  "forOpCodeNotification message =
     VectorMessage (opcode NOTIFICATION) NONE (word_of_nat (length message + 1))
       (opcode NOTIFICATION # 0 # map byte_of_char message @ [0, 0])"
  unfolding forOpCodeNotification_def Let_def by (subst text_vector) simp_all

lemma vector_wf_constructors [msg_intros]:
  "vector_wf (fromSerializedMessage ch msg)"
  "vector_wf (forOpCodeSubscription ch b)"
  "vector_wf (forOpCodeAuthentication s)"
  "vector_wf (forOpCodeNotification s)"
  by (simp_all add: vector_wf_def fromSerializedMessage_eq forOpCodeSubscription_def
      forOpCodeAuthentication_eq forOpCodeNotification_eq VectorMessage_def)

lemma vec_store_eq:
  "combinedVector m = a # b # body \<Longrightarrow>
   vec_store m data = Some (m\<lparr>combinedVector := a # 0 # data\<rparr>)"
  by (auto simp: vec_store_def blit_def overwrite_def resize_def take_Cons')

interpretation vec: wire_message vector_ops vector_wf channel
proof (unfold_locales, goal_cases)
  case (1 m)
  then show ?case
    by (auto simp: vector_wf_def vector_ops_def vec_getSrc_def suffix_from_def split: if_splits)
next
  case (2 m d)
  then show ?case
    by (auto simp: vector_wf_def vector_ops_def isCompressed_def vec_store_eq)
next
  case (3 m d m')
  then show ?case
    by (auto simp: vector_wf_def vector_ops_def isCompressed_def vec_store_eq vec_getSrc_def
        suffix_from_def)
next
  case (4 m d)
  then show ?case
    by (auto simp: vector_wf_def vector_ops_def isCompressed_def vec_getSrc_def suffix_from_def
        vec_getCombinedVector_def)
qed

text \<open>The frame of topic data under a compression profile, and what the peer makes of it.\<close>

lemma topic_frame:
  assumes "codecs_ok c"
  shows "\<exists>frame r. getCompressedCombinedVector vector_ops (base_compress_ops vector_ops) c
        (fromSerializedMessage ch msg) p = Some frame
    \<and> fromFlatBuffer frame = Some r \<and> channel r = ch \<and> received_payload c r = Some msg"
  using vec.transfer [OF vector_wf_constructors(1), of ch msg msg c p] assms
  by (simp add: fromSerializedMessage_eq VectorMessage_def vector_ops_def vec_getSrc_def
      isCompressed_def suffix_from_def)

end
