(* ===== verification/EnumParser.thy ===== *)
theory EnumParser
  imports Types
begin

text \<open>
  \<^verbatim>\<open>src/common/enumParser.hpp\<close>: the parsers from strings to the enumerations of compressors and of
  quality-of-service policies, and of inline \<open>rmw_time_t\<close> values. The regular expression of the
  latter is matched by a scanner, which is proved to accept exactly the language of the expression.
\<close>

section \<open>Enumerations\<close>

definition compressor_parse :: "string \<Rightarrow> Compressor throws" where
  "compressor_parse s =
     (if s = ''NONE'' then Inr NONE
      else if s = ''LZ4_DEFAULT'' then Inr LZ4_DEFAULT
      else if s = ''LZ4_HC'' then Inr LZ4_HC
      else if s = ''ZLIB'' then Inr ZLIB
      else Inl (''Not a compressor: '' @ quoted s))"

definition historyPolicy :: "string \<Rightarrow> rmw_history throws" where
  "historyPolicy s =
     (if s = ''RMW_QOS_POLICY_HISTORY_SYSTEM_DEFAULT'' then Inr HISTORY_SYSTEM_DEFAULT
      else if s = ''RMW_QOS_POLICY_HISTORY_KEEP_LAST'' then Inr HISTORY_KEEP_LAST
      else if s = ''RMW_QOS_POLICY_HISTORY_KEEP_ALL'' then Inr HISTORY_KEEP_ALL
      else Inl (''Not a history policy: '' @ quoted s))"

definition reliabilityPolicy :: "string \<Rightarrow> rmw_reliability throws" where
  "reliabilityPolicy s =
     (if s = ''RMW_QOS_POLICY_RELIABILITY_SYSTEM_DEFAULT'' then Inr RELIABILITY_SYSTEM_DEFAULT
      else if s = ''RMW_QOS_POLICY_RELIABILITY_RELIABLE'' then Inr RELIABILITY_RELIABLE
      else if s = ''RMW_QOS_POLICY_RELIABILITY_BEST_EFFORT'' then Inr RELIABILITY_BEST_EFFORT
      else Inl (''Not a reliability policy: '' @ quoted s))"

definition durabilityPolicy :: "string \<Rightarrow> rmw_durability throws" where
  "durabilityPolicy s =
     (if s = ''RMW_QOS_POLICY_DURABILITY_SYSTEM_DEFAULT'' then Inr DURABILITY_SYSTEM_DEFAULT
      else if s = ''RMW_QOS_POLICY_DURABILITY_TRANSIENT_LOCAL'' then Inr DURABILITY_TRANSIENT_LOCAL
      else if s = ''RMW_QOS_POLICY_DURABILITY_VOLATILE'' then Inr DURABILITY_VOLATILE
      else Inl (''Not a durability policy: '' @ quoted s))"

definition livelinessPolicy :: "string \<Rightarrow> rmw_liveliness throws" where
  "livelinessPolicy s =
     (if s = ''RMW_QOS_POLICY_LIVELINESS_SYSTEM_DEFAULT'' then Inr LIVELINESS_SYSTEM_DEFAULT
      else if s = ''RMW_QOS_POLICY_LIVELINESS_AUTOMATIC'' then Inr LIVELINESS_AUTOMATIC
      else if s = ''RMW_QOS_POLICY_LIVELINESS_MANUAL_BY_TOPIC'' then Inr LIVELINESS_MANUAL_BY_TOPIC
      else if s = ''RMW_QOS_POLICY_LIVELINESS_BEST_AVAILABLE'' then Inr LIVELINESS_BEST_AVAILABLE
      else Inl (''Not a liveliness policy: '' @ quoted s))"

section \<open>Inline times\<close>

definition is_space :: "char \<Rightarrow> bool" where
  "is_space c \<longleftrightarrow> c \<in> {CHR '' '', CHR 0x09, CHR 0x0A, CHR 0x0B, CHR 0x0C, CHR 0x0D}"

definition is_digit :: "char \<Rightarrow> bool" where
  "is_digit c \<longleftrightarrow> c \<in> set ''0123456789''"

definition is_u :: "char \<Rightarrow> bool" where
  "is_u c \<longleftrightarrow> c = CHR ''u'' \<or> c = CHR ''U''"

definition is_l :: "char \<Rightarrow> bool" where
  "is_l c \<longleftrightarrow> c = CHR ''l'' \<or> c = CHR ''L''"

definition expect :: "char \<Rightarrow> string \<Rightarrow> string option" where
  "expect c s = (case s of [] \<Rightarrow> None | x # xs \<Rightarrow> if x = c then Some xs else None)"

text \<open>The optional minus sign, and a number with its suffix and the white space behind it.\<close>

definition scan_sign :: "string \<Rightarrow> string \<times> string" where
  "scan_sign s = (case expect (CHR ''-'') s of Some r \<Rightarrow> (''-'', r) | None \<Rightarrow> ([], s))"

definition scan_number :: "string \<Rightarrow> (string \<times> string) option" where
  "scan_number s =
     (let ds = takeWhile is_digit s in
      if ds = [] then None
      else Some (ds, dropWhile is_space (dropWhile is_l (dropWhile is_u (dropWhile is_digit s)))))"

text \<open>\<open>std::regex_match\<close> with \<open>RMW_TIME_REGEX\<close>; the results are the two capture groups.\<close>

definition match_rmw_time :: "string \<Rightarrow> (string \<times> string) option" where
  "match_rmw_time s = do {
     s \<leftarrow> expect (CHR ''{'') s;
     let (sign, s) = scan_sign (dropWhile is_space s);
     (sec, s) \<leftarrow> scan_number s;
     s \<leftarrow> expect (CHR '','') s;
     (nsec, s) \<leftarrow> scan_number (dropWhile is_space s);
     s \<leftarrow> expect (CHR ''}'') s;
     if s = [] then Some (sign @ sec, nsec) else None
   }"

definition nat_of_digits :: "string \<Rightarrow> nat" where
  "nat_of_digits ds = foldl (\<lambda>n c. 10 * n + (of_char c - 48)) 0 ds"

text \<open>\<open>std::stoll\<close> and \<open>std::stoull\<close> on what the expression captures throw only \<open>out_of_range\<close>.\<close>

definition stoll :: "string \<Rightarrow> int throws" where
  "stoll s =
     (let v = (case expect (CHR ''-'') s of
                 Some r \<Rightarrow> - int (nat_of_digits r)
               | None \<Rightarrow> int (nat_of_digits s))
      in if - (2 ^ 63) \<le> v \<and> v < 2 ^ 63 then Inr v else Inl ''stoll'')"

definition stoull :: "string \<Rightarrow> u64 throws" where
  "stoull s =
     (let v = nat_of_digits s in if v < 2 ^ 64 then Inr (word_of_nat v) else Inl ''stoull'')"

definition parseRmwTime :: "string \<Rightarrow> string \<Rightarrow> rmw_time throws" where
  "parseRmwTime value policy =
     (case match_rmw_time value of
        Some (a, b) \<Rightarrow>
          bind_sum (stoll a) (\<lambda>sec. bind_sum (stoull b) (\<lambda>nsec.
            Inr (RMW_TIME (word_of_int sec) nsec)))
      | None \<Rightarrow> Inl (''Not a '' @ policy @ '' policy: '' @ quoted value))"

definition deadlinePolicy :: "string \<Rightarrow> rmw_time throws" where
  "deadlinePolicy s =
     (if s = ''RMW_QOS_DEADLINE_DEFAULT'' then Inr RMW_TIME_DEFAULT
      else if s = ''RMW_QOS_DEADLINE_BEST_AVAILABLE'' then Inr RMW_TIME_BEST_AVAILABLE
      else parseRmwTime s ''deadline'')"

definition lifespanPolicy :: "string \<Rightarrow> rmw_time throws" where
  "lifespanPolicy s =
     (if s = ''RMW_QOS_LIFESPAN_DEFAULT'' then Inr RMW_TIME_DEFAULT
      else parseRmwTime s ''lifespan'')"

definition livelinessLeaseDurationPolicy :: "string \<Rightarrow> rmw_time throws" where
  "livelinessLeaseDurationPolicy s =
     (if s = ''RMW_QOS_LIVELINESS_LEASE_DURATION_DEFAULT'' then Inr RMW_TIME_DEFAULT
      else if s = ''RMW_QOS_LIVELINESS_LEASE_DURATION_BEST_AVAILABLE'' then Inr RMW_TIME_BEST_AVAILABLE
      else parseRmwTime s ''livelinessLeaseDuration'')"

section \<open>The scanner accepts the language of the expression\<close>

lemma expect_Some_iff [simp]: "expect c s = Some r \<longleftrightarrow> s = c # r"
  by (auto simp: expect_def split: list.splits)

lemma expect_Cons [simp]: "expect c (x # r) = (if x = c then Some r else None)"
  by (simp add: expect_def)

text \<open>\<open>(\d+)(?:[uU]*[lL]*)?\s*\<close> as a set of strings.\<close>

definition number_text :: "string \<Rightarrow> string \<Rightarrow> bool" where
  "number_text ds t \<longleftrightarrow>
     ds \<noteq> [] \<and> list_all is_digit ds \<and>
     (\<exists>us ls ws. list_all is_u us \<and> list_all is_l ls \<and> list_all is_space ws \<and> t = ds @ us @ ls @ ws)"

text \<open>The classes of characters are disjoint.\<close>

lemma digit_not: "is_digit c \<Longrightarrow> \<not> is_u c \<and> \<not> is_l c \<and> \<not> is_space c \<and> c \<noteq> CHR ''-''"
  unfolding is_digit_def is_u_def is_l_def is_space_def by auto

lemma u_not: "is_u c \<Longrightarrow> \<not> is_digit c \<and> \<not> is_l c \<and> \<not> is_space c"
  unfolding is_digit_def is_u_def is_l_def is_space_def by auto

lemma l_not: "is_l c \<Longrightarrow> \<not> is_digit c \<and> \<not> is_u c \<and> \<not> is_space c"
  unfolding is_digit_def is_u_def is_l_def is_space_def by auto

lemma space_not: "is_space c \<Longrightarrow> \<not> is_digit c \<and> \<not> is_u c \<and> \<not> is_l c"
  unfolding is_digit_def is_u_def is_l_def is_space_def by auto

definition closes :: "char \<Rightarrow> bool" where
  "closes c \<longleftrightarrow> \<not> is_digit c \<and> \<not> is_u c \<and> \<not> is_l c \<and> \<not> is_space c"

lemma scan_number_complete:
  assumes "number_text ds t" and "closes c"
  shows "scan_number (t @ c # r) = Some (ds, c # r)"
proof -
  obtain us ls ws where ds: "ds \<noteq> []" "list_all is_digit ds" and us: "list_all is_u us"
    and ls: "list_all is_l ls" and ws: "list_all is_space ws" and t: "t = ds @ us @ ls @ ws"
    using assms(1) by (auto simp: number_text_def)
  have c: "\<not> is_digit c" "\<not> is_u c" "\<not> is_l c" "\<not> is_space c"
    using assms(2) by (auto simp: closes_def)
  have 1: "dropWhile is_space (ws @ c # r) = c # r"
    using ws c by (simp add: dropWhile_prefix)
  have 2: "stops is_l (ws @ c # r)" "stops is_u (ws @ c # r)" "stops is_digit (ws @ c # r)"
    using c space_not by (auto intro!: stops_append [OF ws])
  have 3: "stops is_u (ls @ ws @ c # r)" "stops is_digit (ls @ ws @ c # r)"
    using 2 l_not by (auto intro!: stops_append [OF ls])
  have 4: "stops is_digit (us @ ls @ ws @ c # r)"
    using 3 u_not by (auto intro!: stops_append [OF us])
  note 1 dropWhile_prefix [OF ls 2(1)] dropWhile_prefix [OF us 3(1)]
    dropWhile_prefix [OF ds(2) 4] takeWhile_prefix [OF ds(2) 4]
  then show ?thesis
    using ds(1) by (simp add: scan_number_def t Let_def)
qed

lemma scan_number_sound:
  assumes "scan_number s = Some (ds, r)"
  shows "\<exists>t. number_text ds t \<and> s = t @ r"
proof -
  define a where "a = dropWhile is_digit s"
  define b where "b = dropWhile is_u a"
  define d where "d = dropWhile is_l b"
  have "s = takeWhile is_digit s @ takeWhile is_u a @ takeWhile is_l b @ takeWhile is_space d @ dropWhile is_space d"
    by (simp add: a_def b_def d_def)
  moreover have "ds = takeWhile is_digit s" "ds \<noteq> []" "r = dropWhile is_space d"
    using assms by (auto simp: scan_number_def a_def b_def d_def Let_def split: if_splits)
  moreover have "number_text ds (ds @ takeWhile is_u a @ takeWhile is_l b @ takeWhile is_space d)"
    unfolding number_text_def
    using calculation(2,3) list_all_takeWhile by blast
  ultimately show ?thesis by (metis append_assoc)
qed

text \<open>The strings of \<open>\{\s*(-?\d+)(?:[uU]*[lL]*)?\s*,\s*(\d+)(?:[uU]*[lL]*)?\s*\}\<close> and their groups.\<close>

definition rmw_time_text :: "string \<Rightarrow> string \<Rightarrow> string \<Rightarrow> bool" where
  "rmw_time_text a b s \<longleftrightarrow>
     (\<exists>ws sign sec t ws' t'. list_all is_space ws \<and> sign \<in> {[], ''-''} \<and> a = sign @ sec
        \<and> number_text sec t \<and> list_all is_space ws' \<and> number_text b t'
        \<and> s = ''{'' @ ws @ sign @ t @ '','' @ ws' @ t' @ ''}'')"

lemma number_text_hd: "number_text ds t \<Longrightarrow> \<exists>c cs. t = c # cs \<and> is_digit c"
  by (cases ds) (auto simp: number_text_def)

lemma dropWhile_space_digit:
  "list_all is_space ws \<Longrightarrow> is_digit c \<Longrightarrow> dropWhile is_space (ws @ c # r) = c # r"
  using digit_not by (intro dropWhile_prefix) auto

lemma match_rmw_time_iff: "match_rmw_time s = Some (a, b) \<longleftrightarrow> rmw_time_text a b s"
proof
  assume "match_rmw_time s = Some (a, b)"
  then obtain s1 where s1: "s = CHR ''{'' # s1"
    by (auto simp: match_rmw_time_def bind_eq_Some_conv)
  obtain sign s2 where sg: "scan_sign (dropWhile is_space s1) = (sign, s2)" by fastforce
  from \<open>match_rmw_time s = Some (a, b)\<close> s1 sg obtain sec s3 nsec where s: "s = CHR ''{'' # s1"
    "scan_sign (dropWhile is_space s1) = (sign, s2)" "scan_number s2 = Some (sec, CHR '','' # s3)"
    "scan_number (dropWhile is_space s3) = Some (nsec, ''}'')" "a = sign @ sec" "b = nsec"
    by (auto simp: match_rmw_time_def bind_eq_Some_conv split: if_splits)
  obtain t where t: "number_text sec t" "s2 = t @ CHR '','' # s3"
    using scan_number_sound [OF s(3)] by blast
  obtain t' where t': "number_text nsec t'" "dropWhile is_space s3 = t' @ ''}''"
    using scan_number_sound [OF s(4)] by blast
  have "dropWhile is_space s1 = sign @ s2" "sign \<in> {[], ''-''}"
    using s(2) by (auto simp: scan_sign_def split: option.splits)
  then have "s1 = takeWhile is_space s1 @ sign @ t @ '','' @ s3"
    using t(2) by (metis append_Cons append_Nil takeWhile_dropWhile_id)
  moreover have "s3 = takeWhile is_space s3 @ t' @ ''}''"
    using t'(2) by (metis takeWhile_dropWhile_id)
  ultimately show "rmw_time_text a b s"
    using s t(1) t'(1) \<open>sign \<in> {[], ''-''}\<close>
    unfolding rmw_time_text_def
    by (metis append_Cons append_Nil append_assoc list_all_takeWhile)
next
  assume "rmw_time_text a b s"
  then obtain ws sign sec t ws' t' where ws: "list_all is_space ws" and sign: "sign \<in> {[], ''-''}"
    and a: "a = sign @ sec" and t: "number_text sec t" and ws': "list_all is_space ws'"
    and t': "number_text b t'" and s: "s = ''{'' @ ws @ sign @ t @ '','' @ ws' @ t' @ ''}''"
    unfolding rmw_time_text_def by blast
  obtain c cs where c: "t = c # cs" "is_digit c" using number_text_hd [OF t] by blast
  obtain d dcs where d: "t' = d # dcs" "is_digit d" using number_text_hd [OF t'] by blast
  have close: "closes (CHR '','')" "closes (CHR ''}'')"
    by (simp_all add: closes_def is_digit_def is_u_def is_l_def is_space_def)
  have n1: "scan_number (t @ CHR '','' # ws' @ t' @ ''}'') = Some (sec, CHR '','' # ws' @ t' @ ''}'')"
    by (rule scan_number_complete [OF t close(1)])
  have n2: "scan_number (t' @ [CHR ''}'']) = Some (b, ''}'')"
    by (rule scan_number_complete [OF t' close(2)])
  have sp: "dropWhile is_space (ws' @ t' @ ''}'') = t' @ ''}''"
    using dropWhile_space_digit [OF ws' d(2)] by (simp add: d)
  have "c \<noteq> CHR ''-''" using c(2) by (auto simp: is_digit_def)
  then have "scan_sign (dropWhile is_space (ws @ sign @ t @ CHR '','' # ws' @ t' @ ''}''))
      = (sign, t @ CHR '','' # ws' @ t' @ ''}'')"
    using sign dropWhile_space_digit [OF ws c(2)]
      dropWhile_prefix [OF ws, of "CHR ''-'' # t @ CHR '','' # ws' @ t' @ ''}''"]
    by (auto simp: scan_sign_def c(1) is_space_def expect_def)
  then show "match_rmw_time s = Some (a, b)"
    using n1 n2 sp by (simp add: match_rmw_time_def s a)
qed

section \<open>Values of inline times\<close>

text \<open>The seconds are read as a signed number and stored as \<open>uint64_t\<close>, so negative ones wrap.\<close>

lemma parseRmwTime_value:
  assumes "rmw_time_text (sign @ sec) nsec s" and "sign \<in> {[], ''-''}" and "list_all is_digit sec"
    and "sec \<noteq> []" and "nat_of_digits sec < 2 ^ 63" and "nat_of_digits nsec < 2 ^ 64"
  shows "parseRmwTime s policy =
    Inr (RMW_TIME (word_of_int ((if sign = [] then 1 else -1) * int (nat_of_digits sec)))
      (word_of_nat (nat_of_digits nsec)))"
proof -
  obtain c cs where "sec = c # cs" "c \<noteq> CHR ''-''"
    using assms(3,4) digit_not by (cases sec) auto
  then have "stoll (sign @ sec) = Inr ((if sign = [] then 1 else -1) * int (nat_of_digits sec))"
    using assms(2,5) by (auto simp: stoll_def)
  moreover have "match_rmw_time s = Some (sign @ sec, nsec)"
    using assms(1) match_rmw_time_iff by blast
  ultimately show ?thesis
    using assms(6) by (simp add: parseRmwTime_def stoull_def)
qed

lemma parseRmwTime_throws:
  "(\<nexists>a b. rmw_time_text a b s) \<Longrightarrow>
   parseRmwTime s policy = Inl (''Not a '' @ policy @ '' policy: '' @ quoted s)"
  using match_rmw_time_iff [of s] by (auto simp: parseRmwTime_def split: option.split)

end
