(* ===== verification/Config.thy ===== *)
theory Config
  imports EnumParser
begin

text \<open>
  The initialization of a node: \<^verbatim>\<open>src/connectBase.hpp\<close> and the global configuration of
  \<^verbatim>\<open>src/global/globalConfig.hpp\<close>. ROS parameters are read into \<open>GlobalConfig\<close>; quality-of-service
  definitions, compression profiles, topics, services and actions are JSON texts that are parsed,
  checked and tried out one after the other. Every \<open>throw\<close> and every early return is a branch; a
  failed initialization is \<open>Inl\<close> the reason that is passed to \<open>rclcpp::shutdown\<close>.
\<close>

section \<open>JSON values and the environment\<close>

text \<open>
  The values of boost::json the code distinguishes. A number is \<open>JInt\<close> when it is an \<open>int64\<close>;
  unsigned numbers beyond its range, doubles and arrays are \<open>JOther\<close>.
\<close>

datatype json =
    JNull | JBool bool | JInt int | JString string | JObject "(string \<times> json) list" | JOther

text \<open>
  What the node obtains from its libraries: the JSON parser, the trial creation of ROS entities and
  plugins (each may throw) and the constants of the compression headers.
\<close>

record env =
  json_parse :: "string \<Rightarrow> json throws"
  create_generic_subscription :: "Topic_t \<Rightarrow> unit throws"
  create_generic_publisher :: "Topic_t \<Rightarrow> unit throws"
  test_service_server :: "Service_Action_t \<Rightarrow> unit throws"
  test_service_client :: "Service_Action_t \<Rightarrow> unit throws"
  test_action_server :: "Service_Action_t \<Rightarrow> unit throws"
  test_action_client :: "Service_Action_t \<Rightarrow> unit throws"
  load_authentication :: "string \<Rightarrow> unit throws"
  get_domain_id :: "u64 option"
  LZ4HC_CLEVEL_MAX :: int
  Z_BEST_SPEED :: int
  Z_BEST_COMPRESSION :: int

text \<open>The ROS parameters of the node after declaration, with the types they are declared with.\<close>

record parameters =
  p_host :: string
  p_port :: string
  p_path :: string
  p_ssl :: bool
  p_authentication_host :: string
  p_authentication_port :: string
  p_authentication_ssl :: bool
  p_authentication_plugin :: string
  p_authentication_endpoint :: string
  p_authentication_omit :: bool
  p_authentication_timeout :: int
  p_fragmentation_enable :: bool
  p_fragmentation_size :: int
  p_max_message_size :: int
  p_publish_status :: bool
  p_user_key :: string
  p_clock_subscribe :: bool
  p_clock_publish :: bool
  p_tf_subscribe :: bool
  p_tf_publish :: bool
  p_subscriber :: "string list"
  p_publisher :: "string list"
  p_service_server :: "string list"
  p_service_client :: "string list"
  p_action_server :: "string list"
  p_action_client :: "string list"
  p_qos :: "string list"
  p_compression :: "string list"

section \<open>The global configuration\<close>

record GlobalConfig =
  nodeName :: string
  nodeNamespace :: string
  nodeDomainId :: u64
  gc_host :: string
  gc_path :: string
  gc_port :: string
  gc_ssl :: bool
  authenticationHost :: string
  authenticationPort :: string
  authenticationSsl :: bool
  authenticationPlugin :: string
  authenticationEndpoint :: string
  authenticationOmit :: bool
  authenticationTimeout :: "16 word"
  fragmentation :: bool
  fragmentationSize :: u64
  maxMessageSize :: u64
  gc_publishStatus :: bool
  userKey :: string
  subscribeClock :: bool
  publishClock :: bool
  subscribeTf :: bool
  publishTf :: bool
  gc_qos :: "byte \<Rightarrow> rmw_qos_profile option"
  gc_compression :: "byte \<Rightarrow> compression_t option"
  gc_subscriber :: "Topic_t list"
  gc_publisher :: "Topic_t list"
  gc_serviceServer :: "Service_Action_t list"
  gc_serviceClient :: "Service_Action_t list"
  gc_actionServer :: "Service_Action_t list"
  gc_actionClient :: "Service_Action_t list"

definition initial_config :: GlobalConfig where
  "initial_config =
     \<lparr>nodeName = [], nodeNamespace = [], nodeDomainId = 0, gc_host = [], gc_path = [], gc_port = [],
      gc_ssl = False, authenticationHost = [], authenticationPort = [], authenticationSsl = False,
      authenticationPlugin = [], authenticationEndpoint = [], authenticationOmit = False,
      authenticationTimeout = 10, fragmentation = True, fragmentationSize = 4096,
      maxMessageSize = 16 * 1024 * 1024, gc_publishStatus = False, userKey = [],
      subscribeClock = False, publishClock = False, subscribeTf = False, publishTf = False,
      gc_qos = (\<lambda>_. None), gc_compression = (\<lambda>_. None), gc_subscriber = [], gc_publisher = [],
      gc_serviceServer = [], gc_serviceClient = [], gc_actionServer = [], gc_actionClient = []\<rparr>"

text \<open>
  \<open>get_parameter\<close> into a variable of an integer type converts the 64-bit parameter to that type:
  \<open>uint16_t\<close> for the timeout, \<open>size_t\<close> for the sizes.
\<close>

definition retrieve_parameters :: "parameters \<Rightarrow> GlobalConfig \<Rightarrow> GlobalConfig" where
  "retrieve_parameters p cfg = cfg
     \<lparr>gc_host := p_host p, gc_port := p_port p, gc_path := p_path p, gc_ssl := p_ssl p,
      authenticationHost := p_authentication_host p, authenticationPort := p_authentication_port p,
      authenticationSsl := p_authentication_ssl p, authenticationPlugin := p_authentication_plugin p,
      authenticationEndpoint := p_authentication_endpoint p,
      authenticationOmit := p_authentication_omit p,
      authenticationTimeout := word_of_int (p_authentication_timeout p),
      fragmentation := p_fragmentation_enable p,
      fragmentationSize := word_of_int (p_fragmentation_size p),
      maxMessageSize := word_of_int (p_max_message_size p),
      gc_publishStatus := p_publish_status p, userKey := p_user_key p,
      subscribeClock := p_clock_subscribe p, publishClock := p_clock_publish p,
      subscribeTf := p_tf_subscribe p, publishTf := p_tf_publish p\<rparr>"

section \<open>Reading JSON members\<close>

text \<open>\<open>json[key]\<close> inserts a null member when the key is missing, so a missing member reads as null.\<close>

definition jget :: "(string \<times> json) list \<Rightarrow> string \<Rightarrow> json" where
  "jget obj key = (case map_of obj key of Some v \<Rightarrow> v | None \<Rightarrow> JNull)"

definition need_object :: "json \<Rightarrow> string \<Rightarrow> (string \<times> json) list throws" where
  "need_object v msg = (case v of JObject obj \<Rightarrow> Inr obj | _ \<Rightarrow> Inl msg)"

definition need_int :: "(string \<times> json) list \<Rightarrow> string \<Rightarrow> string \<Rightarrow> int throws" where
  "need_int obj key what =
     (case jget obj key of JInt i \<Rightarrow> Inr i
      | _ \<Rightarrow> Inl (what @ '' does not hold '' @ quoted key @ '' as int''))"

definition need_string :: "(string \<times> json) list \<Rightarrow> string \<Rightarrow> string \<Rightarrow> string throws" where
  "need_string obj key what =
     (case jget obj key of JString s \<Rightarrow> Inr s
      | _ \<Rightarrow> Inl (what @ '' does not hold '' @ quoted key @ '' as string''))"

definition need_bool :: "(string \<times> json) list \<Rightarrow> string \<Rightarrow> string \<Rightarrow> bool throws" where
  "need_bool obj key what =
     (case jget obj key of JBool b \<Rightarrow> Inr b
      | _ \<Rightarrow> Inl (what @ '' does not hold '' @ quoted key @ '' as bool''))"

text \<open>An optional string member with a parser and a default.\<close>

definition optional_policy ::
    "(string \<times> json) list \<Rightarrow> string \<Rightarrow> (string \<Rightarrow> 'a throws) \<Rightarrow> 'a \<Rightarrow> 'a throws" where
  "optional_policy obj key parser dflt =
     (case map_of obj key of
        Some (JString s) \<Rightarrow> parser s
      | Some _ \<Rightarrow> Inl (''QoS Definition does not hold '' @ quoted key @ '' as string'')
      | None \<Rightarrow> Inr dflt)"

text \<open>
  \<open>find(*val)\<close> on a map whose keys are \<open>uint8_t\<close>: the 64-bit number is converted to a byte before
  the lookup.
\<close>

definition find_profile ::
    "(byte \<Rightarrow> 'a option) \<Rightarrow> (string \<times> json) list \<Rightarrow> string \<Rightarrow> string \<Rightarrow> 'a throws" where
  "find_profile profiles obj key what =
     (case jget obj key of
        JInt i \<Rightarrow> (case profiles (word_of_int i) of
          Some q \<Rightarrow> Inr q
        | None \<Rightarrow> Inl (what @ '' holds unknown '' @ quoted key @ '' id''))
      | _ \<Rightarrow> Inl (what @ '' holds unknown '' @ quoted key @ '' id''))"

text \<open>\<open>std::map::insert\<close> keeps the element of a key that is already present.\<close>

definition map_insert :: "byte \<Rightarrow> 'a \<Rightarrow> (byte \<Rightarrow> 'a option) \<Rightarrow> byte \<Rightarrow> 'a option" where
  "map_insert k v mp = (case mp k of None \<Rightarrow> mp(k := Some v) | Some _ \<Rightarrow> mp)"

text \<open>A thrown exception is caught, logged and turned into the reason of the shutdown.\<close>

definition caught :: "string \<Rightarrow> 'a throws \<Rightarrow> 'a throws" where
  "caught reason x = (case x of Inl _ \<Rightarrow> Inl reason | Inr v \<Rightarrow> Inr v)"

lemma caught_Inr_iff [simp]: "caught r x = Inr v \<longleftrightarrow> x = Inr v"
  by (cases x) (simp_all add: caught_def)

text \<open>The loop over the texts of one parameter.\<close>

primrec for_each :: "('s \<Rightarrow> string \<Rightarrow> 's throws) \<Rightarrow> string list \<Rightarrow> 's \<Rightarrow> 's throws" where
  "for_each f [] st = Inr st"
| "for_each f (x # xs) st = bind_sum (f st x) (for_each f xs)"

lemma for_each_invariant:
  assumes "for_each f xs st = Inr st'" and "P st"
    and "\<And>s x s'. P s \<Longrightarrow> f s x = Inr s' \<Longrightarrow> P s'"
  shows "P st'"
  using assms(1,2)
  by (induction xs arbitrary: st) (auto dest: assms(3))

section \<open>Quality-of-service definitions and compression profiles\<close>

text \<open>The checks of an identifier: it fits into a byte and no earlier entry holds it.\<close>

definition id_checks :: "byte list \<Rightarrow> int \<Rightarrow> string \<Rightarrow> string \<Rightarrow> (bool \<times> string) list" where
  "id_checks known i what plural =
     [(i < 0 \<or> i > 255, what @ '' does not hold '' @ quoted ''id'' @ '' as uint8_t''),
      (list_ex (\<lambda>val. uint val = i) known,
       ''There are at least two '' @ plural @ '' which hold the same '' @ quoted ''id'')]"

definition parse_qos :: "env \<Rightarrow> byte list \<Rightarrow> string \<Rightarrow> (byte \<times> rmw_qos_profile) throws" where
  "parse_qos env known text =
     (let what = ''QoS Definition'' in
      bind_sum (json_parse env text) (\<lambda>v.
      bind_sum (need_object v (what @ '' is not a JSON object'')) (\<lambda>json.
      bind_sum (need_int json ''id'' what) (\<lambda>id.
      bind_sum (need_string json ''history'' what) (\<lambda>history_text.
      bind_sum (need_int json ''depth'' what) (\<lambda>depth_int.
      bind_sum (need_string json ''reliability'' what) (\<lambda>reliability_text.
      bind_sum (need_string json ''durability'' what) (\<lambda>durability_text.
      bind_sum (historyPolicy history_text) (\<lambda>hist.
      let dpth = (word_of_int depth_int :: u64) in
      bind_sum (reliabilityPolicy reliability_text) (\<lambda>rel.
      bind_sum (durabilityPolicy durability_text) (\<lambda>dur.
      throw_first [(dpth < 1, what @ '' holds '' @ quoted ''depth'' @ '' smaller than 1'')] (
      bind_sum (optional_policy json ''deadline'' deadlinePolicy RMW_TIME_DEFAULT) (\<lambda>dl.
      bind_sum (optional_policy json ''lifespan'' lifespanPolicy RMW_TIME_DEFAULT) (\<lambda>ls.
      bind_sum (optional_policy json ''liveliness'' livelinessPolicy LIVELINESS_SYSTEM_DEFAULT) (\<lambda>lv.
      bind_sum (optional_policy json ''liveliness_lease_duration'' livelinessLeaseDurationPolicy
                  RMW_TIME_DEFAULT) (\<lambda>lld.
      throw_first (id_checks known id what ''QoS definitions'') (
      Inr (word_of_int id,
           \<lparr>history = hist, depth = dpth, reliability = rel, durability = dur, deadline = dl,
            lifespan = ls, liveliness = lv, liveliness_lease_duration = lld,
            avoid_ros_namespace_conventions = False\<rparr>))))))))))))))))))"

definition add_qos :: "env \<Rightarrow> byte list \<times> GlobalConfig \<Rightarrow> string \<Rightarrow> (byte list \<times> GlobalConfig) throws" where
  "add_qos env st text =
     (case st of (known, cfg) \<Rightarrow>
      bind_sum (caught ''QoS Definitions are not well formatted'' (parse_qos env known text)) (\<lambda>(id, profile).
      Inr (known @ [id], cfg\<lparr>gc_qos := map_insert id profile (gc_qos cfg)\<rparr>)))"

text \<open>The rates a compressor accepts.\<close>

definition rate_out_of_range :: "env \<Rightarrow> Compressor \<Rightarrow> int \<Rightarrow> bool" where
  "rate_out_of_range env c r \<longleftrightarrow>
     (c = LZ4_DEFAULT \<and> (r < 1 \<or> r > 65537))
     \<or> (c = LZ4_HC \<and> (r < 1 \<or> r > LZ4HC_CLEVEL_MAX env))
     \<or> (c = ZLIB \<and> (r < Z_BEST_SPEED env \<or> r > Z_BEST_COMPRESSION env))
     \<or> (r < 0 \<or> r > 2 ^ 32 - 1)"

definition parse_compression :: "env \<Rightarrow> byte list \<Rightarrow> string \<Rightarrow> (byte \<times> compression_t) throws" where
  "parse_compression env known text =
     (let what = ''Compression Profile'' in
      bind_sum (json_parse env text) (\<lambda>v.
      bind_sum (need_object v (what @ '' is not a JSON object'')) (\<lambda>json.
      bind_sum (need_int json ''id'' what) (\<lambda>id.
      bind_sum (need_string json ''compressor'' what) (\<lambda>compressor_text.
      bind_sum (need_int json ''rate'' what) (\<lambda>rate_int.
      bind_sum (compressor_parse compressor_text) (\<lambda>c.
      throw_first [(rate_out_of_range env c rate_int,
                    what @ '' does hold '' @ quoted ''rate'' @ '' out of range'')] (
      throw_first (id_checks known id what ''Compression Profiles'') (
      Inr (word_of_int id, \<lparr>compressor_of_profile = c, rate = word_of_int rate_int\<rparr>))))))))))"

definition add_compression ::
    "env \<Rightarrow> byte list \<times> GlobalConfig \<Rightarrow> string \<Rightarrow> (byte list \<times> GlobalConfig) throws" where
  "add_compression env st text =
     (case st of (known, cfg) \<Rightarrow>
      bind_sum (caught ''Compression Profiles are not well formatted'' (parse_compression env known text))
        (\<lambda>(id, profile).
      Inr (known @ [id], cfg\<lparr>gc_compression := map_insert id profile (gc_compression cfg)\<rparr>)))"

section \<open>Topics\<close>

text \<open>A topic that only the parameters \<open>tf/...\<close> and \<open>clock/...\<close> create.\<close>

definition predefined_topic_checks :: "string \<Rightarrow> string \<Rightarrow> string \<Rightarrow> (bool \<times> string) list" where
  "predefined_topic_checks topic what verb =
     (let msg = (\<lambda>t param. what @ '' for topic '' @ quoted t
           @ '' cannot be created manually. Use parameter '' @ quoted (param @ verb))
      in [(topic = ''/tf'', msg ''/tf'' ''tf/''), (topic = ''/tf_static'', msg ''/tf_static'' ''tf/''),
          (topic = ''/clock'', msg ''/clock'' ''clock/'')])"

definition channel_range_check :: "int \<Rightarrow> string \<Rightarrow> (bool \<times> string) list" where
  "channel_range_check ch what =
     [(ch < 0 \<or> ch > 255, what @ '' does not hold '' @ quoted ''channel'' @ '' as uint8_t'')]"

definition reserved_channel_check :: "int \<Rightarrow> string \<Rightarrow> (bool \<times> string) list" where
  "reserved_channel_check ch what =
     [(ch \<ge> uint OP_CODE_MIN \<and> ch \<le> 255, what @ '' does hold a reserved '' @ quoted ''channel'')]"

definition known_channel_check :: "byte list \<Rightarrow> int \<Rightarrow> string \<Rightarrow> (bool \<times> string) list" where
  "known_channel_check known ch plural =
     [(list_ex (\<lambda>val. uint val = ch) known,
       ''There are at least two '' @ plural @ '' which hold the same '' @ quoted ''channel'')]"

definition parse_subscriber :: "env \<Rightarrow> byte list \<Rightarrow> GlobalConfig \<Rightarrow> string \<Rightarrow> Topic_t throws" where
  "parse_subscriber env known cfg text =
     (let what = ''Subscriber'' in
      bind_sum (json_parse env text) (\<lambda>v.
      bind_sum (need_object v (what @ '' is not a JSON object'')) (\<lambda>json.
      bind_sum (need_int json ''channel'' what) (\<lambda>ch.
      bind_sum (need_string json ''topic'' what) (\<lambda>topic.
      bind_sum (need_string json ''type'' what) (\<lambda>type.
      bind_sum (need_bool json ''useOwnThread'' what) (\<lambda>own.
      bind_sum (need_bool json ''permanent'' what) (\<lambda>permanent.
      bind_sum (need_int json ''qos'' what) (\<lambda>_.
      bind_sum (need_int json ''compression'' what) (\<lambda>_.
      throw_first (predefined_topic_checks topic what ''subscribe'') (
      bind_sum (find_profile (gc_qos cfg) json ''qos'' what) (\<lambda>q.
      bind_sum (find_profile (gc_compression cfg) json ''compression'' what) (\<lambda>c.
      throw_first [(compressor_of_profile c \<noteq> NONE \<and> \<not> own, what @ '' uses compression but not own thread'')] (
      throw_first (channel_range_check ch what @ reserved_channel_check ch what
                   @ known_channel_check known ch ''subscribers'') (
      Inr \<lparr>tp_channel = word_of_int ch, tp_topic = topic, tp_type = type, tp_useOwnThread = own,
           tp_permanent = permanent, tp_qos = Some q, tp_compression = c\<rparr>)))))))))))))))"

definition add_subscriber ::
    "env \<Rightarrow> byte list \<times> GlobalConfig \<Rightarrow> string \<Rightarrow> (byte list \<times> GlobalConfig) throws" where
  "add_subscriber env st text =
     (case st of (known, cfg) \<Rightarrow>
      bind_sum (caught ''Subscribers are not well formatted'' (parse_subscriber env known cfg text)) (\<lambda>topic.
      bind_sum (caught ''Subscribers cannot be created'' (create_generic_subscription env topic)) (\<lambda>_.
      Inr (known @ [tp_channel topic], cfg\<lparr>gc_subscriber := gc_subscriber cfg @ [topic]\<rparr>))))"

definition parse_publisher :: "env \<Rightarrow> byte list \<Rightarrow> GlobalConfig \<Rightarrow> string \<Rightarrow> Topic_t throws" where
  "parse_publisher env known cfg text =
     (let what = ''Publisher'' in
      bind_sum (json_parse env text) (\<lambda>v.
      bind_sum (need_object v (what @ '' is not a JSON object'')) (\<lambda>json.
      bind_sum (need_int json ''channel'' what) (\<lambda>ch.
      bind_sum (need_string json ''topic'' what) (\<lambda>topic.
      bind_sum (need_string json ''type'' what) (\<lambda>type.
      bind_sum (need_bool json ''useOwnThread'' what) (\<lambda>own.
      bind_sum (need_int json ''qos'' what) (\<lambda>_.
      throw_first (predefined_topic_checks topic what ''publish'') (
      bind_sum (find_profile (gc_qos cfg) json ''qos'' what) (\<lambda>q.
      throw_first (channel_range_check ch what @ reserved_channel_check ch what
                   @ known_channel_check known ch ''publisher''
                   @ [(list_ex (\<lambda>sub. uint (tp_channel sub) = ch) (gc_subscriber cfg),
                       ''There is a publisher and subscriber which hold both the same ''
                       @ quoted ''channel'')]) (
      Inr \<lparr>tp_channel = word_of_int ch, tp_topic = topic, tp_type = type, tp_useOwnThread = own,
           tp_permanent = True, tp_qos = Some q, tp_compression = DEFAULT_COMPRESSION_PROFILE\<rparr>)))))))))))"

definition add_publisher ::
    "env \<Rightarrow> byte list \<times> GlobalConfig \<Rightarrow> string \<Rightarrow> (byte list \<times> GlobalConfig) throws" where
  "add_publisher env st text =
     (case st of (known, cfg) \<Rightarrow>
      bind_sum (caught ''Publishers are not well formatted'' (parse_publisher env known cfg text)) (\<lambda>topic.
      bind_sum (caught ''Publishers cannot be created'' (create_generic_publisher env topic)) (\<lambda>_.
      Inr (known @ [tp_channel topic], cfg\<lparr>gc_publisher := gc_publisher cfg @ [topic]\<rparr>))))"

section \<open>Services and actions\<close>

definition parse_service_server :: "env \<Rightarrow> byte list \<Rightarrow> GlobalConfig \<Rightarrow> string \<Rightarrow> Service_Action_t throws" where
  "parse_service_server env known cfg text =
     (let what = ''Service Server'' in
      bind_sum (json_parse env text) (\<lambda>v.
      bind_sum (need_object v (what @ '' is not a JSON object'')) (\<lambda>json.
      bind_sum (need_int json ''channel'' what) (\<lambda>ch.
      bind_sum (need_string json ''type'' what) (\<lambda>type.
      bind_sum (need_int json ''maxExecTime'' what) (\<lambda>maxExecTime.
      bind_sum (need_bool json ''useOwnThread'' what) (\<lambda>own.
      bind_sum (need_bool json ''allowSimultaneous'' what) (\<lambda>simultaneous.
      throw_first [(simultaneous \<and> \<not> own,
                    what @ '' defines simultaneous execution but not usage of own thread'')] (
      bind_sum (find_profile (gc_qos cfg) json ''service-qos'' what) (\<lambda>q.
      bind_sum (find_profile (gc_compression cfg) json ''compression'' what) (\<lambda>c.
      throw_first [(compressor_of_profile c \<noteq> NONE \<and> \<not> own, what @ '' uses compression but not own thread'')] (
      throw_first [(maxExecTime < 0 \<or> maxExecTime > 2 ^ 32 - 1,
                    what @ '' does not hold '' @ quoted ''maxExecTime'' @ '' as uint32_t'')] (
      throw_first (channel_range_check ch what @ known_channel_check known ch ''service server'') (
      Inr \<lparr>sa_def_channel = word_of_int ch, sa_def_type = type, sa_useOwnThread = own,
           sa_allowSimultaneous = simultaneous, sa_serviceQos = q, sa_feedbackQos = q,
           sa_statusQos = q, sa_resultTimeout = 0, sa_maxExecTime = word_of_int maxExecTime,
           sa_compression = c\<rparr>))))))))))))))"

definition add_service_server ::
    "env \<Rightarrow> byte list \<times> GlobalConfig \<Rightarrow> string \<Rightarrow> (byte list \<times> GlobalConfig) throws" where
  "add_service_server env st text =
     (case st of (known, cfg) \<Rightarrow>
      bind_sum (caught ''Service Server is not well formatted'' (parse_service_server env known cfg text)) (\<lambda>entity.
      bind_sum (caught ''Service Servers cannot be created'' (test_service_server env entity)) (\<lambda>_.
      Inr (known @ [sa_def_channel entity], cfg\<lparr>gc_serviceServer := gc_serviceServer cfg @ [entity]\<rparr>))))"

definition parse_service_client :: "env \<Rightarrow> byte list \<Rightarrow> GlobalConfig \<Rightarrow> string \<Rightarrow> Service_Action_t throws" where
  "parse_service_client env known cfg text =
     (let what = ''Service Client'' in
      bind_sum (json_parse env text) (\<lambda>v.
      bind_sum (need_object v (what @ '' is not a JSON object'')) (\<lambda>json.
      bind_sum (need_int json ''channel'' what) (\<lambda>ch.
      bind_sum (need_string json ''type'' what) (\<lambda>type.
      bind_sum (need_bool json ''useOwnThread'' what) (\<lambda>own.
      bind_sum (need_bool json ''allowSimultaneous'' what) (\<lambda>simultaneous.
      throw_first [(simultaneous \<and> \<not> own,
                    what @ '' defines simultaneous execution but not usage of own thread'')] (
      bind_sum (find_profile (gc_qos cfg) json ''service-qos'' what) (\<lambda>q.
      bind_sum (find_profile (gc_compression cfg) json ''compression'' what) (\<lambda>c.
      throw_first [(compressor_of_profile c \<noteq> NONE \<and> \<not> own, what @ '' uses compression but not own thread'')] (
      throw_first (channel_range_check ch what @ known_channel_check known ch ''service clients''
                   @ [(list_ex (\<lambda>server. uint (sa_def_channel server) = ch) (gc_serviceServer cfg),
                       ''There is a service client and server which hold both the same '' @ quoted ''channel'')]) (
      Inr \<lparr>sa_def_channel = word_of_int ch, sa_def_type = type, sa_useOwnThread = own,
           sa_allowSimultaneous = simultaneous, sa_serviceQos = q, sa_feedbackQos = q,
           sa_statusQos = q, sa_resultTimeout = 0, sa_maxExecTime = 0,
           sa_compression = c\<rparr>))))))))))))"

definition add_service_client ::
    "env \<Rightarrow> byte list \<times> GlobalConfig \<Rightarrow> string \<Rightarrow> (byte list \<times> GlobalConfig) throws" where
  "add_service_client env st text =
     (case st of (known, cfg) \<Rightarrow>
      bind_sum (caught ''Service Client is not well formatted'' (parse_service_client env known cfg text)) (\<lambda>entity.
      bind_sum (caught ''Service Clients cannot be created'' (test_service_client env entity)) (\<lambda>_.
      Inr (known @ [sa_def_channel entity], cfg\<lparr>gc_serviceClient := gc_serviceClient cfg @ [entity]\<rparr>))))"

definition parse_action_server :: "env \<Rightarrow> byte list \<Rightarrow> GlobalConfig \<Rightarrow> string \<Rightarrow> Service_Action_t throws" where
  "parse_action_server env known cfg text =
     (let what = ''Action Server'' in
      bind_sum (json_parse env text) (\<lambda>v.
      bind_sum (need_object v (what @ '' is not a JSON object'')) (\<lambda>json.
      bind_sum (need_int json ''channel'' what) (\<lambda>ch.
      bind_sum (need_string json ''type'' what) (\<lambda>type.
      bind_sum (need_int json ''resultTimeout'' what) (\<lambda>resultTimeout.
      bind_sum (need_bool json ''useOwnThread'' what) (\<lambda>own.
      bind_sum (need_bool json ''allowSimultaneous'' what) (\<lambda>simultaneous.
      throw_first [(simultaneous \<and> \<not> own,
                    what @ '' defines simultaneous execution but not usage of own thread'')] (
      bind_sum (find_profile (gc_qos cfg) json ''service-qos'' what) (\<lambda>q.
      bind_sum (find_profile (gc_qos cfg) json ''feedback-qos'' what) (\<lambda>fq.
      bind_sum (find_profile (gc_qos cfg) json ''status-qos'' what) (\<lambda>sq.
      bind_sum (find_profile (gc_compression cfg) json ''compression'' what) (\<lambda>c.
      throw_first [(compressor_of_profile c \<noteq> NONE \<and> \<not> own, what @ '' uses compression but not own thread'')] (
      throw_first [(resultTimeout < - (2 ^ 31) \<or> resultTimeout > 2 ^ 31 - 1,
                    what @ '' does not hold '' @ quoted ''resultTimeout'' @ '' as int32_t'')] (
      throw_first (channel_range_check ch what @ known_channel_check known ch ''action server'') (
      Inr \<lparr>sa_def_channel = word_of_int ch, sa_def_type = type, sa_useOwnThread = own,
           sa_allowSimultaneous = simultaneous, sa_serviceQos = q, sa_feedbackQos = fq,
           sa_statusQos = sq, sa_resultTimeout = word_of_int resultTimeout, sa_maxExecTime = 0,
           sa_compression = c\<rparr>))))))))))))))))"

definition add_action_server ::
    "env \<Rightarrow> byte list \<times> GlobalConfig \<Rightarrow> string \<Rightarrow> (byte list \<times> GlobalConfig) throws" where
  "add_action_server env st text =
     (case st of (known, cfg) \<Rightarrow>
      bind_sum (caught ''Action Server is not well formatted'' (parse_action_server env known cfg text)) (\<lambda>entity.
      bind_sum (caught ''Action Servers cannot be created'' (test_action_server env entity)) (\<lambda>_.
      Inr (known @ [sa_def_channel entity], cfg\<lparr>gc_actionServer := gc_actionServer cfg @ [entity]\<rparr>))))"

definition parse_action_client :: "env \<Rightarrow> byte list \<Rightarrow> GlobalConfig \<Rightarrow> string \<Rightarrow> Service_Action_t throws" where
  "parse_action_client env known cfg text =
     (let what = ''Action Client'' in
      bind_sum (json_parse env text) (\<lambda>v.
      bind_sum (need_object v (what @ '' is not a JSON object'')) (\<lambda>json.
      bind_sum (need_int json ''channel'' what) (\<lambda>ch.
      bind_sum (need_string json ''type'' what) (\<lambda>type.
      bind_sum (need_bool json ''useOwnThread'' what) (\<lambda>own.
      bind_sum (need_bool json ''allowSimultaneous'' what) (\<lambda>simultaneous.
      throw_first [(simultaneous \<and> \<not> own,
                    what @ '' defines simultaneous execution but not usage of own thread'')] (
      bind_sum (find_profile (gc_qos cfg) json ''service-qos'' what) (\<lambda>q.
      bind_sum (find_profile (gc_qos cfg) json ''feedback-qos'' what) (\<lambda>fq.
      bind_sum (find_profile (gc_qos cfg) json ''status-qos'' what) (\<lambda>sq.
      bind_sum (find_profile (gc_compression cfg) json ''compression'' what) (\<lambda>c.
      throw_first [(compressor_of_profile c \<noteq> NONE \<and> \<not> own, what @ '' uses compression but not own thread'')] (
      throw_first (channel_range_check ch what @ known_channel_check known ch ''action clients''
                   @ [(list_ex (\<lambda>server. uint (sa_def_channel server) = ch) (gc_actionServer cfg),
                       ''There is a action client and server which hold both the same '' @ quoted ''channel'')]) (
      Inr \<lparr>sa_def_channel = word_of_int ch, sa_def_type = type, sa_useOwnThread = own,
           sa_allowSimultaneous = simultaneous, sa_serviceQos = q, sa_feedbackQos = fq,
           sa_statusQos = sq, sa_resultTimeout = 0, sa_maxExecTime = 0,
           sa_compression = c\<rparr>))))))))))))))"

definition add_action_client ::
    "env \<Rightarrow> byte list \<times> GlobalConfig \<Rightarrow> string \<Rightarrow> (byte list \<times> GlobalConfig) throws" where
  "add_action_client env st text =
     (case st of (known, cfg) \<Rightarrow>
      bind_sum (caught ''Action Client is not well formatted'' (parse_action_client env known cfg text)) (\<lambda>entity.
      bind_sum (caught ''Action Clients cannot be created'' (test_action_client env entity)) (\<lambda>_.
      Inr (known @ [sa_def_channel entity], cfg\<lparr>gc_actionClient := gc_actionClient cfg @ [entity]\<rparr>))))"

section \<open>Pre-defined entities, final checks and the whole initialization\<close>

definition predefined_publisher :: "OpCode \<Rightarrow> string \<Rightarrow> string \<Rightarrow> rmw_qos_profile \<Rightarrow> Topic_t" where
  "predefined_publisher op topic type q =
     \<lparr>tp_channel = opcode op, tp_topic = topic, tp_type = type, tp_useOwnThread = True,
      tp_permanent = True, tp_qos = Some q, tp_compression = DEFAULT_COMPRESSION_PROFILE\<rparr>"

definition add_predefined :: "GlobalConfig \<Rightarrow> GlobalConfig" where
  "add_predefined cfg =
     (let cfg = (if publishClock cfg
                 then cfg\<lparr>gc_publisher := gc_publisher cfg
                   @ [predefined_publisher CLOCK ''/clock'' ''rosgraph_msgs/msg/Clock'' CLOCK_AND_TF_QOS]\<rparr>
                 else cfg);
          cfg = (if publishTf cfg
                 then cfg\<lparr>gc_publisher := gc_publisher cfg
                   @ [predefined_publisher TF ''/tf'' ''tf2_msgs/msg/TFMessage'' CLOCK_AND_TF_QOS,
                      predefined_publisher TF_STATIC ''/tf_static'' ''tf2_msgs/msg/TFMessage'' TF_STATIC_QOS]\<rparr>
                 else cfg)
      in if subscribeTf cfg
         then cfg\<lparr>gc_subscriber := gc_subscriber cfg
           @ [predefined_publisher TF ''/tf'' ''tf2_msgs/msg/TFMessage'' CLOCK_AND_TF_QOS,
              predefined_publisher TF_STATIC ''/tf_static'' ''tf2_msgs/msg/TFMessage'' TF_STATIC_QOS]\<rparr>
         else cfg)"

definition check_authentication :: "env \<Rightarrow> GlobalConfig \<Rightarrow> GlobalConfig throws" where
  "check_authentication env cfg =
     throw_first [(authenticationTimeout cfg \<le> 0,
                   ''Value for authentication/timeout cannot be lower than 1'')] (
     bind_sum (if authenticationPlugin cfg \<noteq> []
               then caught ''Authentication plugin cannot be loaded''
                      (load_authentication env (authenticationPlugin cfg))
               else Inr ()) (\<lambda>_.
     throw_first [(\<not> authenticationOmit cfg \<and> authenticationPlugin cfg = [],
                   ''Authentication check should not be omitted but no authentication plugin is provided'')] (
     Inr cfg)))"

definition finish_initialization :: "env \<Rightarrow> bool \<Rightarrow> GlobalConfig \<Rightarrow> GlobalConfig throws" where
  "finish_initialization env authentication cfg =
     throw_first
       [(publishTf cfg \<and> subscribeTf cfg, ''Cannot publish and subscribe to tf2 topics at the same time''),
        (publishClock cfg \<and> subscribeClock cfg, ''Cannot publish and subscribe to clock topic at the same time'')] (
     let cfg = add_predefined cfg in
     throw_first [(fragmentationSize cfg < 8, ''Value for websocket_write_buffer_bytes cannot be lower than 8'')] (
     if authentication then check_authentication env cfg else Inr cfg))"

definition initializeParameters :: "env \<Rightarrow> bool \<Rightarrow> parameters \<Rightarrow> GlobalConfig \<Rightarrow> GlobalConfig throws" where
  "initializeParameters env authentication p cfg =
     (let cfg = retrieve_parameters p cfg in
      bind_sum (for_each (add_qos env) (p_qos p) ([], cfg)) (\<lambda>(_, cfg).
      bind_sum (for_each (add_compression env) (p_compression p) ([], cfg)) (\<lambda>(_, cfg).
      bind_sum (for_each (add_subscriber env) (p_subscriber p) ([], cfg)) (\<lambda>(_, cfg).
      bind_sum (for_each (add_publisher env) (p_publisher p) ([], cfg)) (\<lambda>(_, cfg).
      bind_sum (for_each (add_service_server env) (p_service_server p) ([], cfg)) (\<lambda>(_, cfg).
      bind_sum (for_each (add_service_client env) (p_service_client p) ([], cfg)) (\<lambda>(_, cfg).
      bind_sum (for_each (add_action_server env) (p_action_server p) ([], cfg)) (\<lambda>(_, cfg).
      bind_sum (for_each (add_action_client env) (p_action_client p) ([], cfg)) (\<lambda>(_, cfg).
      finish_initialization env authentication cfg)))))))))"

text \<open>\<open>ConnectBase::init\<close> stores the names of the node, resolves the domain and reads the parameters.\<close>

definition resolveDomain :: "env \<Rightarrow> GlobalConfig \<Rightarrow> GlobalConfig option" where
  "resolveDomain env cfg =
     (case get_domain_id env of None \<Rightarrow> None | Some d \<Rightarrow> Some (cfg\<lparr>nodeDomainId := d\<rparr>))"

definition init :: "env \<Rightarrow> string \<Rightarrow> string \<Rightarrow> bool \<Rightarrow> parameters \<Rightarrow> GlobalConfig \<Rightarrow> GlobalConfig option" where
  "init env name namespace authentication p cfg =
     (case resolveDomain env (cfg\<lparr>nodeName := name, nodeNamespace := namespace\<rparr>) of
        None \<Rightarrow> None
      | Some cfg \<Rightarrow> (case initializeParameters env authentication p cfg of
          Inl _ \<Rightarrow> None
        | Inr cfg \<Rightarrow> Some cfg))"

section \<open>The number of executor threads\<close>

text \<open>The value of \<open>useOwnThread\<close> in one text of a parameter, or the exception.\<close>

definition own_thread :: "env \<Rightarrow> string \<Rightarrow> string \<Rightarrow> bool throws" where
  "own_thread env parameter text =
     bind_sum (json_parse env text) (\<lambda>v.
     bind_sum (need_object v (parameter @ '' is not a JSON object'')) (\<lambda>json.
     (case jget json ''useOwnThread'' of
        JBool b \<Rightarrow> Inr b
      | _ \<Rightarrow> Inl (parameter @ '' does not hold '' @ quoted ''useOwnThread'' @ '' as bool''))))"

definition count_own_thread :: "env \<Rightarrow> string \<Rightarrow> int \<Rightarrow> string \<Rightarrow> int throws" where
  "count_own_thread env parameter n text =
     bind_sum (caught (parameter @ '' are not well formatted'') (own_thread env parameter text)) (\<lambda>b.
     Inr (if b then n + 1 else n))"

definition evalNrOfMultiThreadedExecutorThreads :: "env \<Rightarrow> parameters \<Rightarrow> int" where
  "evalNrOfMultiThreadedExecutorThreads env p =
     (case
       bind_sum (for_each (count_own_thread env ''subscriber'') (p_subscriber p) 4) (\<lambda>n.
       bind_sum (for_each (count_own_thread env ''service/server'') (p_service_server p) n) (\<lambda>n.
       bind_sum (for_each (count_own_thread env ''service/client'') (p_service_client p) n) (\<lambda>n.
       bind_sum (for_each (count_own_thread env ''action/server'') (p_action_server p) n) (\<lambda>n.
       for_each (count_own_thread env ''action/client'') (p_action_client p) n))))
      of Inl _ \<Rightarrow> -1
       | Inr n \<Rightarrow> n + (if p_clock_publish p then 1 else 0) + (if p_tf_publish p then 1 else 0)
                + (if p_tf_subscribe p then 1 else 0))"

end
