(* ===== verification/Publisher.thy ===== *)
theory Publisher
  imports Thread VectorMessage Config
begin

text \<open>
  \<^verbatim>\<open>src/publisher/\<close>: publishers hand the messages of the peer over to ROS. The publisher manager
  takes messages from its queue in a thread of its own and passes them to the publisher of their
  channel: a shared publisher publishes at once, a threaded one queues them for its own thread,
  which also decompresses. Every publisher watches the number of subscribers of its topic and tells
  the peer when the first appears and when the last has been away for ten seconds.
\<close>

section \<open>PublisherBase\<close>

record publisher =
  pub_topic :: Topic_t
  hasSubscriber :: bool
  subscriberGoneAwayTimePoint :: int
  pub_queue :: "rcl_message list"
  pub_thread :: thread_state

definition new_publisher :: "Topic_t \<Rightarrow> publisher" where
  "new_publisher t = \<lparr>pub_topic = t, hasSubscriber = False, subscriberGoneAwayTimePoint = 0,
     pub_queue = [], pub_thread = new_thread\<rparr>"

text \<open>The frame that is handed to \<open>connection.send\<close>.\<close>

definition notifyAboutSubscriber :: "publisher \<Rightarrow> bool \<Rightarrow> bytes" where
  "notifyAboutSubscriber p value =
     vec_getCombinedVector (forOpCodeSubscription (tp_channel (pub_topic p)) value)"

text \<open>
  \<open>count\<close> is the subscription count and \<open>now\<close> the ROS time in nanoseconds at the call. The result is
  the publisher and what it notifies the peer about, if anything.
\<close>

definition testForSubscriber :: "nat \<Rightarrow> int \<Rightarrow> publisher \<Rightarrow> publisher \<times> bool option" where
  "testForSubscriber count now p =
     (if hasSubscriber p \<and> count = 0 then
        (if subscriberGoneAwayTimePoint p = 0 then (p\<lparr>subscriberGoneAwayTimePoint := now\<rparr>, None)
         else if now - subscriberGoneAwayTimePoint p \<ge> 10000000000
           then (p\<lparr>hasSubscriber := False\<rparr>, Some False)
         else (p, None))
      else if hasSubscriber p \<and> subscriberGoneAwayTimePoint p > 0 \<and> count > 0 then
        (p\<lparr>subscriberGoneAwayTimePoint := 0\<rparr>, None)
      else if \<not> hasSubscriber p \<and> count > 0 then
        (p\<lparr>subscriberGoneAwayTimePoint := 0, hasSubscriber := True\<rparr>, Some True)
      else (p, None))"

text \<open>What \<open>rosPublish\<close> publishes while the ROS context is valid (\<open>ok\<close>).\<close>

definition rosPublish :: "bool \<Rightarrow> rcl_message \<Rightarrow> bytes option" where
  "rosPublish ok m = (if ok then rcl_getSerializedMessage m else None)"

section \<open>Shared and threaded publishers\<close>

definition shared_publish :: "bool \<Rightarrow> rcl_message \<Rightarrow> bytes option" where
  "shared_publish ok m = (if isCompressed m then None else rosPublish ok m)"

definition threaded_publish :: "rcl_message \<Rightarrow> publisher \<Rightarrow> publisher" where
  "threaded_publish m p = p\<lparr>pub_queue := pub_queue p @ [m]\<rparr>"

text \<open>
  One iteration of \<open>ThreadedPublisher::run\<close> that is not stopping: take a message if there is one,
  check the subscribers, decompress, publish.
\<close>

definition threaded_step ::
    "codecs \<Rightarrow> bool \<Rightarrow> nat \<Rightarrow> int \<Rightarrow> publisher \<Rightarrow> publisher \<times> bool option \<times> bytes option" where
  "threaded_step c ok count now p =
     (let message = (case pub_queue p of [] \<Rightarrow> None | m # _ \<Rightarrow> Some m);
          p = p\<lparr>pub_queue := tl (pub_queue p)\<rparr>;
          (p, note) = testForSubscriber count now p
      in (p, note,
          case message of
            None \<Rightarrow> None
          | Some m \<Rightarrow>
              if isCompressed m
              then (case decompress rcl_ops c m of
                      Some (True, m') \<Rightarrow> rosPublish ok m'
                    | _ \<Rightarrow> None)
              else rosPublish ok m))"

section \<open>PublisherManager\<close>

record publisher_manager =
  publishers :: "(byte \<times> publisher) list"
  toPublish :: "rcl_message list"
  hasSharedPublisher :: bool
  pm_thread :: thread_state
  subscriptionMonitor :: bool

definition new_publisher_manager :: publisher_manager where
  "new_publisher_manager = \<lparr>publishers = [], toPublish = [], hasSharedPublisher = False,
     pm_thread = new_thread, subscriptionMonitor = False\<rparr>"

definition pm_add :: "publisher_manager \<Rightarrow> Topic_t \<Rightarrow> publisher_manager" where
  "pm_add mgr topic = mgr
     \<lparr>hasSharedPublisher := hasSharedPublisher mgr \<or> \<not> tp_useOwnThread topic,
      publishers := map_insert_new (tp_channel topic) (new_publisher topic) (publishers mgr)\<rparr>"

definition pm_init :: "GlobalConfig \<Rightarrow> publisher_manager \<Rightarrow> publisher_manager" where
  "pm_init cfg mgr = foldl pm_add mgr (gc_publisher cfg)"

definition pm_publish :: "rcl_message \<Rightarrow> publisher_manager \<Rightarrow> publisher_manager" where
  "pm_publish m mgr = mgr\<lparr>toPublish := toPublish mgr @ [m]\<rparr>"

text \<open>
  \<open>onBeforeStartThread\<close> starts every threaded publisher and the monitor of the shared ones. Starting
  a thread that runs already, or assigning to a \<open>std::thread\<close> that is joinable, terminates the
  program (\<open>None\<close>).
\<close>

definition start_publisher :: "publisher \<Rightarrow> publisher option" where
  "start_publisher p =
     (if tp_useOwnThread (pub_topic p)
      then map_option (\<lambda>(_, t). p\<lparr>pub_thread := t\<rparr>) (startThread True True (pub_thread p))
      else Some p)"

fun start_publishers :: "(byte \<times> publisher) list \<Rightarrow> (byte \<times> publisher) list option" where
  "start_publishers [] = Some []"
| "start_publishers ((k, p) # ps) = do {
     p' \<leftarrow> start_publisher p;
     ps' \<leftarrow> start_publishers ps;
     Some ((k, p') # ps')
   }"

definition pm_onBeforeStartThread :: "publisher_manager \<Rightarrow> publisher_manager option" where
  "pm_onBeforeStartThread mgr = do {
     ps \<leftarrow> start_publishers (publishers mgr);
     if hasSharedPublisher mgr \<and> subscriptionMonitor mgr then None
     else Some (mgr\<lparr>publishers := ps, subscriptionMonitor := subscriptionMonitor mgr \<or> hasSharedPublisher mgr\<rparr>)
   }"

definition pm_startThread :: "publisher_manager \<Rightarrow> publisher_manager option" where
  "pm_startThread mgr =
     (if has_thread (pm_thread mgr) then None
      else do {
        mgr \<leftarrow> pm_onBeforeStartThread (mgr\<lparr>pm_thread := (pm_thread mgr)\<lparr>stopping := False\<rparr>\<rparr>);
        (_, t) \<leftarrow> startThread True True (pm_thread mgr);
        Some (mgr\<lparr>pm_thread := t\<rparr>)
      })"

text \<open>\<open>stopThread\<close> joins the monitor, stops, joins and erases the publishers; the join follows.\<close>

definition pm_stop :: "publisher_manager \<Rightarrow> publisher_manager" where
  "pm_stop mgr = mgr
     \<lparr>pm_thread := joinThread (stopThread (pm_thread mgr)), subscriptionMonitor := False, publishers := []\<rparr>"

text \<open>
  One iteration of \<open>PublisherManager::run\<close> that is not stopping. The result is the manager and what
  a shared publisher published on which channel.
\<close>

definition pm_run_step ::
    "bool \<Rightarrow> publisher_manager \<Rightarrow> publisher_manager \<times> (byte \<times> bytes) option" where
  "pm_run_step ok mgr =
     (case toPublish mgr of
        [] \<Rightarrow> (mgr, None)
      | m # ms \<Rightarrow>
          let mgr = mgr\<lparr>toPublish := ms\<rparr> in
          (case map_of (publishers mgr) (getChannel m) of
             None \<Rightarrow> (mgr, None)
           | Some p \<Rightarrow>
               if tp_useOwnThread (pub_topic p)
               then (mgr\<lparr>publishers := map_put (getChannel m) (threaded_publish m p) (publishers mgr)\<rparr>, None)
               else (mgr, map_option (Pair (getChannel m)) (shared_publish ok m))))"

text \<open>One check of one shared publisher by the subscription monitor.\<close>

definition pm_monitor_step ::
    "byte \<Rightarrow> nat \<Rightarrow> int \<Rightarrow> publisher_manager \<Rightarrow> publisher_manager \<times> bool option" where
  "pm_monitor_step ch count now mgr =
     (case map_of (publishers mgr) ch of
        None \<Rightarrow> (mgr, None)
      | Some p \<Rightarrow>
          if tp_useOwnThread (pub_topic p) then (mgr, None)
          else let (p', note) = testForSubscriber count now p
               in (mgr\<lparr>publishers := map_put ch p' (publishers mgr)\<rparr>, note))"

section \<open>Notifications about subscribers\<close>

text \<open>A sequence of tests with the observed counts and times, and the notifications it sends.\<close>

fun run_tests :: "(nat \<times> int) list \<Rightarrow> publisher \<Rightarrow> publisher \<times> bool list" where
  "run_tests [] p = (p, [])"
| "run_tests ((count, now) # obs) p =
     (let (p', note) = testForSubscriber count now p;
          (q, ns) = run_tests obs p'
      in (q, (case note of None \<Rightarrow> ns | Some b \<Rightarrow> b # ns)))"

lemma run_tests_append:
  "run_tests (xs @ ys) p =
     (let (p', a) = run_tests xs p; (q, b) = run_tests ys p' in (q, a @ b))"
  by (induction xs arbitrary: p) (auto simp: split_beta Let_def split: option.split)

text \<open>The notifications alternate, and they track \<open>hasSubscriber\<close>.\<close>

fun alternating :: "bool \<Rightarrow> bool list \<Rightarrow> bool" where
  "alternating b [] = True"
| "alternating b (x # xs) \<longleftrightarrow> x = b \<and> alternating (\<not> b) xs"

lemma test_note:
  "testForSubscriber count now p = (p', note) \<Longrightarrow>
   (case note of None \<Rightarrow> hasSubscriber p' = hasSubscriber p
    | Some b \<Rightarrow> b = (\<not> hasSubscriber p) \<and> hasSubscriber p' = b)"
  by (auto simp: testForSubscriber_def split: if_splits)

lemma run_tests_alternating:
  "run_tests obs p = (q, ns) \<Longrightarrow>
   alternating (\<not> hasSubscriber p) ns \<and> hasSubscriber q = last (hasSubscriber p # ns)"
proof (induction obs arbitrary: p ns)
  case (Cons o1 obs)
  obtain count now where o1: "o1 = (count, now)" by fastforce
  obtain p' nt where t: "testForSubscriber count now p = (p', nt)" by fastforce
  obtain r rest where r: "run_tests obs p' = (r, rest)" by fastforce
  from Cons.prems have q: "q = r" "ns = (case nt of None \<Rightarrow> rest | Some b \<Rightarrow> b # rest)"
    by (simp_all add: o1 t r)
  then have "run_tests obs p' = (q, rest)" using r by simp
  from Cons.IH [OF this] test_note [OF t] show ?case
    by (cases nt) (auto simp: q(2))
qed simp

text \<open>
  When a point in time is stored, no subscriber was seen since then.
\<close>

definition silent_since :: "(nat \<times> int) list \<Rightarrow> int \<Rightarrow> bool" where
  "silent_since obs t \<longleftrightarrow> (\<exists>before after. obs = before @ (0, t) # after \<and> list_all (\<lambda>o1. fst o1 = 0) after)"

lemma silent_since_snoc: "silent_since obs t \<Longrightarrow> silent_since (obs @ [(0, now)]) t"
proof -
  assume "silent_since obs t"
  then obtain b a where "obs = b @ (0, t) # a" "list_all (\<lambda>o1. fst o1 = 0) a"
    unfolding silent_since_def by blast
  then show ?thesis
    unfolding silent_since_def by (intro exI [of _ b] exI [of _ "a @ [(0, now)]"]) simp
qed

lemma run_tests_silent:
  assumes "run_tests obs (new_publisher t) = (q, ns)" and "list_all (\<lambda>o1. snd o1 \<ge> 0) obs"
  shows "(hasSubscriber q \<longrightarrow> subscriberGoneAwayTimePoint q = 0
            \<or> silent_since obs (subscriberGoneAwayTimePoint q))
    \<and> subscriberGoneAwayTimePoint q \<ge> 0"
  using assms
proof (induction obs arbitrary: q ns rule: rev_induct)
  case Nil
  then show ?case by (auto simp: new_publisher_def)
next
  case (snoc o1 obs)
  obtain count now where o1: "o1 = (count, now)" by fastforce
  obtain p a where p: "run_tests obs (new_publisher t) = (p, a)" by fastforce
  obtain p' nt where t: "testForSubscriber count now p = (p', nt)" by fastforce
  have q: "q = p'" using snoc.prems(1) by (simp add: run_tests_append p o1 t)
  have "silent_since (obs @ [(0, now)]) now"
    unfolding silent_since_def by (intro exI [of _ obs] exI [of _ "[]"]) simp
  moreover note IH = snoc.IH [OF p]
  ultimately show ?case
    using t snoc.prems(2) silent_since_snoc [of obs "subscriberGoneAwayTimePoint p" now]
    by (auto simp: q o1 testForSubscriber_def split: if_splits)
qed

text \<open>A notification about the subscribers going away is preceded by ten silent seconds.\<close>

lemma gone_notification:
  assumes "run_tests obs (new_publisher t) = (p, ns)" and "list_all (\<lambda>o1. snd o1 \<ge> 0) obs"
    and "testForSubscriber count now p = (p', Some False)"
  shows "\<exists>since. silent_since (obs @ [(count, now)]) since \<and> now - since \<ge> 10000000000"
proof -
  let ?s = "subscriberGoneAwayTimePoint p"
  have s: "hasSubscriber p" "count = 0" "?s \<noteq> 0" "now - ?s \<ge> 10000000000"
    using assms(3) by (auto simp: testForSubscriber_def split: if_splits)
  then have "silent_since obs ?s" using run_tests_silent [OF assms(1,2)] by auto
  from silent_since_snoc [OF this] s show ?thesis by blast
qed

end
