(* ===== verification/PublisherFlow.thy ===== *)
theory PublisherFlow
  imports Publisher
begin

text \<open>
  The publishing side as a concurrent system: messages arrive from the connection while the manager
  thread, the threads of the threaded publishers and the subscription monitor take turns in any
  order. The invariant accounts for every message that ever arrived.
\<close>

section \<open>The system\<close>

record pub_sys =
  pub_mgr :: publisher_manager
  arrived :: "rcl_message list"
  published :: "(byte \<times> bytes) list"
  notified :: "(byte \<times> bool) list"

definition pub_start :: "GlobalConfig \<Rightarrow> pub_sys" where
  "pub_start cfg = \<lparr>pub_mgr = pm_init cfg new_publisher_manager, arrived = [], published = [], notified = []\<rparr>"

inductive pub_step :: "codecs \<Rightarrow> pub_sys \<Rightarrow> pub_sys \<Rightarrow> bool" for c :: codecs where
  arrive: "pub_step c s (s\<lparr>pub_mgr := pm_publish m (pub_mgr s), arrived := arrived s @ [m]\<rparr>)"
| dispatch: "pm_run_step True (pub_mgr s) = (mgr', out) \<Longrightarrow>
    pub_step c s (s\<lparr>pub_mgr := mgr', published := published s @ opt_list out\<rparr>)"
| work: "map_of (publishers (pub_mgr s)) ch = Some p \<Longrightarrow> tp_useOwnThread (pub_topic p) \<Longrightarrow>
    threaded_step c True count now p = (p', nt, out) \<Longrightarrow>
    pub_step c s (s\<lparr>pub_mgr := (pub_mgr s)\<lparr>publishers := map_put ch p' (publishers (pub_mgr s))\<rparr>,
      published := published s @ map (Pair ch) (opt_list out),
      notified := notified s @ map (Pair ch) (opt_list nt)\<rparr>)"
| monitor: "pm_monitor_step ch count now (pub_mgr s) = (mgr', nt) \<Longrightarrow>
    pub_step c s (s\<lparr>pub_mgr := mgr', notified := notified s @ map (Pair ch) (opt_list nt)\<rparr>)"

inductive_cases pub_stepE: "pub_step c s s'"

section \<open>What a message contributes\<close>

text \<open>The payload that a publisher of a topic publishes for a message, if any.\<close>

definition topic_payload :: "codecs \<Rightarrow> Topic_t \<Rightarrow> rcl_message \<Rightarrow> bytes option" where
  "topic_payload c t m =
     (if tp_useOwnThread t then received_payload c m
      else if isCompressed m then None else Some (serialized m))"

definition payloads :: "codecs \<Rightarrow> Topic_t \<Rightarrow> rcl_message list \<Rightarrow> bytes list" where
  "payloads c t ms = concat (map (\<lambda>m. opt_list (topic_payload c t m)) ms)"

definition on_channel :: "byte \<Rightarrow> rcl_message list \<Rightarrow> rcl_message list" where
  "on_channel ch ms = filter (\<lambda>m. channel m = ch) ms"

definition published_on :: "byte \<Rightarrow> (byte \<times> bytes) list \<Rightarrow> bytes list" where
  "published_on ch log = map snd (filter (\<lambda>x. fst x = ch) log)"

lemma payloads_simps [simp]:
  "payloads c t [] = []"
  "payloads c t (m # ms) = opt_list (topic_payload c t m) @ payloads c t ms"
  "payloads c t (ms @ ms') = payloads c t ms @ payloads c t ms'"
  by (simp_all add: payloads_def)

lemma on_channel_simps [simp]:
  "on_channel ch [] = []"
  "on_channel ch (m # ms) = (if channel m = ch then m # on_channel ch ms else on_channel ch ms)"
  "on_channel ch (ms @ ms') = on_channel ch ms @ on_channel ch ms'"
  by (simp_all add: on_channel_def)

lemma published_on_simps [simp]:
  "published_on ch [] = []"
  "published_on ch (log @ log') = published_on ch log @ published_on ch log'"
  "published_on ch [(k, b)] = (if k = ch then [b] else [])"
  "published_on ch (map (Pair k) bs) = (if k = ch then bs else [])"
  by (auto simp: published_on_def o_def)

lemma testForSubscriber_frame:
  "testForSubscriber count now p = (p', nt) \<Longrightarrow> pub_queue p' = pub_queue p \<and> pub_topic p' = pub_topic p"
  by (auto simp: testForSubscriber_def split: if_splits)

lemma threaded_step_flow:
  assumes "threaded_step c True count now p = (p', nt, out)" and "tp_useOwnThread (pub_topic p)"
  shows "pub_topic p' = pub_topic p \<and> pub_queue p' = tl (pub_queue p)
    \<and> payloads c (pub_topic p) (pub_queue p) = opt_list out @ payloads c (pub_topic p) (pub_queue p')"
proof -
  obtain q n where t: "testForSubscriber count now (p\<lparr>pub_queue := tl (pub_queue p)\<rparr>) = (q, n)"
    by fastforce
  from testForSubscriber_frame [OF t] have q: "pub_queue q = tl (pub_queue p)" "pub_topic q = pub_topic p"
    by simp_all
  show ?thesis
  proof (cases "pub_queue p")
    case Nil
    with assms(1) t q show ?thesis by (auto simp: threaded_step_def Let_def)
  next
    case (Cons m ms)
    have "(if isCompressed m then (case decompress rcl_ops c m of Some (True, m') \<Rightarrow> rosPublish True m' | _ \<Rightarrow> None)
        else rosPublish True m) = received_payload c m"
      by (auto simp: received_payload_def rosPublish_def rcl_getSerializedMessage_def
          split: option.split prod.split bool.split)
    with assms t q Cons show ?thesis
      by (auto simp: threaded_step_def Let_def topic_payload_def)
  qed
qed

section \<open>The invariant\<close>

definition flow_ok :: "codecs \<Rightarrow> pub_sys \<Rightarrow> byte \<Rightarrow> publisher \<Rightarrow> bool" where
  "flow_ok c s ch p \<longleftrightarrow>
     payloads c (pub_topic p) (on_channel ch (arrived s))
       = published_on ch (published s) @ payloads c (pub_topic p) (pub_queue p)
         @ payloads c (pub_topic p) (on_channel ch (toPublish (pub_mgr s)))
     \<and> (\<not> tp_useOwnThread (pub_topic p) \<longrightarrow> pub_queue p = [])"

definition pub_inv :: "codecs \<Rightarrow> pub_sys \<Rightarrow> bool" where
  "pub_inv c s \<longleftrightarrow>
     (\<forall>ch. case map_of (publishers (pub_mgr s)) ch of
        Some p \<Rightarrow> flow_ok c s ch p
      | None \<Rightarrow> published_on ch (published s) = [])"

lemma pub_invI:
  "(\<And>ch p. map_of (publishers (pub_mgr s)) ch = Some p \<Longrightarrow> flow_ok c s ch p) \<Longrightarrow>
   (\<And>ch. map_of (publishers (pub_mgr s)) ch = None \<Longrightarrow> published_on ch (published s) = []) \<Longrightarrow> pub_inv c s"
  by (auto simp: pub_inv_def split: option.split)

lemma pub_invD:
  "pub_inv c s \<Longrightarrow> map_of (publishers (pub_mgr s)) ch = Some p \<Longrightarrow> flow_ok c s ch p"
  "pub_inv c s \<Longrightarrow> map_of (publishers (pub_mgr s)) ch = None \<Longrightarrow> published_on ch (published s) = []"
  by (auto simp: pub_inv_def dest!: spec [of _ ch])

lemma pm_add_all:
  "publishers (foldl pm_add mgr ts) = insert_all tp_channel new_publisher ts (publishers mgr)
   \<and> toPublish (foldl pm_add mgr ts) = toPublish mgr"
  unfolding insert_all_def
  by (induction ts arbitrary: mgr) (auto simp: pm_add_def)

lemma pm_init_publishers:
  "map_of (publishers (pm_init cfg new_publisher_manager)) ch
     = map_option new_publisher (find (\<lambda>t. tp_channel t = ch) (gc_publisher cfg))"
  "toPublish (pm_init cfg new_publisher_manager) = []"
  by (simp_all add: pm_init_def pm_add_all map_of_insert_all new_publisher_manager_def)

lemma pub_inv_start: "pub_inv c (pub_start cfg)"
  by (rule pub_invI)
    (auto simp: pub_start_def flow_ok_def pm_init_publishers new_publisher_def)

lemma pub_inv_arrive:
  "pub_inv c s \<Longrightarrow> pub_inv c (s\<lparr>pub_mgr := pm_publish m (pub_mgr s), arrived := arrived s @ [m]\<rparr>)"
  by (rule pub_invI) (auto simp: pm_publish_def flow_ok_def dest: pub_invD)

lemma pub_inv_dispatch:
  assumes inv: "pub_inv c s" and st: "pm_run_step True (pub_mgr s) = (mgr', out)"
  shows "pub_inv c (s\<lparr>pub_mgr := mgr', published := published s @ opt_list out\<rparr>)"
proof (cases "toPublish (pub_mgr s)")
  case Nil
  then have "mgr' = pub_mgr s" "out = None" using st by (auto simp: pm_run_step_def)
  then show ?thesis using inv by simp
next
  case (Cons m ms)
  show ?thesis
  proof (cases "map_of (publishers (pub_mgr s)) (channel m)")
    case None
    then have "mgr' = (pub_mgr s)\<lparr>toPublish := ms\<rparr>" "out = None"
      using st Cons by (auto simp: pm_run_step_def getChannel_def)
    moreover have "flow_ok c (s\<lparr>pub_mgr := (pub_mgr s)\<lparr>toPublish := ms\<rparr>\<rparr>) ch p"
      if "map_of (publishers (pub_mgr s)) ch = Some p" for ch p
      using pub_invD(1) [OF inv that] that None Cons by (auto simp: flow_ok_def)
    ultimately show ?thesis
      using pub_invD(2) [OF inv] by (intro pub_invI) (auto simp: flow_ok_def)
  next
    case (Some p)
    note flow = pub_invD(1) [OF inv Some]
    show ?thesis
    proof (cases "tp_useOwnThread (pub_topic p)")
      case True
      then have "mgr' = (pub_mgr s)\<lparr>toPublish := ms,
          publishers := map_put (channel m) (threaded_publish m p) (publishers (pub_mgr s))\<rparr>" "out = None"
        using st Cons Some by (auto simp: pm_run_step_def getChannel_def)
      then show ?thesis
        using inv Some Cons flow True
        by (intro pub_invI) (auto simp: flow_ok_def threaded_publish_def dest: pub_invD split: if_splits)
    next
      case False
      then have e: "mgr' = (pub_mgr s)\<lparr>toPublish := ms\<rparr>"
        "out = map_option (Pair (channel m)) (topic_payload c (pub_topic p) m)"
        using st Cons Some
        by (auto simp: pm_run_step_def getChannel_def shared_publish_def topic_payload_def rosPublish_def
            rcl_getSerializedMessage_def)
      have "opt_list out = map (Pair (channel m)) (opt_list (topic_payload c (pub_topic p) m))"
        by (simp add: e(2) opt_list_def split: option.split)
      then show ?thesis
        using inv Some Cons flow False
        by (intro pub_invI) (auto simp: flow_ok_def e(1) dest: pub_invD)
    qed
  qed
qed

lemma pub_inv_work:
  assumes inv: "pub_inv c s" and p: "map_of (publishers (pub_mgr s)) ch = Some p" "tp_useOwnThread (pub_topic p)"
    and st: "threaded_step c True count now p = (p', nt, out)"
  shows "pub_inv c (s\<lparr>pub_mgr := (pub_mgr s)\<lparr>publishers := map_put ch p' (publishers (pub_mgr s))\<rparr>,
      published := published s @ map (Pair ch) (opt_list out),
      notified := notified s @ map (Pair ch) (opt_list nt)\<rparr>)"
  using inv p threaded_step_flow [OF st p(2)] pub_invD(1) [OF inv p(1)]
  by (intro pub_invI) (auto simp: flow_ok_def dest: pub_invD split: if_splits)

lemma pub_inv_monitor:
  assumes inv: "pub_inv c s" and st: "pm_monitor_step ch count now (pub_mgr s) = (mgr', nt)"
  shows "pub_inv c (s\<lparr>pub_mgr := mgr', notified := notified s @ map (Pair ch) (opt_list nt)\<rparr>)"
proof (cases "\<exists>p. map_of (publishers (pub_mgr s)) ch = Some p \<and> \<not> tp_useOwnThread (pub_topic p)")
  case True
  then obtain p where p: "map_of (publishers (pub_mgr s)) ch = Some p" "\<not> tp_useOwnThread (pub_topic p)"
    by blast
  obtain p' n where t: "testForSubscriber count now p = (p', n)" by fastforce
  have "mgr' = (pub_mgr s)\<lparr>publishers := map_put ch p' (publishers (pub_mgr s))\<rparr>"
    using st p t by (simp add: pm_monitor_step_def)
  then show ?thesis
    using inv p testForSubscriber_frame [OF t] pub_invD(1) [OF inv p(1)]
    by (intro pub_invI) (auto simp: flow_ok_def dest: pub_invD split: if_splits)
next
  case False
  then have "mgr' = pub_mgr s"
    using st by (auto simp: pm_monitor_step_def split: option.splits if_splits)
  then show ?thesis
    using inv by (intro pub_invI) (auto simp: flow_ok_def dest: pub_invD)
qed

lemma pub_inv_step: "pub_step c s s' \<Longrightarrow> pub_inv c s \<Longrightarrow> pub_inv c s'"
  by (induction rule: pub_step.induct)
    (simp_all add: pub_inv_arrive pub_inv_dispatch pub_inv_work pub_inv_monitor)

lemma pub_inv_reachable: "(pub_step c)\<^sup>*\<^sup>* (pub_start cfg) s \<Longrightarrow> pub_inv c s"
  by (induction rule: rtranclp_induct) (auto intro: pub_inv_start pub_inv_step)

text \<open>The topic of every publisher stays the configured one.\<close>

definition topics_fixed :: "GlobalConfig \<Rightarrow> pub_sys \<Rightarrow> bool" where
  "topics_fixed cfg s \<longleftrightarrow> (\<forall>ch. map_option pub_topic (map_of (publishers (pub_mgr s)) ch)
      = find (\<lambda>t. tp_channel t = ch) (gc_publisher cfg))"

lemma topics_fixed_step: "pub_step c s s' \<Longrightarrow> topics_fixed cfg s \<Longrightarrow> topics_fixed cfg s'"
proof (induction rule: pub_step.induct)
  case (dispatch s mgr' out)
  then show ?case
    by (auto simp: topics_fixed_def pm_run_step_def threaded_publish_def Let_def getChannel_def
        split: list.splits option.splits if_splits) (metis option.map(2))
next
  case (work s ch p count now p' nt out)
  then show ?case
    using threaded_step_flow [OF work(3,2)] by (auto simp: topics_fixed_def dest: spec [of _ ch])
next
  case (monitor ch count now s mgr' nt)
  then show ?case
    by (auto simp: topics_fixed_def pm_monitor_step_def split: option.splits if_splits prod.splits
        dest!: testForSubscriber_frame) (metis option.map(2))
qed (simp add: topics_fixed_def pm_publish_def)

lemma topics_fixed_reachable: "(pub_step c)\<^sup>*\<^sup>* (pub_start cfg) s \<Longrightarrow> topics_fixed cfg s"
proof (induction rule: rtranclp_induct)
  case base
  have "pub_topic \<circ> new_publisher = id" by (auto simp: new_publisher_def)
  then show ?case
    by (simp add: topics_fixed_def pub_start_def pm_init_publishers option.map_comp option.map_id0)
qed (rule topics_fixed_step)

section \<open>Delivery\<close>

text \<open>What is still on its way to the topic of a channel.\<close>

definition in_flight :: "codecs \<Rightarrow> Topic_t \<Rightarrow> byte \<Rightarrow> pub_sys \<Rightarrow> bytes list" where
  "in_flight c t ch s =
     payloads c t (case map_of (publishers (pub_mgr s)) ch of None \<Rightarrow> [] | Some p \<Rightarrow> pub_queue p)
     @ payloads c t (on_channel ch (toPublish (pub_mgr s)))"

lemma delivery:
  assumes "(pub_step c)\<^sup>*\<^sup>* (pub_start cfg) s"
    and "find (\<lambda>t. tp_channel t = ch) (gc_publisher cfg) = Some t"
  shows "published_on ch (published s) @ in_flight c t ch s = payloads c t (on_channel ch (arrived s))"
proof -
  have "map_option pub_topic (map_of (publishers (pub_mgr s)) ch) = Some t"
    using topics_fixed_reachable [OF assms(1)] assms(2) by (auto simp: topics_fixed_def)
  then obtain p where p: "map_of (publishers (pub_mgr s)) ch = Some p" "pub_topic p = t" by blast
  from pub_invD(1) [OF pub_inv_reachable [OF assms(1)] p(1)] show ?thesis
    by (simp add: in_flight_def flow_ok_def p)
qed

lemma no_publisher:
  assumes "(pub_step c)\<^sup>*\<^sup>* (pub_start cfg) s"
    and "find (\<lambda>t. tp_channel t = ch) (gc_publisher cfg) = None"
  shows "published_on ch (published s) = []"
proof -
  have "map_option pub_topic (map_of (publishers (pub_mgr s)) ch) = None"
    using topics_fixed_reachable [OF assms(1)] assms(2) by (auto simp: topics_fixed_def)
  then show ?thesis using pub_invD(2) [OF pub_inv_reachable [OF assms(1)]] by blast
qed

end
