(* ===== verification/Subscriber.thy ===== *)
theory Subscriber
  imports Thread VectorMessage Config
begin

text \<open>
  \<^verbatim>\<open>src/subscriber/\<close>: subscribers forward the messages of ROS topics to the peer. The subscriber
  manager creates the permanent subscribers when a connection is authorized and the others on
  request of the peer; a threaded subscriber queues and compresses in its own thread, a shared one
  sends from the callback. The clock subscriber sends the ROS time on a timer of 10 milliseconds.
\<close>

section \<open>Subscribers\<close>

record subscriber =
  sub_topic :: Topic_t
  compression_flag :: bool
  toSend :: "vector_message list"
  sub_thread :: thread_state

definition SubscriberBase :: "Topic_t \<Rightarrow> subscriber" where
  "SubscriberBase topic = \<lparr>sub_topic = topic,
     compression_flag = (compressor_of_profile (tp_compression topic) \<noteq> NONE),
     toSend = [], sub_thread = new_thread\<rparr>"

text \<open>The callbacks: a shared subscriber returns the frame it sends, a threaded one queues.\<close>

definition shared_callback :: "bytes \<Rightarrow> subscriber \<Rightarrow> bytes" where
  "shared_callback msg s = vec_getCombinedVector (fromSerializedMessage (tp_channel (sub_topic s)) msg)"

definition threaded_callback :: "bytes \<Rightarrow> subscriber \<Rightarrow> subscriber" where
  "threaded_callback msg s =
     s\<lparr>toSend := toSend s @ [fromSerializedMessage (tp_channel (sub_topic s)) msg]\<rparr>"

text \<open>
  One iteration of \<open>ThreadedSubscriber::run\<close> that is not stopping. The result is the subscriber and
  the frame it sends; \<open>None\<close> is an undefined execution of the compressor.
\<close>

definition threaded_send :: "codecs \<Rightarrow> subscriber \<Rightarrow> (subscriber \<times> bytes option) option" where
  "threaded_send c s =
     (case toSend s of
        [] \<Rightarrow> Some (s, None)
      | m # ms \<Rightarrow> do {
          frame \<leftarrow> (if compression_flag s
            then getCompressedCombinedVector vector_ops (base_compress_ops vector_ops) c m
                   (tp_compression (sub_topic s))
            else Some (vec_getCombinedVector m));
          Some (s\<lparr>toSend := ms\<rparr>, Some frame)
        })"

section \<open>ClockSubscriber\<close>

text \<open>
  \<open>waiting\<close> counts the asynchronous waits of the timer, \<open>ready\<close> the completion handlers that are
  posted to the I/O context and \<open>clock_sent\<close> the clock messages. Setting a new expiry time and
  cancelling complete every outstanding wait (with the error code \<open>operation_aborted\<close>, which the
  handler ignores).
\<close>

record clock_subscriber =
  timerRunning :: bool
  waiting :: nat
  ready :: nat
  clock_sent :: nat
  clock_thread :: thread_state

definition new_clock_subscriber :: clock_subscriber where
  "new_clock_subscriber = \<lparr>timerRunning = False, waiting = 0, ready = 0, clock_sent = 0,
     clock_thread = new_thread\<rparr>"

definition cancel_waits :: "clock_subscriber \<Rightarrow> clock_subscriber" where
  "cancel_waits k = k\<lparr>ready := ready k + waiting k, waiting := 0\<rparr>"

definition restartTimer :: "clock_subscriber \<Rightarrow> clock_subscriber" where
  "restartTimer k = (let k = cancel_waits k in k\<lparr>waiting := waiting k + 1\<rparr>)"

definition clock_start :: "clock_subscriber \<Rightarrow> clock_subscriber" where
  "clock_start k = restartTimer (k\<lparr>timerRunning := True\<rparr>)"

definition clock_stop :: "clock_subscriber \<Rightarrow> clock_subscriber" where
  "clock_stop k = cancel_waits (k\<lparr>timerRunning := False\<rparr>)"

text \<open>Ten milliseconds pass: the waits complete. A posted handler runs: it sends and re-arms.\<close>

definition timer_expires :: "clock_subscriber \<Rightarrow> clock_subscriber" where
  "timer_expires k = cancel_waits k"

definition timer_handler :: "clock_subscriber \<Rightarrow> clock_subscriber option" where
  "timer_handler k =
     (if ready k = 0 then None
      else let k = k\<lparr>ready := ready k - 1, clock_sent := clock_sent k + 1\<rparr>
        in Some (if timerRunning k then restartTimer k else k))"

definition clock_onStopThread :: "clock_subscriber \<Rightarrow> clock_subscriber" where
  "clock_onStopThread k = (clock_stop k)\<lparr>ready := 0\<rparr>"

section \<open>SubscriberManager\<close>

record subscriber_manager =
  subscribers :: "(byte \<times> subscriber) list"
  toSubscribe :: "rcl_message list"
  clockSubscriber :: clock_subscriber
  sm_thread :: thread_state

definition new_subscriber_manager :: subscriber_manager where
  "new_subscriber_manager = \<lparr>subscribers = [], toSubscribe = [],
     clockSubscriber = new_clock_subscriber, sm_thread = new_thread\<rparr>"

definition start_subscriber :: "subscriber \<Rightarrow> subscriber option" where
  "start_subscriber s =
     (if tp_useOwnThread (sub_topic s)
      then map_option (\<lambda>(_, t). s\<lparr>sub_thread := t\<rparr>) (startThread True True (sub_thread s))
      else Some s)"

text \<open>\<open>SubscriberManager::subscribe(Topic_t &, bool)\<close>: the thread of a new subscriber can be started.\<close>

definition sm_subscribe_topic :: "Topic_t \<Rightarrow> bool \<Rightarrow> subscriber_manager \<Rightarrow> subscriber_manager" where
  "sm_subscribe_topic topic start mgr =
     (let s = SubscriberBase topic;
          s = (if start then (case start_subscriber s of Some s' \<Rightarrow> s' | None \<Rightarrow> s) else s)
      in mgr\<lparr>subscribers := map_insert_new (tp_channel topic) s (subscribers mgr)\<rparr>)"

definition sm_unsubscribe :: "byte \<Rightarrow> subscriber_manager \<Rightarrow> subscriber_manager" where
  "sm_unsubscribe ch mgr = mgr\<lparr>subscribers := map_erase ch (subscribers mgr)\<rparr>"

definition sm_init :: "GlobalConfig \<Rightarrow> subscriber_manager \<Rightarrow> subscriber_manager" where
  "sm_init cfg mgr =
     foldl (\<lambda>mgr topic. sm_subscribe_topic topic False mgr) mgr (filter tp_permanent (gc_subscriber cfg))"

definition sm_subscribe :: "rcl_message \<Rightarrow> subscriber_manager \<Rightarrow> subscriber_manager" where
  "sm_subscribe m mgr = mgr\<lparr>toSubscribe := toSubscribe mgr @ [m]\<rparr>"

fun start_subscribers :: "(byte \<times> subscriber) list \<Rightarrow> (byte \<times> subscriber) list option" where
  "start_subscribers [] = Some []"
| "start_subscribers ((k, s) # xs) = do {
     s' \<leftarrow> start_subscriber s;
     xs' \<leftarrow> start_subscribers xs;
     Some ((k, s') # xs')
   }"

text \<open>Starting a thread that runs already terminates the program (\<open>None\<close>).\<close>

definition sm_startThread :: "GlobalConfig \<Rightarrow> subscriber_manager \<Rightarrow> subscriber_manager option" where
  "sm_startThread cfg mgr =
     (if has_thread (sm_thread mgr) then None
      else do {
        ss \<leftarrow> start_subscribers (subscribers mgr);
        k \<leftarrow> (if subscribeClock cfg
              then map_option (\<lambda>(_, t). (clockSubscriber mgr)\<lparr>clock_thread := t\<rparr>)
                     (startThread True True (clock_thread (clockSubscriber mgr)))
              else Some (clockSubscriber mgr));
        (_, t) \<leftarrow> startThread True True (sm_thread mgr);
        Some (mgr\<lparr>subscribers := ss, clockSubscriber := k, sm_thread := t\<rparr>)
      })"

definition sm_stop :: "subscriber_manager \<Rightarrow> subscriber_manager" where
  "sm_stop mgr = mgr
     \<lparr>subscribers := [],
      clockSubscriber := (clock_onStopThread (clockSubscriber mgr))
        \<lparr>clock_thread := joinThread (stopThread (clock_thread (clockSubscriber mgr)))\<rparr>,
      sm_thread := joinThread (stopThread (sm_thread mgr))\<rparr>"

text \<open>
  What \<open>SubscriberManager::run\<close> does with a message while not stopping. \<open>toSubscription\<close> reads two
  bytes of the payload without checking its length (\<open>None\<close> when they are not there).
\<close>

definition sm_handle :: "GlobalConfig \<Rightarrow> rcl_message \<Rightarrow> subscriber_manager \<Rightarrow> subscriber_manager option" where
  "sm_handle cfg m mgr =
     (if getChannel m \<noteq> opcode SUBSCRIPTION then Some mgr
      else do {
        (ch, wanted) \<leftarrow> rcl_toSubscription m;
        if ch = opcode CLOCK then
          Some (if subscribeClock cfg
                then mgr\<lparr>clockSubscriber :=
                       (if wanted then clock_start (clockSubscriber mgr) else clock_stop (clockSubscriber mgr))\<rparr>
                else mgr)
        else Some (case find (\<lambda>sub. tp_channel sub = ch) (gc_subscriber cfg) of
            None \<Rightarrow> mgr
          | Some topic \<Rightarrow>
              if wanted
              then (case map_of (subscribers mgr) ch of
                      Some _ \<Rightarrow> mgr
                    | None \<Rightarrow> sm_subscribe_topic topic True mgr)
              else (case map_of (subscribers mgr) ch of
                      None \<Rightarrow> mgr
                    | Some _ \<Rightarrow> if tp_permanent topic then mgr else sm_unsubscribe ch mgr))
      })"

text \<open>The run loop on the whole queue.\<close>

fun sm_run :: "GlobalConfig \<Rightarrow> rcl_message list \<Rightarrow> subscriber_manager \<Rightarrow> subscriber_manager option" where
  "sm_run cfg [] mgr = Some mgr"
| "sm_run cfg (m # ms) mgr = do { mgr \<leftarrow> sm_handle cfg m mgr; sm_run cfg ms mgr }"

section \<open>What the peer's requests achieve\<close>

text \<open>The message that the peer's publisher sends (\<open>notifyAboutSubscriber\<close>), as it is received.\<close>

definition request :: "byte \<times> bool \<Rightarrow> rcl_message" where
  "request r = RclMessage (opcode SUBSCRIPTION) NONE 2 [fst r, if snd r then 1 else 0]"

lemma request_frame:
  "fromFlatBuffer (vec_getCombinedVector (forOpCodeSubscription ch b)) = Some (request (ch, b))"
  by (simp add: forOpCodeSubscription_def VectorMessage_def vec_getCombinedVector_def request_def)

lemma request_channel [simp]: "getChannel (request r) = opcode SUBSCRIPTION"
  by (simp add: request_def getChannel_def RclMessage_def)

lemma request_toSubscription [simp]: "rcl_toSubscription (request r) = Some r"
  by (cases r) (simp add: request_def rcl_toSubscription_def RclMessage_def slice_def)

text \<open>The specification: a channel is subscribed when its topic is permanent or was requested last.\<close>

definition last_request :: "byte \<Rightarrow> (byte \<times> bool) list \<Rightarrow> bool" where
  "last_request ch rs \<longleftrightarrow> map_of (rev rs) ch = Some True"

definition wanted_subscription :: "GlobalConfig \<Rightarrow> (byte \<times> bool) list \<Rightarrow> byte \<Rightarrow> bool" where
  "wanted_subscription cfg rs ch \<longleftrightarrow>
     (case find (\<lambda>t. tp_channel t = ch) (gc_subscriber cfg) of
        None \<Rightarrow> False
      | Some t \<Rightarrow> tp_permanent t \<or> last_request ch rs)"

definition subscribed :: "subscriber_manager \<Rightarrow> byte \<Rightarrow> bool" where
  "subscribed mgr ch \<longleftrightarrow> map_of (subscribers mgr) ch \<noteq> None"

lemma last_request_snoc [simp]:
  "last_request ch (rs @ [(k, b)]) = (if ch = k then b else last_request ch rs)"
  by (auto simp: last_request_def)

lemma wanted_subscription_Nil:
  "wanted_subscription cfg [] ch \<longleftrightarrow>
     (case find (\<lambda>t. tp_channel t = ch) (gc_subscriber cfg) of None \<Rightarrow> False | Some t \<Rightarrow> tp_permanent t)"
  by (simp add: wanted_subscription_def last_request_def split: option.split)

lemma sm_handle_request:
  assumes "ch \<noteq> opcode CLOCK"
  shows "\<exists>mgr'. sm_handle cfg (request (ch, b)) mgr = Some mgr' \<and>
    (\<forall>k. subscribed mgr' k \<longleftrightarrow>
      (if k = ch then (case find (\<lambda>t. tp_channel t = ch) (gc_subscriber cfg) of
           None \<Rightarrow> subscribed mgr ch
         | Some t \<Rightarrow> if b then True else subscribed mgr ch \<and> tp_permanent t)
       else subscribed mgr k))"
proof -
  let ?mgr' = "case find (\<lambda>sub. tp_channel sub = ch) (gc_subscriber cfg) of
      None \<Rightarrow> mgr
    | Some topic \<Rightarrow>
        if b then (case map_of (subscribers mgr) ch of Some _ \<Rightarrow> mgr | None \<Rightarrow> sm_subscribe_topic topic True mgr)
        else (case map_of (subscribers mgr) ch of None \<Rightarrow> mgr
              | Some _ \<Rightarrow> if tp_permanent topic then mgr else sm_unsubscribe ch mgr)"
  have h: "sm_handle cfg (request (ch, b)) mgr = Some ?mgr'"
    using assms by (simp add: sm_handle_def)
  show ?thesis
  proof (cases "find (\<lambda>sub. tp_channel sub = ch) (gc_subscriber cfg)")
    case None
    then show ?thesis using h by auto
  next
    case (Some t)
    then have "tp_channel t = ch" by (auto simp: find_Some_iff)
    then show ?thesis
      unfolding h
      by (cases b; cases "map_of (subscribers mgr) ch")
        (auto simp: Some subscribed_def sm_subscribe_topic_def sm_unsubscribe_def Let_def)
  qed
qed

lemma find_distinct:
  "distinct (map f xs) \<Longrightarrow> x \<in> set xs \<Longrightarrow> find (\<lambda>y. f y = f x) xs = Some x"
  by (induction xs) auto

lemma sm_init_subscribed:
  assumes "distinct (map tp_channel (gc_subscriber cfg))"
  shows "subscribed (sm_init cfg new_subscriber_manager) ch = wanted_subscription cfg [] ch"
proof -
  have init: "subscribers (foldl (\<lambda>mgr topic. sm_subscribe_topic topic False mgr) mgr ts)
      = insert_all tp_channel SubscriberBase ts (subscribers mgr)" for mgr ts
    unfolding insert_all_def
    by (induction ts arbitrary: mgr) (auto simp: sm_subscribe_topic_def)
  have perm: "(find (\<lambda>t. tp_channel t = ch) (filter tp_permanent ts) \<noteq> None) =
      (case find (\<lambda>t. tp_channel t = ch) ts of None \<Rightarrow> False | Some t \<Rightarrow> tp_permanent t)"
    if "distinct (map tp_channel ts)" for ts
    using that
    by (induction ts) (auto simp: find_None_iff)
  show ?thesis
    using perm [OF assms]
    by (simp add: subscribed_def sm_init_def init map_of_insert_all new_subscriber_manager_def
        wanted_subscription_Nil)
qed

lemma sm_run_append:
  "sm_run cfg (ms @ ms') mgr = do { mgr \<leftarrow> sm_run cfg ms mgr; sm_run cfg ms' mgr }"
proof (induction ms arbitrary: mgr)
  case (Cons m ms)
  then show ?case by (cases "sm_handle cfg m mgr") simp_all
qed simp

lemma sm_run_requests:
  assumes "distinct (map tp_channel (gc_subscriber cfg))" and "opcode CLOCK \<notin> fst ` set rs"
  shows "\<exists>mgr. sm_run cfg (map request rs) (sm_init cfg new_subscriber_manager) = Some mgr
    \<and> (\<forall>ch. subscribed mgr ch = wanted_subscription cfg rs ch)"
  using assms(2)
proof (induction rs rule: rev_induct)
  case Nil
  then show ?case using sm_init_subscribed [OF assms(1)] by simp
next
  case (snoc r rs)
  obtain ch b where r: "r = (ch, b)" by fastforce
  from snoc obtain mgr where mgr: "sm_run cfg (map request rs) (sm_init cfg new_subscriber_manager) = Some mgr"
    and IH: "\<And>ch. subscribed mgr ch = wanted_subscription cfg rs ch" by auto
  have "ch \<noteq> opcode CLOCK" using snoc.prems by (simp add: r)
  from sm_handle_request [OF this, of cfg b mgr] mgr IH show ?case
    by (fastforce simp: r sm_run_append wanted_subscription_def split: option.splits)
qed

section \<open>The clock\<close>

text \<open>Events of the clock subscriber after it was started: expiry of the timer and handlers.\<close>

datatype clock_event = Expire | Handler

fun clock_events :: "clock_event list \<Rightarrow> clock_subscriber \<Rightarrow> clock_subscriber option" where
  "clock_events [] k = Some k"
| "clock_events (Expire # es) k = clock_events es (timer_expires k)"
| "clock_events (Handler # es) k = do { k \<leftarrow> timer_handler k; clock_events es k }"

lemma clock_events_one_start:
  assumes "clock_events es k = Some k'" and "ready k + waiting k \<le> 1" and "timerRunning k"
  shows "ready k' + waiting k' \<le> 1 \<and> clock_sent k' + ready k' \<le> clock_sent k + ready k + count_list es Expire"
  using assms
proof (induction es arbitrary: k)
  case (Cons e es)
  show ?case
  proof (cases e)
    case Expire
    have "ready (timer_expires k) + waiting (timer_expires k) \<le> 1" "timerRunning (timer_expires k)"
      using Cons.prems by (simp_all add: timer_expires_def cancel_waits_def)
    from Cons.IH [OF _ this] Cons.prems Expire show ?thesis
      by (simp add: timer_expires_def cancel_waits_def)
  next
    case Handler
    then obtain q where q: "timer_handler k = Some q" "clock_events es q = Some k'"
      using Cons.prems by (auto simp: bind_eq_Some_conv)
    then have h: "ready q + waiting q \<le> 1" "timerRunning q" "ready k > 0" "clock_sent q = clock_sent k + 1"
      "ready q = 0"
      using Cons.prems
      by (auto simp: timer_handler_def restartTimer_def cancel_waits_def Let_def split: if_splits)
    from Cons.IH [OF q(2) h(1,2)] h Handler show ?thesis by simp
  qed
qed simp

lemma clock_flood:
  assumes "ready k \<ge> 1" and "waiting k = 1" and "timerRunning k"
  shows "\<exists>k'. clock_events (replicate n Handler) k = Some k' \<and> clock_sent k' = clock_sent k + n
    \<and> ready k' \<ge> 1 \<and> waiting k' = 1"
  using assms
proof (induction n arbitrary: k)
  case (Suc n)
  let ?q = "k\<lparr>ready := ready k, clock_sent := clock_sent k + 1, waiting := 1\<rparr>"
  have "timer_handler k = Some ?q"
    using Suc.prems by (simp add: timer_handler_def restartTimer_def cancel_waits_def Let_def)
  moreover have "ready ?q \<ge> 1" "waiting ?q = 1" "timerRunning ?q" using Suc.prems by simp_all
  from Suc.IH [OF this] obtain k' where "clock_events (replicate n Handler) ?q = Some k'"
    "clock_sent k' = clock_sent ?q + n" "ready k' \<ge> 1" "waiting k' = 1" by blast
  ultimately show ?case by simp
qed simp

end
