(* ===== verification/ServiceActionMessage.thy ===== *)
theory ServiceActionMessage
  imports VectorMessage
begin

text \<open>
  \<^verbatim>\<open>include/connect/serviceActionMessage.hpp\<close> and \<^verbatim>\<open>src/message/serviceActionMessage.cpp\<close>: messages
  that carry a service request or an action event. Behind the frame header comes an extended header
  (channel, op-code, length of the goal id, goal id) that is never compressed. The goal id and the
  data are spans into the frame, modelled as offset and length, because \<open>store\<close> moves the extended
  header within the same vector.
\<close>

section \<open>State\<close>

type_synonym span = "nat \<times> nat"

definition span_read :: "bytes \<Rightarrow> span \<Rightarrow> bytes option" where
  "span_read v sp = slice v (fst sp) (snd sp)"

record sa_message = message_base +
  sa_vec :: bytes
  sa_channel :: byte
  sa_opcode :: ServiceActionOpCode
  gID_span :: span
  data_span :: span

text \<open>
  \<open>memcpy\<close> inside one vector. ISO C++ defines it only when the two ranges do not overlap;
  \<open>memmove\<close> copies overlapping ranges as well. The model takes the copy routine as a parameter, so
  that both readings of the code can be compared.
\<close>

type_synonym copy_fun = "bytes \<Rightarrow> nat \<Rightarrow> nat \<Rightarrow> nat \<Rightarrow> bytes option"

definition memmove :: copy_fun where
  "memmove v dst src n =
     (if src + n \<le> length v \<and> dst + n \<le> length v
      then Some (overwrite v dst (take n (drop src v))) else None)"

definition memcpy_iso :: copy_fun where
  "memcpy_iso v dst src n =
     (if n = 0 \<or> dst + n \<le> src \<or> src + n \<le> dst then memmove v dst src n else None)"

section \<open>Construction\<close>

text \<open>The constructor computes the spans; \<open>None\<close> when they are not inside the vector.\<close>

definition ServiceActionMessage ::
    "byte \<Rightarrow> Compressor \<Rightarrow> u32 \<Rightarrow> byte \<Rightarrow> ServiceActionOpCode \<Rightarrow> bytes \<Rightarrow> sa_message option" where
  "ServiceActionMessage ch cmpr usize sch sop v =
     (if cmpr = NONE then
        (if length v < 5 \<or> length v < 5 + unat (v ! 4) then None
         else let gidSize = unat (v ! 4) in
           Some \<lparr>channel = ch, compressor = cmpr, uncompressedSize = usize, sa_vec = v,
             sa_channel = sch, sa_opcode = sop, gID_span = (5, gidSize),
             data_span = (5 + gidSize, length v - 5 - gidSize)\<rparr>)
      else
        (if length v < 9 \<or> length v < 9 + unat (v ! 8) then None
         else let gidSize = unat (v ! 8) in
           Some \<lparr>channel = ch, compressor = cmpr, uncompressedSize = usize, sa_vec = v,
             sa_channel = sch, sa_opcode = sop, gID_span = (9, gidSize),
             data_span = (9 + gidSize, length v - 9 - gidSize)\<rparr>))"

text \<open>
  The inner option of \<open>fromMessage\<close> is the returned pointer (\<open>None\<close> for \<open>nullptr\<close>); the outer one
  is \<open>None\<close> when an access leaves the vector. The message is any class, read through its copied
  combined vector.
\<close>

definition fromMessage ::
    "('z, 'y) data_ops_scheme \<Rightarrow> 'z message_base_scheme \<Rightarrow> sa_message option option" where
  "fromMessage ops m =
     (let v = getCombinedVector ops m in
      if compressor m = NONE then
        (if length v < 6 then Some None
         else let sch = v ! 2; sop = v ! 3; gidSize = v ! 4 in
           case sa_opcode_of sop of
             None \<Rightarrow> Some None
           | Some op \<Rightarrow>
               if length v < 5 + unat gidSize then Some None
               else map_option Some (ServiceActionMessage (channel m) NONE
                      (word_of_nat (length v - 5 - unat gidSize)) sch op v))
      else
        (if length v < 10 then Some None
         else let sch = v ! 6; sop = v ! 7; gidSize = v ! 8 in
           case sa_opcode_of sop of
             None \<Rightarrow> Some None
           | Some op \<Rightarrow>
               if length v < 9 + unat gidSize then Some None
               else map_option Some (ServiceActionMessage (channel m) (compressor m)
                      (uncompressedSize m) sch op v)))"

definition forServiceAction ::
    "byte \<Rightarrow> ServiceActionOpCode \<Rightarrow> bytes \<Rightarrow> bytes \<Rightarrow> sa_message option" where
  "forServiceAction sch sop data gid =
     (let v = (replicate (5 + length gid + length data) 0)
            [0 := opcode SERVICE_ACTION, 1 := compressor_code NONE, 2 := sch, 3 := sa_code sop,
             4 := word_of_nat (length gid)];
          v = overwrite v 5 gid;
          v = overwrite v (5 + length gid) data
      in ServiceActionMessage (opcode SERVICE_ACTION) NONE (word_of_nat (length data)) sch sop v)"

section \<open>Accessors and storing\<close>

definition sa_getSerializedMessage :: "sa_message \<Rightarrow> bytes option" where
  "sa_getSerializedMessage m =
     (if compressor m = NONE then suffix_from (sa_vec m) 2 else suffix_from (sa_vec m) 6)"

definition sa_getCombinedVector :: "sa_message \<Rightarrow> bytes" where
  "sa_getCombinedVector m = sa_vec m"

definition sa_toSubscription :: "sa_message \<Rightarrow> (byte \<times> bool) option" where
  "sa_toSubscription m = do {
     bs \<leftarrow> slice (sa_vec m) 2 2;
     Some (bs ! 0, bs ! 1 = 1)
   }"

definition getData :: "sa_message \<Rightarrow> bytes option" where
  "getData m = span_read (sa_vec m) (data_span m)"

definition getGID :: "sa_message \<Rightarrow> bytes option" where
  "getGID m = span_read (sa_vec m) (gID_span m)"

text \<open>The key of the handle maps: the characters of the goal id and one null character.\<close>

definition getGIDString :: "sa_message \<Rightarrow> string option" where
  "getGIDString m = map_option (\<lambda>g. map char_of_byte g @ [CHR 0x00]) (getGID m)"

definition isServiceActionOpCode :: "sa_message \<Rightarrow> ServiceActionOpCode \<Rightarrow> bool" where
  "isServiceActionOpCode m op \<longleftrightarrow> sa_opcode m = op"

definition sa_store :: "copy_fun \<Rightarrow> sa_message \<Rightarrow> bytes \<Rightarrow> sa_message option" where
  "sa_store mcpy m data =
     (if length (sa_vec m) < 5 then None
      else do {
        let gidSize = (word_of_nat (snd (gID_span m)) :: byte);
        let n = unat gidSize;
        let v = (sa_vec m)[1 := compressor_code NONE, 2 := sa_channel m,
                           3 := sa_code (sa_opcode m), 4 := gidSize];
        v \<leftarrow> mcpy v 5 (fst (gID_span m)) n;
        let v = resize (5 + length data + n) v;
        v \<leftarrow> blit v (5 + n) data;
        Some (m\<lparr>sa_vec := v, gID_span := (5, n), data_span := (5 + n, length data)\<rparr>)
      })"

definition sa_ops :: "copy_fun \<Rightarrow> unit sa_message_ext data_ops" where
  "sa_ops mcpy = \<lparr>getSrc = getData, getCombinedVector = sa_getCombinedVector,
     getSerializedMessage = sa_getSerializedMessage, store = sa_store mcpy\<rparr>"

lemma sa_ops_simps [simp]:
  "getSrc (sa_ops mcpy) = getData"
  "getCombinedVector (sa_ops mcpy) = sa_vec"
  "store (sa_ops mcpy) = sa_store mcpy"
  by (auto simp: sa_ops_def sa_getCombinedVector_def)

section \<open>Compression\<close>

text \<open>The overriding compressors put the extended header behind the size field.\<close>

definition sa_header :: "sa_message \<Rightarrow> Compressor \<Rightarrow> u32 \<Rightarrow> bytes \<Rightarrow> bytes" where
  "sa_header m cmpr usize gid =
     channel m # compressor_code cmpr # le32 usize @
     [sa_channel m, sa_code (sa_opcode m), word_of_nat (length gid)] @ gid"

definition sa_lz4DefaultCompression :: "codecs \<Rightarrow> sa_message \<Rightarrow> u32 \<Rightarrow> bytes option" where
  "sa_lz4DefaultCompression c m r = do {
     src \<leftarrow> getData m;
     gid \<leftarrow> getGID m;
     if length src > LZ4_MAX_SRC_SIZE then Some (sa_vec m)
     else do {
       let srcSize = (word_of_nat (length src) :: u32);
       let maxDstSize = LZ4_compressBound c (sint srcSize);
       let out = LZ4_compress_fast c src (sint srcSize) maxDstSize (sint r);
       if out = [] then Some (sa_vec m)
       else compress_frame (sa_header m LZ4_DEFAULT srcSize gid) (nat maxDstSize) out
     }
   }"

definition sa_lz4HCCompression :: "codecs \<Rightarrow> sa_message \<Rightarrow> u32 \<Rightarrow> bytes option" where
  "sa_lz4HCCompression c m r = do {
     src \<leftarrow> getData m;
     gid \<leftarrow> getGID m;
     if length src > LZ4_MAX_SRC_SIZE then Some (sa_vec m)
     else do {
       let srcSize = (word_of_nat (length src) :: u32);
       let maxDstSize = LZ4_compressBound c (sint srcSize);
       let out = LZ4_compress_HC c src (sint srcSize) maxDstSize (sint r);
       if out = [] then Some (sa_vec m)
       else compress_frame (sa_header m LZ4_HC srcSize gid) (nat maxDstSize) out
     }
   }"

definition sa_zlibCompression :: "codecs \<Rightarrow> sa_message \<Rightarrow> u32 \<Rightarrow> bytes option" where
  "sa_zlibCompression c m r = do {
     src \<leftarrow> getData m;
     gid \<leftarrow> getGID m;
     if length src > ZLIB_MAX_SRC_SIZE then Some (sa_vec m)
     else do {
       let dstSize = compressBound c (length src);
       case compress2 c src dstSize (sint r) of
         None \<Rightarrow> Some (sa_vec m)
       | Some out \<Rightarrow> compress_frame (sa_header m ZLIB (word_of_nat (length src)) gid) dstSize out
     }
   }"

definition sa_compress_ops :: "unit sa_message_ext compress_ops" where
  "sa_compress_ops =
     \<lparr>op_lz4DefaultCompression = sa_lz4DefaultCompression,
      op_lz4HCCompression = sa_lz4HCCompression,
      op_zlibCompression = sa_zlibCompression\<rparr>"

section \<open>Well-formed messages\<close>

text \<open>The layout of a frame: header, extended header, goal id, data, with the spans on the last two.\<close>

definition sa_prefix :: "sa_message \<Rightarrow> bytes \<Rightarrow> bytes \<Rightarrow> bytes" where
  "sa_prefix m sz gid =
     channel m # compressor_code (compressor m) # sz
     @ [sa_channel m, sa_code (sa_opcode m), word_of_nat (length gid)]"

definition sa_layout :: "sa_message \<Rightarrow> bytes \<Rightarrow> bytes \<Rightarrow> bool" where
  "sa_layout m gid data \<longleftrightarrow>
     (\<exists>sz. length sz = (if compressor m = NONE then 0 else 4)
        \<and> sa_vec m = sa_prefix m sz gid @ gid @ data
        \<and> gID_span m = (5 + length sz, length gid)
        \<and> data_span m = (5 + length sz + length gid, length data)
        \<and> length gid < 256)"

definition sa_wf :: "sa_message \<Rightarrow> bool" where
  "sa_wf m \<longleftrightarrow> (\<exists>gid data. sa_layout m gid data)"

lemma length_sa_prefix [simp]: "length (sa_prefix m sz gid) = 5 + length sz"
  by (simp add: sa_prefix_def)

lemma sa_layout_gid: "sa_layout m gid data \<Longrightarrow> getGID m = Some gid"
  by (auto simp: sa_layout_def getGID_def span_read_def intro!: slice_middle)

lemma sa_layout_data: "sa_layout m gid data \<Longrightarrow> getData m = Some data"
  by (auto simp: sa_layout_def getData_def span_read_def simp flip: append_assoc intro!: slice_last)

lemma sa_new_plain:
  assumes "length gid < 256"
  shows "\<exists>m. ServiceActionMessage ch NONE u sch sop
           (ch # 0 # sch # sa_code sop # word_of_nat (length gid) # gid @ data) = Some m
         \<and> sa_layout m gid data \<and> channel m = ch \<and> compressor m = NONE \<and> uncompressedSize m = u
         \<and> sa_channel m = sch \<and> sa_opcode m = sop"
  using assms
  by (intro exI [of _ "\<lparr>channel = ch, compressor = NONE, uncompressedSize = u,
      sa_vec = ch # 0 # sch # sa_code sop # word_of_nat (length gid) # gid @ data,
      sa_channel = sch, sa_opcode = sop, gID_span = (5, length gid),
      data_span = (5 + length gid, length data)\<rparr>"])
    (simp add: ServiceActionMessage_def unat_of_nat sa_layout_def sa_prefix_def Let_def)

lemma sa_new_compressed:
  assumes "length gid < 256" and "cmpr \<noteq> NONE" and "length sz = 4"
  shows "\<exists>m. ServiceActionMessage ch cmpr u sch sop
           (ch # compressor_code cmpr # sz @ [sch, sa_code sop, word_of_nat (length gid)] @ gid @ data) = Some m
         \<and> sa_layout m gid data \<and> channel m = ch \<and> compressor m = cmpr \<and> uncompressedSize m = u
         \<and> sa_channel m = sch \<and> sa_opcode m = sop"
proof -
  obtain b0 b1 b2 b3 where "sz = [b0, b1, b2, b3]"
    using assms(3) by (auto simp: numeral_eq_Suc length_Suc_conv)
  then show ?thesis
    using assms
    by (intro exI [of _ "\<lparr>channel = ch, compressor = cmpr, uncompressedSize = u,
        sa_vec = ch # compressor_code cmpr # sz @ [sch, sa_code sop, word_of_nat (length gid)] @ gid @ data,
        sa_channel = sch, sa_opcode = sop, gID_span = (9, length gid),
        data_span = (9 + length gid, length data)\<rparr>"])
      (simp add: ServiceActionMessage_def unat_of_nat sa_layout_def sa_prefix_def Let_def)
qed

section \<open>Parsing the extended header\<close>

lemma forServiceAction_vec:
  "overwrite (overwrite ((replicate (5 + length gid + length data) 0)
      [0 := a, 1 := b, 2 := c, 3 := d, 4 := e]) 5 gid) (5 + length gid) data
    = a # b # c # d # e # gid @ data"
  by (simp add: overwrite_def numeral_eq_Suc)

lemma forServiceAction_layout:
  assumes "length gid < 256"
  shows "\<exists>m. forServiceAction sch sop data gid = Some m \<and> sa_layout m gid data
    \<and> channel m = opcode SERVICE_ACTION \<and> compressor m = NONE \<and> sa_channel m = sch
    \<and> sa_opcode m = sop \<and> uncompressedSize m = word_of_nat (length data)"
  unfolding forServiceAction_def Let_def forServiceAction_vec
  using sa_new_plain [OF assms, of "opcode SERVICE_ACTION" "word_of_nat (length data)" sch sop data]
  by auto

text \<open>The guards of \<open>fromMessage\<close> cover every access of the constructor.\<close>

lemma fromMessage_defined: "fromMessage ops m \<noteq> None"
  by (auto simp: fromMessage_def ServiceActionMessage_def Let_def split: option.splits)

lemma fromMessage_spans:
  assumes "fromMessage ops m = Some (Some s)"
  shows "\<exists>hdr gid data. getGID s = Some gid \<and> getData s = Some data
    \<and> getCombinedVector ops m = hdr @ gid @ data \<and> sa_vec s = hdr @ gid @ data
    \<and> length hdr = (if compressor m = NONE then 5 else 9)
    \<and> unat (hdr ! (length hdr - 1)) = length gid
    \<and> sa_code (sa_opcode s) = hdr ! (length hdr - 2)
    \<and> sa_channel s = hdr ! (length hdr - 3)
    \<and> channel s = channel m \<and> compressor s = compressor m"
proof -
  let ?v = "getCombinedVector ops m"
  define h where "h = (if compressor m = NONE then 5 else 9 :: nat)"
  define n where "n = unat (?v ! (h - 1))"
  have len: "h + n \<le> length ?v" and op: "sa_opcode_of (?v ! (h - 2)) = Some (sa_opcode s)"
    and s: "sa_channel s = ?v ! (h - 3)" "sa_vec s = ?v" "gID_span s = (h, n)"
      "data_span s = (h + n, length ?v - h - n)" "channel s = channel m"
      "compressor s = compressor m"
    using assms
    by (auto simp: fromMessage_def ServiceActionMessage_def Let_def h_def n_def
        split: if_splits option.splits)
  have h: "3 \<le> h" by (simp add: h_def)
  let ?hdr = "take h ?v" and ?gid = "take n (drop h ?v)" and ?data = "drop (h + n) ?v"
  have "?v = ?hdr @ ?gid @ ?data"
    by (metis append_take_drop_id drop_drop add.commute)
  moreover have "getGID s = Some ?gid" "getData s = Some ?data"
    using len s by (simp_all add: getGID_def getData_def span_read_def slice_def)
  moreover have "length ?hdr = h" "length ?gid = n" using len by simp_all
  ultimately show ?thesis
    using sa_opcode_of_SomeD [OF op] s h len
    by (intro exI [of _ ?hdr] exI [of _ ?gid] exI [of _ ?data]) (simp add: h_def n_def)
qed

section \<open>Decompressing in place\<close>

text \<open>
  \<open>store\<close> moves the goal id from offset 9 to offset 5. The copy routine must do this for a goal id
  of \<open>n\<close> bytes; the two ranges overlap as soon as \<open>n\<close> exceeds 4.
\<close>

definition gid_copy_ok :: "copy_fun \<Rightarrow> nat \<Rightarrow> bool" where
  "gid_copy_ok mcpy n \<longleftrightarrow> (\<forall>v. 9 + n \<le> length v \<longrightarrow> mcpy v 5 9 n = memmove v 5 9 n)"

lemma gid_copy_ok_memmove [simp]: "gid_copy_ok memmove n"
  by (simp add: gid_copy_ok_def)

lemma gid_copy_ok_iso [simp]: "gid_copy_ok memcpy_iso n \<longleftrightarrow> n \<le> 4"
proof
  assume ok: "gid_copy_ok memcpy_iso n"
  let ?v = "replicate (9 + n) (0 :: byte)"
  have "memcpy_iso ?v 5 9 n = memmove ?v 5 9 n"
    using ok by (simp add: gid_copy_ok_def)
  then show "n \<le> 4" by (auto simp: memcpy_iso_def memmove_def split: if_splits)
qed (simp add: gid_copy_ok_def memcpy_iso_def)

definition sa_wf_for :: "copy_fun \<Rightarrow> sa_message \<Rightarrow> bool" where
  "sa_wf_for mcpy m \<longleftrightarrow>
     (\<exists>gid data. sa_layout m gid data \<and> (isCompressed m \<longrightarrow> gid_copy_ok mcpy (length gid)))"

definition sa_routing :: "sa_message \<Rightarrow> byte \<times> byte \<times> ServiceActionOpCode \<times> bytes option" where
  "sa_routing m = (channel m, sa_channel m, sa_opcode m, getGID m)"

lemma sa_store_layout:
  assumes "sa_layout m gid old" and "isCompressed m" and ok: "gid_copy_ok mcpy (length gid)"
  shows "\<exists>m'. sa_store mcpy (m\<lparr>compressor := NONE\<rparr>) d = Some m' \<and> sa_layout m' gid d
    \<and> compressor m' = NONE \<and> channel m' = channel m \<and> uncompressedSize m' = uncompressedSize m
    \<and> sa_channel m' = sa_channel m \<and> sa_opcode m' = sa_opcode m"
proof -
  from assms(1,2) obtain sz where sz: "length sz = 4"
    and v: "sa_vec m = sa_prefix m sz gid @ gid @ old"
    and spans: "gID_span m = (9, length gid)" and len: "length gid < 256"
    by (auto simp: sa_layout_def isCompressed_def)
  obtain b0 b1 b2 b3 where b: "sz = [b0, b1, b2, b3]"
    using sz by (auto simp: numeral_eq_Suc length_Suc_conv)
  let ?g = "word_of_nat (length gid) :: byte"
  let ?hdr = "[channel m, 0, sa_channel m, sa_code (sa_opcode m), ?g]"
  let ?v = "(sa_vec m)[1 := 0, 2 := sa_channel m, 3 := sa_code (sa_opcode m), 4 := ?g]"
  have g: "unat ?g = length gid" using len by (simp add: unat_of_nat)
  have v': "?v = ?hdr @ [b3, sa_channel m, sa_code (sa_opcode m), ?g] @ gid @ old"
    by (simp add: v b sa_prefix_def)
  have "9 + length gid \<le> length ?v" by (simp add: v sz)
  then have "mcpy ?v 5 9 (length gid) = memmove ?v 5 9 (length gid)"
    using ok unfolding gid_copy_ok_def by blast
  also have "\<dots> = Some ((?hdr @ gid) @ drop (5 + length gid) ?v)"
    unfolding v' by (simp add: memmove_def overwrite_def)
  finally have cp: "mcpy ?v 5 9 (length gid) = Some ((?hdr @ gid) @ drop (5 + length gid) ?v)" .
  have bl: "blit (resize (5 + length d + length gid) ((?hdr @ gid) @ drop (5 + length gid) ?v))
      (5 + length gid) d = Some ((?hdr @ gid) @ d)"
    using blit_resize [of "?hdr @ gid" "5 + length gid" d] by (simp add: add.commute add.left_commute)
  have "5 \<le> length (sa_vec m)" by (simp add: v)
  then have "sa_store mcpy (m\<lparr>compressor := NONE\<rparr>) d =
      Some (m\<lparr>compressor := NONE, sa_vec := (?hdr @ gid) @ d, gID_span := (5, length gid),
        data_span := (5 + length gid, length d)\<rparr>)"
    using cp bl by (simp add: sa_store_def spans Let_def g)
  then show ?thesis
    using len by (simp add: sa_layout_def sa_prefix_def)
qed

interpretation sa: message_data "sa_ops mcpy" "sa_wf_for mcpy" sa_routing for mcpy
proof (unfold_locales, goal_cases)
  case (1 m)
  then show ?case by (auto simp: sa_wf_for_def dest: sa_layout_data)
next
  case (2 m d)
  then obtain gid old where "sa_layout m gid old" "gid_copy_ok mcpy (length gid)"
    by (auto simp: sa_wf_for_def)
  from sa_store_layout [OF this(1) 2(2) this(2), of d] show ?case by auto
next
  case (3 m d m')
  then obtain gid old where l: "sa_layout m gid old" "gid_copy_ok mcpy (length gid)"
    by (auto simp: sa_wf_for_def)
  have "getGID m = Some gid" using l(1) by (rule sa_layout_gid)
  with sa_store_layout [OF l(1) 3(2) l(2), of d] 3(3) show ?case
    by (auto simp: sa_wf_for_def isCompressed_def sa_routing_def
        dest: sa_layout_data sa_layout_gid)
qed

section \<open>Transport of a request or an event\<close>

text \<open>
  What a handle obtains from a routed message: the data, decompressed where the frame was
  compressed; \<open>None\<close> when the decompression fails.
\<close>

definition received_data :: "copy_fun \<Rightarrow> codecs \<Rightarrow> sa_message \<Rightarrow> bytes option" where
  "received_data mcpy c s =
     (if isCompressed s
      then (case decompress (sa_ops mcpy) c s of
              Some (True, s') \<Rightarrow> getData s'
            | _ \<Rightarrow> None)
      else getData s)"

text \<open>The bytes behind the frame header: the extended header, the goal id and the data.\<close>

definition sa_body :: "byte \<Rightarrow> ServiceActionOpCode \<Rightarrow> bytes \<Rightarrow> bytes \<Rightarrow> bytes" where
  "sa_body sch sop gid data = [sch, sa_code sop, word_of_nat (length gid)] @ gid @ data"

lemma fromMessage_plain:
  assumes "length gid < 256" and "gid @ data \<noteq> []"
  shows "\<exists>s. fromMessage rcl_ops (RclMessage ch NONE u (sa_body sch sop gid data)) = Some (Some s)
    \<and> sa_layout s gid data \<and> channel s = ch \<and> compressor s = NONE
    \<and> sa_channel s = sch \<and> sa_opcode s = sop"
proof -
  have "6 \<le> 5 + (length gid + length data)"
    using assms(2) by (cases gid; cases data) auto
  then show ?thesis
    using sa_new_plain [OF assms(1), of ch "word_of_nat (length data)" sch sop data] assms
    by (auto simp: fromMessage_def rcl_getCombinedVector_def RclMessage_def sa_body_def Let_def
        unat_of_nat)
qed

lemma fromMessage_compressed:
  assumes "length gid < 256" and "gid @ data \<noteq> []" and "cmpr \<noteq> NONE"
  shows "\<exists>s. fromMessage rcl_ops (RclMessage ch cmpr u (sa_body sch sop gid data)) = Some (Some s)
    \<and> sa_layout s gid data \<and> channel s = ch \<and> compressor s = cmpr \<and> uncompressedSize s = u
    \<and> sa_channel s = sch \<and> sa_opcode s = sop"
proof -
  have "10 \<le> 9 + (length gid + length data)"
    using assms(2) by (cases gid; cases data) auto
  then show ?thesis
    using sa_new_compressed [OF assms(1,3) length_le32 [of u], of ch u sch sop data] assms
    by (auto simp: fromMessage_def rcl_getCombinedVector_def RclMessage_def sa_body_def Let_def
        unat_of_nat le32_def)
qed

text \<open>The condition under which the receiver recovers the event that was sent.\<close>

definition sa_delivered ::
    "copy_fun \<Rightarrow> codecs \<Rightarrow> bytes \<Rightarrow> sa_message \<Rightarrow> bytes \<Rightarrow> bytes \<Rightarrow> bool" where
  "sa_delivered mcpy c frame m gid data \<longleftrightarrow>
     (\<exists>r s. fromFlatBuffer frame = Some r \<and> fromMessage rcl_ops r = Some (Some s)
        \<and> channel r = channel m \<and> sa_channel s = sa_channel m \<and> sa_opcode s = sa_opcode m
        \<and> getGID s = Some gid \<and> received_data mcpy c s = Some data)"

lemma sa_delivered_plain:
  assumes "length gid < 256" and "gid @ data \<noteq> []" and "frame = channel m # 0 # sa_body (sa_channel m) (sa_opcode m) gid data"
  shows "sa_delivered mcpy c frame m gid data"
  using fromMessage_plain [OF assms(1,2), of "channel m" _ "sa_channel m" "sa_opcode m"]
  unfolding sa_delivered_def assms(3) fromFlatBuffer_plain
  by (fastforce simp: received_data_def isCompressed_def RclMessage_def
      dest: sa_layout_gid sa_layout_data)

lemma sa_delivered_compressed:
  assumes len: "length gid < 256" and ne: "out \<noteq> []" and cmpr: "cmpr \<noteq> NONE"
    and ok: "gid_copy_ok mcpy (length gid)"
    and frame: "frame = channel m # compressor_code cmpr # le32 (word_of_nat (length data))
      @ sa_body (sa_channel m) (sa_opcode m) gid out"
    and dec: "\<And>s. sa_wf_for mcpy s \<Longrightarrow> compressor s = cmpr \<Longrightarrow> getSrc (sa_ops mcpy) s = Some out \<Longrightarrow>
      uncompressedSize s = word_of_nat (length data) \<Longrightarrow>
      \<exists>s'. decompress (sa_ops mcpy) c s = Some (True, s') \<and> sa_wf_for mcpy s'
        \<and> compressor s' = NONE \<and> getSrc (sa_ops mcpy) s' = Some data \<and> sa_routing s' = sa_routing s"
  shows "sa_delivered mcpy c frame m gid data"
proof -
  have "gid @ out \<noteq> []" using ne by simp
  from fromMessage_compressed [OF len this cmpr, of "channel m" "word_of_nat (length data)" "sa_channel m" "sa_opcode m"]
  obtain s where s: "fromMessage rcl_ops (RclMessage (channel m) cmpr (word_of_nat (length data))
        (sa_body (sa_channel m) (sa_opcode m) gid out)) = Some (Some s)"
    and lay: "sa_layout s gid out" and fs: "compressor s = cmpr"
      "uncompressedSize s = word_of_nat (length data)" "sa_channel s = sa_channel m" "sa_opcode s = sa_opcode m"
    by blast
  have "sa_wf_for mcpy s" using lay ok by (auto simp: sa_wf_for_def)
  then obtain s' where "decompress (sa_ops mcpy) c s = Some (True, s')" "getSrc (sa_ops mcpy) s' = Some data"
    using dec [of s] fs sa_layout_data [OF lay] by auto
  then have "received_data mcpy c s = Some data"
    using cmpr fs by (simp add: received_data_def isCompressed_def)
  then show ?thesis
    using s fs cmpr sa_layout_gid [OF lay]
    by (auto simp: sa_delivered_def frame RclMessage_def)
qed

lemma sa_lz4_frame:
  assumes m: "sa_layout m gid data" "compressor m = NONE" and "length gid < 256" and "gid @ data \<noteq> []"
    and codec: "lz4_ok c enc" and gc: "gid_copy_ok mcpy (length gid)"
    and max: "length data \<le> LZ4_MAX_SRC_SIZE"
    and bound: "LZ4_compressBound c (int (length data)) < 2 ^ 31"
    and out: "enc data (int (length data)) (LZ4_compressBound c (int (length data))) rt = out" "out \<noteq> []"
    and cmpr: "cmpr = LZ4_DEFAULT \<or> cmpr = LZ4_HC"
  shows "\<exists>frame. compress_frame (sa_header m cmpr (word_of_nat (length data)) gid)
      (nat (LZ4_compressBound c (int (length data)))) out = Some frame
    \<and> sa_delivered mcpy c frame m gid data"
proof -
  have fits: "int (length out) \<le> LZ4_compressBound c (int (length data))"
    and codec_inv: "\<And>dst. int (length data) \<le> dst \<Longrightarrow> LZ4_decompress_safe c out (int (length out)) dst = Some data"
    using lz4_okD [OF codec out] by blast+
  then have len: "length out < 2 ^ 31" using bound by simp
  let ?f = "channel m # compressor_code cmpr # le32 (word_of_nat (length data))
      @ sa_body (sa_channel m) (sa_opcode m) gid out"
  have cmpr': "cmpr \<noteq> NONE" using cmpr by auto
  have "sa_delivered mcpy c ?f m gid data"
    by (rule sa_delivered_compressed [OF assms(3) out(2) cmpr' gc refl],
        rule sa.decompress_lz4_roundtrip [where src = out])
      (use cmpr len max codec_inv in auto)
  moreover have "length out \<le> nat (LZ4_compressBound c (int (length data)))" using fits by simp
  ultimately show ?thesis
    by (auto simp: sa_header_def sa_body_def)
qed

lemma sa_zlib_frame:
  assumes m: "sa_layout m gid data" "compressor m = NONE" and "length gid < 256" and "gid @ data \<noteq> []"
    and codec: "codecs_ok c" and gc: "gid_copy_ok mcpy (length gid)"
    and max: "length data \<le> ZLIB_MAX_SRC_SIZE" and out: "compress2 c data cap rt = Some out"
  shows "\<exists>frame. compress_frame (sa_header m ZLIB (word_of_nat (length data)) gid) cap out = Some frame
    \<and> sa_delivered mcpy c frame m gid data"
proof -
  let ?f = "channel m # compressor_code ZLIB # le32 (word_of_nat (length data))
      @ sa_body (sa_channel m) (sa_opcode m) gid out"
  have ne: "out \<noteq> []" and fits: "length out \<le> cap"
    and codec_inv: "\<And>dst. length data \<le> dst \<Longrightarrow> uncompress c out dst = Some data"
    using compress2D [OF codec out] by blast+
  have "sa_delivered mcpy c ?f m gid data"
    by (rule sa_delivered_compressed [OF assms(3) ne _ gc refl], simp,
        rule sa.decompress_zlib_roundtrip [where src = out])
      (use max codec_inv in auto)
  with fits show ?thesis
    by (auto simp: sa_header_def sa_body_def)
qed

text \<open>
  Whatever the compression profile, the peer parses the frame of a message, routes it by the same
  channel and op-code, finds the same goal id and obtains the same data, provided that the copy
  routine moves the goal id.
\<close>

lemma sa_transfer:
  assumes m: "sa_layout m gid data" "compressor m = NONE" and ne: "gid @ data \<noteq> []"
    and codec: "codecs_ok c" and gc: "gid_copy_ok mcpy (length gid)"
  shows "\<exists>frame. getCompressedCombinedVector (sa_ops mcpy) sa_compress_ops c m p = Some frame
    \<and> sa_delivered mcpy c frame m gid data"
proof -
  have len: "length gid < 256" using m(1) by (auto simp: sa_layout_def)
  have vec: "sa_vec m = channel m # 0 # sa_body (sa_channel m) (sa_opcode m) gid data"
    using m by (auto simp: sa_layout_def sa_prefix_def sa_body_def)
  note plain = sa_delivered_plain [OF len ne vec]
  note src = sa_layout_data [OF m(1)] sa_layout_gid [OF m(1)]
  have lz4: "lz4_ok c (LZ4_compress_fast c)" "lz4_ok c (LZ4_compress_HC c)"
    using codec by (auto simp: codecs_ok_def)
  have small: "sint (word_of_nat (length data) :: u32) = int (length data)"
    "LZ4_compressBound c (int (length data)) < 2 ^ 31" if "length data \<le> LZ4_MAX_SRC_SIZE"
    using that codec by (simp_all add: LZ4_MAX_SRC_SIZE_eq sint_word_of_nat_small codecs_ok_def)
  show ?thesis
  proof (cases "compressor_of_profile p")
    case NONE
    then show ?thesis using plain by (simp add: getCompressedCombinedVector_def)
  next
    case LZ4_DEFAULT
    then show ?thesis
      using plain small sa_lz4_frame [OF m len ne lz4(1) gc, where cmpr = LZ4_DEFAULT]
      by (simp add: getCompressedCombinedVector_def sa_compress_ops_def sa_lz4DefaultCompression_def
          src Let_def)
  next
    case LZ4_HC
    then show ?thesis
      using plain small sa_lz4_frame [OF m len ne lz4(2) gc, where cmpr = LZ4_HC]
      by (simp add: getCompressedCombinedVector_def sa_compress_ops_def sa_lz4HCCompression_def
          src Let_def)
  next
    case ZLIB
    then show ?thesis
      using plain sa_zlib_frame [OF m len ne codec gc, of "compressBound c (length data)" "sint (rate p)"]
      by (auto simp: getCompressedCombinedVector_def sa_compress_ops_def sa_zlibCompression_def Let_def
          src split: option.split)
  qed
qed

end
