(* ===== verification/ServiceActionManager.thy ===== *)
theory ServiceActionManager
  imports Thread ServiceActionMessage Config
begin

text \<open>
  \<^verbatim>\<open>src/serviceAction/\<close>: the manager of services and actions of one connection. It creates a plugin
  for every configured service or action and routes the messages of the peer by op-code and service
  channel in a thread of its own. The plugins themselves are named by the map they are found in and
  their channel.
\<close>

section \<open>State\<close>

datatype callback_group =
    Shared_Reentrant | Own_MutuallyExclusive | Own_Reentrant

record plugin =
  plugin_definition :: Service_Action_t
  plugin_group :: callback_group

record sa_manager =
  serviceServers :: "(byte \<times> plugin) list"
  serviceClients :: "(byte \<times> plugin) list"
  actionServers :: "(byte \<times> plugin) list"
  actionClients :: "(byte \<times> plugin) list"
  toHandle :: "rcl_message list"
  sam_thread :: thread_state

definition new_sa_manager :: sa_manager where
  "new_sa_manager = \<lparr>serviceServers = [], serviceClients = [], actionServers = [], actionClients = [],
     toHandle = [], sam_thread = new_thread\<rparr>"

text \<open>
  The callback group of a plugin, as the code chooses it. (The documentation of
  \<open>allowSimultaneous\<close> asks for the two own groups to be the other way around.)
\<close>

definition callback_group_of :: "Service_Action_t \<Rightarrow> callback_group" where
  "callback_group_of d =
     (if sa_useOwnThread d
      then (if sa_allowSimultaneous d then Own_MutuallyExclusive else Own_Reentrant)
      else Shared_Reentrant)"

definition new_plugin :: "Service_Action_t \<Rightarrow> plugin" where
  "new_plugin d = \<lparr>plugin_definition = d, plugin_group = callback_group_of d\<rparr>"

section \<open>Operations\<close>

definition sam_init :: "GlobalConfig \<Rightarrow> sa_manager \<Rightarrow> sa_manager" where
  "sam_init cfg mgr = mgr
     \<lparr>serviceServers := insert_all sa_def_channel new_plugin (gc_serviceServer cfg) (serviceServers mgr),
      serviceClients := insert_all sa_def_channel new_plugin (gc_serviceClient cfg) (serviceClients mgr),
      actionServers := insert_all sa_def_channel new_plugin (gc_actionServer cfg) (actionServers mgr),
      actionClients := insert_all sa_def_channel new_plugin (gc_actionClient cfg) (actionClients mgr)\<rparr>"

definition sam_handle :: "rcl_message \<Rightarrow> sa_manager \<Rightarrow> sa_manager" where
  "sam_handle m mgr = mgr\<lparr>toHandle := toHandle mgr @ [m]\<rparr>"

definition sam_startThread :: "sa_manager \<Rightarrow> sa_manager option" where
  "sam_startThread mgr = do {
     (_, t) \<leftarrow> startThread True True (sam_thread mgr);
     Some (mgr\<lparr>sam_thread := t\<rparr>)
   }"

definition sam_stop :: "sa_manager \<Rightarrow> sa_manager" where
  "sam_stop mgr = mgr\<lparr>serviceServers := [], serviceClients := [], actionServers := [], actionClients := [],
     sam_thread := joinThread (stopThread (sam_thread mgr))\<rparr>"

datatype target =
    ServiceServer_plugin byte | ServiceClient_plugin byte | ActionServer_plugin byte
  | ActionClient_plugin byte

text \<open>The plugin a message is moved to; \<open>None\<close> when no plugin has its channel.\<close>

definition route :: "sa_manager \<Rightarrow> sa_message \<Rightarrow> target option" where
  "route mgr s =
     (let find_in = (\<lambda>m (mk :: byte \<Rightarrow> target). map_option (\<lambda>_. mk (sa_channel s)) (map_of m (sa_channel s))) in
      if isServiceActionOpCode s SERVICE_TO_SERVER then find_in (serviceServers mgr) ServiceServer_plugin
      else if isServiceActionOpCode s SERVICE_TO_CLIENT \<or> isServiceActionOpCode s SERVICE_TO_CLIENT_CANCEL
        then find_in (serviceClients mgr) ServiceClient_plugin
      else if isServiceActionOpCode s ACTION_TO_CLIENT_GOAL \<or> isServiceActionOpCode s ACTION_TO_CLIENT_CANCEL
        then find_in (actionClients mgr) ActionClient_plugin
      else find_in (actionServers mgr) ActionServer_plugin)"

text \<open>
  One iteration of \<open>ServiceActionManager::run\<close> that is not stopping: the message that is handed to a
  plugin, if any. The outer option is \<open>None\<close> when parsing would leave the frame.
\<close>

definition sam_run_step :: "sa_manager \<Rightarrow> (sa_manager \<times> (target \<times> sa_message) option) option" where
  "sam_run_step mgr =
     (case toHandle mgr of
        [] \<Rightarrow> Some (mgr, None)
      | m # ms \<Rightarrow> do {
          parsed \<leftarrow> fromMessage rcl_ops m;
          let mgr = mgr\<lparr>toHandle := ms\<rparr>;
          Some (mgr, (case parsed of
            None \<Rightarrow> None
          | Some s \<Rightarrow> map_option (\<lambda>t. (t, s)) (route mgr s)))
        })"

section \<open>Routing\<close>

text \<open>The side of a service or action that an op-code addresses, as its name says.\<close>

fun addressee :: "ServiceActionOpCode \<Rightarrow> byte \<Rightarrow> target" where
  "addressee SERVICE_TO_CLIENT = ServiceClient_plugin"
| "addressee SERVICE_TO_CLIENT_CANCEL = ServiceClient_plugin"
| "addressee SERVICE_TO_SERVER = ServiceServer_plugin"
| "addressee ACTION_TO_CLIENT_GOAL = ActionClient_plugin"
| "addressee ACTION_TO_CLIENT_CANCEL = ActionClient_plugin"
| "addressee _ = ActionServer_plugin"

fun configured :: "GlobalConfig \<Rightarrow> target \<Rightarrow> bool" where
  "configured cfg (ServiceServer_plugin ch) \<longleftrightarrow> ch \<in> sa_def_channel ` set (gc_serviceServer cfg)"
| "configured cfg (ServiceClient_plugin ch) \<longleftrightarrow> ch \<in> sa_def_channel ` set (gc_serviceClient cfg)"
| "configured cfg (ActionServer_plugin ch) \<longleftrightarrow> ch \<in> sa_def_channel ` set (gc_actionServer cfg)"
| "configured cfg (ActionClient_plugin ch) \<longleftrightarrow> ch \<in> sa_def_channel ` set (gc_actionClient cfg)"

lemma look_init:
  "map_option (\<lambda>_. x) (map_of (insert_all sa_def_channel new_plugin ds []) ch)
     = (if ch \<in> sa_def_channel ` set ds then Some x else None)"
  by (cases "find (\<lambda>d. sa_def_channel d = ch) ds")
    (auto simp: map_of_insert_all find_None_iff find_Some_iff)

lemma route_frame [simp]:
  "route (mgr\<lparr>toHandle := q\<rparr>) s = route mgr s"
  "route (mgr\<lparr>sam_thread := t\<rparr>) s = route mgr s"
  by (simp_all add: route_def)

lemma route_init:
  "route (sam_init cfg new_sa_manager) s =
     (let target = addressee (sa_opcode s) (sa_channel s)
      in if configured cfg target then Some target else None)"
  by (cases "sa_opcode s")
    (simp_all add: route_def sam_init_def new_sa_manager_def isServiceActionOpCode_def look_init Let_def)

lemma sam_run_step_defined: "sam_run_step mgr \<noteq> None"
proof (cases "toHandle mgr")
  case (Cons m ms)
  obtain r where "fromMessage rcl_ops m = Some r" using fromMessage_defined [of rcl_ops m] by blast
  then show ?thesis by (simp add: sam_run_step_def Cons Let_def)
qed (simp add: sam_run_step_def)

end
