(* ===== verification/Connection.thy ===== *)
theory Connection
  imports Prelude "HOL-Library.Sublist"
begin

text \<open>
  \<^verbatim>\<open>src/connection/\<close>: the sending queue of a connection (\<open>ConnectionBase\<close> with the \<open>asyncWrite\<close> of
  \<open>WebsocketConnectionBase\<close>) and the connection manager. A websocket stream must not be given a
  second asynchronous write while one is outstanding, and the front of an empty queue must not be
  read or removed; both are \<open>None\<close> in the model and proved not to happen.
\<close>

section \<open>The sending queue\<close>

text \<open>
  \<open>posted\<close> are the calls of \<open>queueMessage\<close> that wait on the strand, \<open>writing\<close> is the frame of the
  outstanding asynchronous write and \<open>written\<close> are the frames that were written completely.
  \<open>accepted\<close> records the frames given to \<open>queueMessage\<close> and \<open>stop_requests\<close> the connections'
  requests to be stopped after a failed write.
\<close>

record conn =
  ws_open :: bool
  posted :: "bytes list"
  sendingQueue :: "bytes list"
  writing :: "bytes option"
  written :: "bytes list"
  accepted :: "bytes list"
  stop_requests :: nat

definition new_conn :: conn where
  "new_conn = \<lparr>ws_open = False, posted = [], sendingQueue = [], writing = None, written = [],
     accepted = [], stop_requests = 0\<rparr>"

definition asyncWrite :: "conn \<Rightarrow> conn option" where
  "asyncWrite c =
     (if \<not> ws_open c then Some (c\<lparr>sendingQueue := []\<rparr>)
      else case sendingQueue c of
        [] \<Rightarrow> None
      | v # _ \<Rightarrow> if writing c \<noteq> None then None else Some (c\<lparr>writing := Some v\<rparr>))"

definition queueMessage :: "bytes \<Rightarrow> conn \<Rightarrow> conn option" where
  "queueMessage v c =
     (let c = c\<lparr>sendingQueue := sendingQueue c @ [v], accepted := accepted c @ [v]\<rparr> in
      if length (sendingQueue c) = 1 then asyncWrite c else Some c)"

text \<open>\<open>send\<close> queues at once when it runs in the strand and posts to it otherwise.\<close>

definition send :: "bool \<Rightarrow> bytes \<Rightarrow> conn \<Rightarrow> conn option" where
  "send in_strand v c =
     (if \<not> in_strand then Some (c\<lparr>posted := posted c @ [v]\<rparr>) else queueMessage v c)"

definition run_posted :: "conn \<Rightarrow> conn option" where
  "run_posted c = (case posted c of [] \<Rightarrow> Some c | v # vs \<Rightarrow> queueMessage v (c\<lparr>posted := vs\<rparr>))"

text \<open>The completion handler of the outstanding write.\<close>

definition write_handler :: "bool \<Rightarrow> conn \<Rightarrow> conn option" where
  "write_handler failed c =
     (case sendingQueue c of
        [] \<Rightarrow> None
      | v # vs \<Rightarrow>
          let c = c\<lparr>sendingQueue := vs, writing := None\<rparr> in
          if failed then Some (c\<lparr>stop_requests := stop_requests c + 1\<rparr>)
          else let c = c\<lparr>written := written c @ [v]\<rparr> in
            if vs \<noteq> [] then asyncWrite c else Some c)"

text \<open>
  What can happen to a connection: a frame is sent from inside or outside the strand, a posted call
  runs, the outstanding write completes, the stream opens or closes.
\<close>

datatype conn_event = Send bool bytes | RunPosted | WriteDone bool | Opened | Closed

fun conn_apply :: "conn_event \<Rightarrow> conn \<Rightarrow> conn option" where
  "conn_apply (Send in_strand v) c = send in_strand v c"
| "conn_apply RunPosted c = run_posted c"
| "conn_apply (WriteDone failed) c = write_handler failed c"
| "conn_apply Opened c = Some (c\<lparr>ws_open := True\<rparr>)"
| "conn_apply Closed c = Some (c\<lparr>ws_open := False\<rparr>)"

text \<open>A write completes only when one is outstanding.\<close>

fun enabled :: "conn_event \<Rightarrow> conn \<Rightarrow> bool" where
  "enabled (WriteDone failed) c \<longleftrightarrow> writing c \<noteq> None"
| "enabled _ c \<longleftrightarrow> True"

inductive conn_step :: "conn \<Rightarrow> conn \<Rightarrow> bool" where
  step: "enabled e c \<Longrightarrow> conn_apply e c = Some c' \<Longrightarrow> conn_step c c'"

definition conn_inv :: "conn \<Rightarrow> bool" where
  "conn_inv c \<longleftrightarrow>
     (\<forall>v. writing c = Some v \<longrightarrow> sendingQueue c \<noteq> [] \<and> hd (sendingQueue c) = v)
     \<and> (writing c = None \<longrightarrow> sendingQueue c = [] \<or> stop_requests c > 0)
     \<and> subseq (written c @ sendingQueue c) (accepted c)"

lemma subseq_drop_middle: "subseq (xs @ y # ys) zs \<Longrightarrow> subseq (xs @ ys) zs"
proof -
  have "subseq (xs @ ys) (xs @ y # ys)" by (intro list_emb_append_mono list_emb_Cons) auto
  then show "subseq (xs @ y # ys) zs \<Longrightarrow> ?thesis" by (rule subseq_order.trans)
qed

lemma subseq_prefix_only: "subseq (xs @ ys) zs \<Longrightarrow> subseq xs zs"
proof -
  have "subseq xs (xs @ ys)" by (intro list_emb_prefix) auto
  then show "subseq (xs @ ys) zs \<Longrightarrow> ?thesis" by (rule subseq_order.trans)
qed

lemma queueMessage_inv:
  assumes "conn_inv c"
  shows "\<exists>c'. queueMessage v c = Some c' \<and> conn_inv c'"
proof -
  have sub: "subseq (written c @ sendingQueue c) (accepted c)" using assms by (simp add: conn_inv_def)
  then have all: "subseq (written c @ sendingQueue c @ [v]) (accepted c @ [v])"
    using list_emb_append_mono [OF sub, of "[v]" "[v]"] by simp
  have none: "subseq (written c) (accepted c @ [v])"
    using subseq_prefix_only [OF sub] by (rule list_emb_prefix)
  show ?thesis
  proof (cases "sendingQueue c")
    case Nil
    then have "writing c = None" using assms by (auto simp: conn_inv_def)
    with Nil show ?thesis
      using all none by (auto simp: queueMessage_def asyncWrite_def conn_inv_def Let_def)
  next
    case (Cons x xs)
    then show ?thesis using assms all by (auto simp: queueMessage_def conn_inv_def Let_def)
  qed
qed

lemma write_handler_inv:
  assumes "conn_inv c" and "writing c \<noteq> None"
  shows "\<exists>c'. write_handler failed c = Some c' \<and> conn_inv c'"
proof -
  obtain v vs where q: "sendingQueue c = v # vs" and sub: "subseq (written c @ v # vs) (accepted c)"
    using assms by (cases "sendingQueue c") (auto simp: conn_inv_def)
  from subseq_drop_middle [OF sub] have d: "subseq (written c @ vs) (accepted c)" .
  have w: "subseq (written c @ [v]) (accepted c)"
    using sub subseq_prefix_only [of "written c @ [v]" vs] by simp
  from sub have a: "subseq ((written c @ [v]) @ vs) (accepted c)" by simp
  show ?thesis
    using d w a by (auto simp: write_handler_def asyncWrite_def conn_inv_def q Let_def split: list.splits)
qed

text \<open>No reachable state gets stuck: every enabled event has a defined effect.\<close>

lemma conn_apply_inv:
  assumes "conn_inv c" and "enabled e c"
  shows "\<exists>c'. conn_apply e c = Some c' \<and> conn_inv c'"
proof (cases e)
  case (Send in_strand v)
  then show ?thesis
    using assms queueMessage_inv [OF assms(1)] by (auto simp: send_def conn_inv_def)
next
  case RunPosted
  have "conn_inv (c\<lparr>posted := vs\<rparr>)" for vs using assms(1) by (simp add: conn_inv_def)
  then show ?thesis
    using assms RunPosted queueMessage_inv by (auto simp: run_posted_def split: list.split)
next
  case (WriteDone failed)
  then show ?thesis using assms write_handler_inv by simp
qed (use assms in \<open>auto simp: conn_inv_def\<close>)

lemma conn_reachable_inv:
  assumes "conn_step\<^sup>*\<^sup>* new_conn c"
  shows "conn_inv c"
  using assms
proof (induction rule: rtranclp_induct)
  case base
  then show ?case by (simp add: conn_inv_def new_conn_def)
next
  case (step c c')
  then show ?case using conn_apply_inv by (fastforce elim: conn_step.cases)
qed

text \<open>While the stream stays open and no write fails, no frame is lost.\<close>

fun lossless_event :: "conn_event \<Rightarrow> bool" where
  "lossless_event (WriteDone failed) \<longleftrightarrow> \<not> failed"
| "lossless_event Closed \<longleftrightarrow> False"
| "lossless_event _ \<longleftrightarrow> True"

inductive lossless_step :: "conn \<Rightarrow> conn \<Rightarrow> bool" where
  step: "enabled e c \<Longrightarrow> lossless_event e \<Longrightarrow> conn_apply e c = Some c' \<Longrightarrow> lossless_step c c'"

definition lossless_inv :: "conn \<Rightarrow> bool" where
  "lossless_inv c \<longleftrightarrow>
     ws_open c \<and> stop_requests c = 0 \<and> accepted c = written c @ sendingQueue c
     \<and> writing c = (case sendingQueue c of [] \<Rightarrow> None | v # _ \<Rightarrow> Some v)"

lemma lossless_step_inv:
  assumes "lossless_step c c'" and "lossless_inv c"
  shows "lossless_inv c'"
  using assms
proof (induction rule: lossless_step.induct)
  case (step e c c')
  then show ?case
    by (cases e)
      (auto simp: lossless_inv_def send_def run_posted_def queueMessage_def asyncWrite_def
        write_handler_def Let_def split: list.splits if_splits)
qed

lemma lossless_start: "lossless_inv (new_conn\<lparr>ws_open := True\<rparr>)"
  by (simp add: lossless_inv_def new_conn_def)

lemma lossless_reachable:
  "lossless_step\<^sup>*\<^sup>* (new_conn\<lparr>ws_open := True\<rparr>) c \<Longrightarrow> lossless_inv c"
  by (induction rule: rtranclp_induct) (auto intro: lossless_start lossless_step_inv)

section \<open>The connection manager\<close>

text \<open>
  Connections are numbered in the order in which they are created. Stop requests are posted to the
  server's strand together with the close code and reason they were made with.
\<close>

datatype close_code = CC_none | CC_normal | CC_going_away | CC_internal_error

datatype manager_event =
    Thread_stopped nat | Thread_joined nat | Connection_closed nat close_code string | CloseCallback

record conn_manager =
  connections :: "nat list"
  next_connection :: nat
  stop_posts :: "(nat \<times> close_code \<times> string) list"
  mgr_events :: "manager_event list"

definition new_conn_manager :: conn_manager where
  "new_conn_manager = \<lparr>connections = [], next_connection = 0, stop_posts = [], mgr_events = []\<rparr>"

text \<open>\<open>started\<close> is the result of the connection's \<open>start\<close>.\<close>

definition startConnection :: "bool \<Rightarrow> conn_manager \<Rightarrow> conn_manager" where
  "startConnection started m =
     (let k = next_connection m; m = m\<lparr>next_connection := k + 1\<rparr>
      in if started then m\<lparr>connections := connections m @ [k]\<rparr> else m)"

definition stopConnection :: "nat \<Rightarrow> close_code \<Rightarrow> string \<Rightarrow> conn_manager \<Rightarrow> conn_manager" where
  "stopConnection k cc cr m = m\<lparr>stop_posts := stop_posts m @ [(k, cc, cr)]\<rparr>"

definition stopConnectionInternal :: "nat \<Rightarrow> close_code \<Rightarrow> string \<Rightarrow> bool \<Rightarrow> conn_manager \<Rightarrow> conn_manager" where
  "stopConnectionInternal k cc cr callCallback m =
     (if k \<in> set (connections m)
      then m\<lparr>connections := remove1 k (connections m),
             mgr_events := mgr_events m @ [Thread_stopped k, Thread_joined k, Connection_closed k cc cr]
               @ (if callCallback then [CloseCallback] else [])\<rparr>
      else m)"

definition run_stop_post :: "conn_manager \<Rightarrow> conn_manager" where
  "run_stop_post m =
     (case stop_posts m of
        [] \<Rightarrow> m
      | (k, cc, cr) # ps \<Rightarrow> stopConnectionInternal k cc cr True (m\<lparr>stop_posts := ps\<rparr>))"

function stopAllConnections :: "conn_manager \<Rightarrow> conn_manager" where
  "stopAllConnections m =
     (case connections m of
        [] \<Rightarrow> m
      | k # _ \<Rightarrow> stopAllConnections
          (stopConnectionInternal k CC_going_away ''Application shutdown'' False m))"
  by pat_completeness auto

termination
  by (relation "measure (\<lambda>m. length (connections m))") (auto simp: stopConnectionInternal_def)

declare stopAllConnections.simps [simp del]

definition isClientConnected :: "conn_manager \<Rightarrow> bool" where
  "isClientConnected m \<longleftrightarrow> connections m \<noteq> []"

inductive manager_step :: "conn_manager \<Rightarrow> conn_manager \<Rightarrow> bool" where
  start: "manager_step m (startConnection b m)"
| request: "manager_step m (stopConnection k cc cr m)"
| stop: "manager_step m (run_stop_post m)"
| stop_all: "manager_step m (stopAllConnections m)"

text \<open>How often a connection was closed, stopped and joined.\<close>

definition closed_count :: "nat \<Rightarrow> manager_event list \<Rightarrow> nat" where
  "closed_count k es = length (filter (\<lambda>e. case e of Connection_closed j _ _ \<Rightarrow> j = k | _ \<Rightarrow> False) es)"

definition connection_ok :: "conn_manager \<Rightarrow> nat \<Rightarrow> bool" where
  "connection_ok m k \<longleftrightarrow>
     closed_count k (mgr_events m) + (if k \<in> set (connections m) then 1 else 0) \<le> 1
     \<and> (closed_count k (mgr_events m) > 0 \<or> k \<in> set (connections m) \<longrightarrow> k < next_connection m)
     \<and> count_list (mgr_events m) (Thread_stopped k) = closed_count k (mgr_events m)
     \<and> count_list (mgr_events m) (Thread_joined k) = closed_count k (mgr_events m)"

definition manager_inv :: "conn_manager \<Rightarrow> bool" where
  "manager_inv m \<longleftrightarrow> distinct (connections m) \<and> (\<forall>k. connection_ok m k)"

lemma closed_count_append [simp]: "closed_count k (es @ es') = closed_count k es + closed_count k es'"
  by (simp add: closed_count_def)

lemma closed_count_Cons [simp]:
  "closed_count k [] = 0"
  "closed_count k (e # es) = (case e of Connection_closed j _ _ \<Rightarrow> if j = k then 1 else 0 | _ \<Rightarrow> 0) + closed_count k es"
  by (simp_all add: closed_count_def split: manager_event.split)

lemma manager_inv_stop:
  assumes "manager_inv m"
  shows "manager_inv (stopConnectionInternal k cc cr b m)"
proof (cases "k \<in> set (connections m)")
  case False
  then show ?thesis using assms by (simp add: stopConnectionInternal_def)
next
  case True
  have "connection_ok (stopConnectionInternal k cc cr b m) j" for j
  proof -
    have "connection_ok m j" "distinct (connections m)" using assms by (auto simp: manager_inv_def)
    with True show ?thesis
      by (auto simp: connection_ok_def stopConnectionInternal_def count_list_append)
  qed
  then show ?thesis
    using assms by (auto simp: manager_inv_def stopConnectionInternal_def)
qed

lemma manager_inv_stop_all: "manager_inv m \<Longrightarrow> manager_inv (stopAllConnections m)"
proof (induction m rule: stopAllConnections.induct)
  case (1 m)
  then show ?case
    by (subst stopAllConnections.simps) (auto split: list.split intro: manager_inv_stop)
qed

lemma stopAllConnections_empty: "connections (stopAllConnections m) = []"
proof (induction m rule: stopAllConnections.induct)
  case (1 m)
  then show ?case by (subst stopAllConnections.simps) (auto split: list.split)
qed

lemma manager_inv_step: "manager_step m m' \<Longrightarrow> manager_inv m \<Longrightarrow> manager_inv m'"
proof (induction rule: manager_step.induct)
  case (start m b)
  have "connection_ok (startConnection b m) j" for j
  proof -
    have "connection_ok m j" using start by (simp add: manager_inv_def)
    then show ?thesis
      by (auto simp: connection_ok_def startConnection_def Let_def less_Suc_eq)
  qed
  moreover have "connection_ok m (next_connection m)" using start by (simp add: manager_inv_def)
  then have "next_connection m \<notin> set (connections m)" by (auto simp: connection_ok_def)
  ultimately show ?case
    using start by (auto simp: manager_inv_def startConnection_def Let_def)
next
  case (stop m)
  have "manager_inv (m\<lparr>stop_posts := ps\<rparr>)" for ps
    using stop by (simp add: manager_inv_def connection_ok_def)
  then show ?case
    using stop by (auto simp: run_stop_post_def intro: manager_inv_stop split: list.split prod.split)
next
  case (stop_all m)
  then show ?case by (rule manager_inv_stop_all)
qed (simp add: manager_inv_def connection_ok_def stopConnection_def)

lemma manager_start: "manager_inv new_conn_manager"
  by (simp add: manager_inv_def connection_ok_def new_conn_manager_def)

lemma manager_reachable: "manager_step\<^sup>*\<^sup>* new_conn_manager m \<Longrightarrow> manager_inv m"
  by (induction rule: rtranclp_induct) (auto intro: manager_start manager_inv_step)

end
