(* ===== verification/WsConnection.thy ===== *)
theory WsConnection
  imports Publisher Subscriber ServiceActionManager Connection
begin

text \<open>
  \<^verbatim>\<open>src/websocketConnection/\<close>: a connection with its three managers. Received frames are parsed and
  routed by op-code; the server side validates the user key of the client before it starts the
  managers. Handlers run one at a time in the strand of the connection.
\<close>

section \<open>WebsocketConnectionBase\<close>

record ws_connection =
  ws_conn :: conn
  publisherManager :: publisher_manager
  subscriberManager :: subscriber_manager
  serviceActionManager :: sa_manager
  notification_log :: "string list"
  ws_stops :: "(close_code \<times> string) list"

definition new_ws_connection :: ws_connection where
  "new_ws_connection = \<lparr>ws_conn = new_conn, publisherManager = new_publisher_manager,
     subscriberManager = new_subscriber_manager, serviceActionManager = new_sa_manager,
     notification_log = [], ws_stops = []\<rparr>"

text \<open>
  \<open>onAuthorized\<close> fills and starts the managers. Starting a manager whose thread runs already
  terminates the program (\<open>None\<close>).
\<close>

definition onAuthorized :: "GlobalConfig \<Rightarrow> 'z ws_connection_scheme \<Rightarrow> 'z ws_connection_scheme option" where
  "onAuthorized cfg w = do {
     pm \<leftarrow> pm_startThread (pm_init cfg (publisherManager w));
     sm \<leftarrow> sm_startThread cfg (sm_init cfg (subscriberManager w));
     sam \<leftarrow> sam_startThread (sam_init cfg (serviceActionManager w));
     Some (w\<lparr>publisherManager := pm, subscriberManager := sm, serviceActionManager := sam\<rparr>)
   }"

definition ws_onStopThread :: "'z ws_connection_scheme \<Rightarrow> 'z ws_connection_scheme" where
  "ws_onStopThread w = w\<lparr>publisherManager := pm_stop (publisherManager w),
     subscriberManager := sm_stop (subscriberManager w),
     serviceActionManager := sam_stop (serviceActionManager w)\<rparr>"

text \<open>The routing of a received message; \<open>None\<close> when a notification has no null byte.\<close>

definition processMessage :: "rcl_message \<Rightarrow> 'z ws_connection_scheme \<Rightarrow> 'z ws_connection_scheme option" where
  "processMessage m w =
     (if isOpCode m NOTIFICATION then do {
        txt \<leftarrow> rcl_toString m;
        Some (w\<lparr>notification_log := notification_log w @ [txt]\<rparr>)
      }
      else if isOpCode m SUBSCRIPTION then Some (w\<lparr>subscriberManager := sm_subscribe m (subscriberManager w)\<rparr>)
      else if isOpCode m SERVICE_ACTION then Some (w\<lparr>serviceActionManager := sam_handle m (serviceActionManager w)\<rparr>)
      else Some (w\<lparr>publisherManager := pm_publish m (publisherManager w)\<rparr>))"

definition request_stop :: "close_code \<Rightarrow> string \<Rightarrow> 'z ws_connection_scheme \<Rightarrow> 'z ws_connection_scheme" where
  "request_stop cc cr w = w\<lparr>ws_stops := ws_stops w @ [(cc, cr)]\<rparr>"

definition ws_send :: "bytes \<Rightarrow> 'z ws_connection_scheme \<Rightarrow> 'z ws_connection_scheme option" where
  "ws_send frame w = map_option (\<lambda>c. w\<lparr>ws_conn := c\<rparr>) (send True frame (ws_conn w))"

text \<open>The outcome of an asynchronous read.\<close>

datatype read_result = Frame bytes | Peer_closed | Read_error

text \<open>The completion handler of \<open>asyncRead\<close>, with the virtual \<open>processMessage\<close> as an argument.\<close>

definition read_handler ::
    "(rcl_message \<Rightarrow> 'z ws_connection_scheme \<Rightarrow> 'z ws_connection_scheme option) \<Rightarrow> read_result
     \<Rightarrow> 'z ws_connection_scheme \<Rightarrow> 'z ws_connection_scheme option" where
  "read_handler process r w =
     (case r of
        Peer_closed \<Rightarrow> Some (request_stop CC_normal [] w)
      | Read_error \<Rightarrow> Some (request_stop CC_internal_error ''Error on read'' w)
      | Frame buf \<Rightarrow> do { m \<leftarrow> fromFlatBuffer buf; process m w })"

section \<open>Authentication\<close>

text \<open>
  \<^verbatim>\<open>include/connect/authentication.hpp\<close>: the user (empty when there is no valid authentication) and
  the end of the authentication in ISO form, if it is limited. The plugin's
  \<open>getAuthenticationFromUserKey\<close> is a parameter: it maps the user key and the present information to
  the information afterwards.
\<close>

record authentication =
  auth_user :: string
  auth_end :: "string option"

definition new_authentication :: authentication where
  "new_authentication = \<lparr>auth_user = [], auth_end = None\<rparr>"

definition isValid :: "authentication \<Rightarrow> bool" where
  "isValid a \<longleftrightarrow> auth_user a \<noteq> []"

definition hasEnd :: "authentication \<Rightarrow> bool" where
  "hasEnd a \<longleftrightarrow> auth_end a \<noteq> None"

type_synonym auth_plugin = "string \<Rightarrow> authentication \<Rightarrow> authentication"

section \<open>WebsocketServerConnection\<close>

text \<open>\<open>granted\<close> records the user keys that were found valid.\<close>

record server_connection = ws_connection +
  authentication_info :: "authentication option"
  authenticationCheckTimer :: bool
  authenticationEndTimer :: bool
  granted :: "string list"

definition new_server_connection :: "GlobalConfig \<Rightarrow> server_connection" where
  "new_server_connection cfg = ws_connection.extend new_ws_connection
     \<lparr>authentication_info = (if authenticationPlugin cfg \<noteq> [] then Some new_authentication else None),
      authenticationCheckTimer = False, authenticationEndTimer = False, granted = []\<rparr>"

definition server_onConnected :: "GlobalConfig \<Rightarrow> server_connection \<Rightarrow> server_connection option" where
  "server_onConnected cfg w =
     (if authenticationOmit cfg then onAuthorized cfg w
      else Some (w\<lparr>authenticationCheckTimer := True\<rparr>))"

definition authentication_frame :: "string \<Rightarrow> bytes" where
  "authentication_frame s = vec_getCombinedVector (forOpCodeAuthentication s)"

definition validateUserKeyForAuthentication ::
    "GlobalConfig \<Rightarrow> auth_plugin \<Rightarrow> string \<Rightarrow> server_connection \<Rightarrow> server_connection option" where
  "validateUserKeyForAuthentication cfg plugin key w =
     (if authenticationOmit cfg then ws_send (authentication_frame []) w
      else case authentication_info w of
        None \<Rightarrow> Some (request_stop CC_going_away ''Authentication cannot be validated'' w)
      | Some a \<Rightarrow>
          let a = plugin key a; w = w\<lparr>authentication_info := Some a\<rparr> in
          if \<not> isValid a then Some (request_stop CC_going_away ''No valid authentication'' w)
          else do {
            w \<leftarrow> onAuthorized cfg (w\<lparr>granted := granted w @ [key]\<rparr>);
            case auth_end a of
              Some t \<Rightarrow> ws_send (authentication_frame t) (w\<lparr>authenticationEndTimer := True\<rparr>)
            | None \<Rightarrow> ws_send (authentication_frame []) w
          })"

definition server_processMessage ::
    "GlobalConfig \<Rightarrow> auth_plugin \<Rightarrow> rcl_message \<Rightarrow> server_connection \<Rightarrow> server_connection option" where
  "server_processMessage cfg plugin m w =
     (if isOpCode m AUTHENTICATION then do {
        key \<leftarrow> rcl_toString m;
        validateUserKeyForAuthentication cfg plugin key w
      }
      else processMessage m w)"

definition authenticationEndCallback :: "server_connection \<Rightarrow> server_connection" where
  "authenticationEndCallback w = request_stop CC_going_away ''Authentication ended'' w"

text \<open>The callback reads the authentication information through a pointer that may be null.\<close>

definition validAuthenticationCheckCallback :: "server_connection \<Rightarrow> server_connection option" where
  "validAuthenticationCheckCallback w =
     (case authentication_info w of
        None \<Rightarrow> None
      | Some a \<Rightarrow> if isValid a then Some w
                  else Some (request_stop CC_going_away ''No valid authentication'' w))"

text \<open>The handlers of a server connection.\<close>

datatype server_event = Connected | Read read_result | CheckTimer | EndTimer | Conn conn_event

fun server_apply ::
    "GlobalConfig \<Rightarrow> auth_plugin \<Rightarrow> server_event \<Rightarrow> server_connection \<Rightarrow> server_connection option" where
  "server_apply cfg plugin Connected w = server_onConnected cfg w"
| "server_apply cfg plugin (Read r) w = read_handler (server_processMessage cfg plugin) r w"
| "server_apply cfg plugin CheckTimer w = validAuthenticationCheckCallback w"
| "server_apply cfg plugin EndTimer w = Some (authenticationEndCallback w)"
| "server_apply cfg plugin (Conn e) w = map_option (\<lambda>c. w\<lparr>ws_conn := c\<rparr>) (conn_apply e (ws_conn w))"

fun server_run ::
    "GlobalConfig \<Rightarrow> auth_plugin \<Rightarrow> server_event list \<Rightarrow> server_connection \<Rightarrow> server_connection option" where
  "server_run cfg plugin [] w = Some w"
| "server_run cfg plugin (e # es) w = do { w \<leftarrow> server_apply cfg plugin e w; server_run cfg plugin es w }"

section \<open>WebsocketClientConnection\<close>

text \<open>The client authenticates right after the handshake and is authorized at once.\<close>

definition client_connected :: "GlobalConfig \<Rightarrow> ws_connection \<Rightarrow> ws_connection option" where
  "client_connected cfg w = do {
     w \<leftarrow> ws_send (authentication_frame (userKey cfg)) w;
     onAuthorized cfg w
   }"

definition client_processMessage :: "rcl_message \<Rightarrow> ws_connection \<Rightarrow> ws_connection option" where
  "client_processMessage m w =
     (if isOpCode m AUTHENTICATION then map_option (\<lambda>_. w) (rcl_toString m)
      else processMessage m w)"

section \<open>The authorization gate\<close>

text \<open>Managers that hold no publisher, subscriber or plugin and do not run.\<close>

definition dormant :: "'z ws_connection_scheme \<Rightarrow> bool" where
  "dormant w \<longleftrightarrow>
     publishers (publisherManager w) = [] \<and> \<not> has_thread (pm_thread (publisherManager w))
     \<and> subscribers (subscriberManager w) = [] \<and> \<not> has_thread (sm_thread (subscriberManager w))
     \<and> serviceServers (serviceActionManager w) = [] \<and> serviceClients (serviceActionManager w) = []
     \<and> actionServers (serviceActionManager w) = [] \<and> actionClients (serviceActionManager w) = []
     \<and> \<not> has_thread (sam_thread (serviceActionManager w))"

lemma ws_send_frame:
  "ws_send f w = Some w' \<Longrightarrow> \<exists>c. w' = w\<lparr>ws_conn := c\<rparr>"
  by (auto simp: ws_send_def)

lemma ws_send_frame_server:
  "ws_send f (w :: server_connection) = Some w' \<Longrightarrow> dormant w' = dormant w \<and> granted w' = granted w
     \<and> authentication_info w' = authentication_info w"
  by (auto simp: ws_send_def dormant_def)

lemma request_stop_frame [simp]:
  "dormant (request_stop cc cr w) = dormant w"
  "granted (request_stop cc cr v) = granted v"
  "authentication_info (request_stop cc cr v) = authentication_info v"
  by (simp_all add: request_stop_def dormant_def)

lemma processMessage_frame:
  "processMessage m w = Some w' \<Longrightarrow> dormant w \<Longrightarrow> dormant w'"
  by (auto simp: processMessage_def dormant_def sm_subscribe_def sam_handle_def pm_publish_def
      split: if_splits bind_splits)

lemma processMessage_granted:
  "processMessage m w = Some w' \<Longrightarrow> granted w' = granted w \<and> authentication_info w' = authentication_info w"
  by (auto simp: processMessage_def split: if_splits bind_splits)

text \<open>A frame by which a client presents a user key.\<close>

definition presents :: "bytes \<Rightarrow> string \<Rightarrow> bool" where
  "presents buf key \<longleftrightarrow>
     (\<exists>m. fromFlatBuffer buf = Some m \<and> isOpCode m AUTHENTICATION \<and> rcl_toString m = Some key)"

text \<open>An event that presents a key the plugin may accept.\<close>

definition authorizing :: "auth_plugin \<Rightarrow> server_event \<Rightarrow> bool" where
  "authorizing plugin e \<longleftrightarrow>
     (\<exists>buf key a. e = Read (Frame buf) \<and> presents buf key \<and> isValid (plugin key a))"

lemma validate_frame:
  assumes "validateUserKeyForAuthentication cfg plugin key w = Some w'" and "\<not> authenticationOmit cfg"
    and "dormant w"
  shows "dormant w' \<or> (\<exists>a. isValid (plugin key a))"
proof (cases "\<exists>a. isValid (plugin key a)")
  case False
  then have "w' = request_stop CC_going_away ''Authentication cannot be validated'' w
      \<or> (\<exists>a. w' = request_stop CC_going_away ''No valid authentication'' (w\<lparr>authentication_info := Some a\<rparr>))"
    using assms(1,2) by (auto simp: validateUserKeyForAuthentication_def Let_def split: option.splits)
  moreover have "dormant (w\<lparr>authentication_info := Some a\<rparr>)" for a
    using assms(3) by (simp add: dormant_def)
  ultimately show ?thesis using assms(3) by auto
qed simp

lemma server_apply_gate:
  assumes "server_apply cfg plugin e w = Some w'" and "\<not> authenticationOmit cfg" and "dormant w"
  shows "dormant w' \<or> authorizing plugin e"
proof (cases e)
  case Connected
  then show ?thesis using assms by (auto simp: server_onConnected_def dormant_def)
next
  case (Read r)
  show ?thesis
  proof (cases r)
    case (Frame buf)
    then obtain m where m: "fromFlatBuffer buf = Some m" "server_processMessage cfg plugin m w = Some w'"
      using assms(1) Read by (auto simp: read_handler_def bind_eq_Some_conv)
    show ?thesis
    proof (cases "isOpCode m AUTHENTICATION")
      case True
      then obtain key where key: "rcl_toString m = Some key"
        and v: "validateUserKeyForAuthentication cfg plugin key w = Some w'"
        using m(2) by (auto simp: server_processMessage_def bind_eq_Some_conv)
      from validate_frame [OF v assms(2,3)] show ?thesis
        using True m(1) key by (auto simp: authorizing_def presents_def Read Frame)
    next
      case False
      then have "processMessage m w = Some w'" using m(2) by (simp add: server_processMessage_def)
      with assms(3) show ?thesis using processMessage_frame by blast
    qed
  qed (use assms Read in \<open>auto simp: read_handler_def\<close>)
next
  case CheckTimer
  then show ?thesis
    using assms by (auto simp: validAuthenticationCheckCallback_def split: option.splits if_splits)
next
  case EndTimer
  then show ?thesis using assms by (auto simp: authenticationEndCallback_def)
next
  case (Conn x5)
  then show ?thesis using assms by (auto simp: dormant_def)
qed

lemma server_gate:
  assumes "server_run cfg plugin es w = Some w'" and "\<not> authenticationOmit cfg" and "dormant w"
  shows "dormant w' \<or> (\<exists>e \<in> set es. authorizing plugin e)"
  using assms
proof (induction es arbitrary: w)
  case (Cons e es)
  then obtain v where v: "server_apply cfg plugin e w = Some v" "server_run cfg plugin es v = Some w'"
    by (auto simp: bind_eq_Some_conv)
  from server_apply_gate [OF v(1) Cons.prems(2,3)] Cons.IH [OF v(2) Cons.prems(2)] show ?case
    by auto
qed simp

lemma dormant_new: "dormant (new_server_connection cfg)"
  by (simp add: dormant_def new_server_connection_def new_ws_connection_def ws_connection.extend_def
      new_publisher_manager_def new_subscriber_manager_def new_sa_manager_def new_thread_def)

text \<open>The authentication information is absent exactly when no plugin is configured.\<close>

lemma onAuthorized_frame:
  "onAuthorized cfg (w :: server_connection) = Some w' \<Longrightarrow> authentication_info w' = authentication_info w"
  by (auto simp: onAuthorized_def bind_eq_Some_conv)

lemma validate_info:
  assumes "validateUserKeyForAuthentication cfg plugin key w = Some w'" and "authentication_info w \<noteq> None"
  shows "authentication_info w' \<noteq> None"
proof -
  obtain a where a: "authentication_info w = Some a" using assms(2) by blast
  show ?thesis
    using assms(1) a
    by (auto simp: validateUserKeyForAuthentication_def Let_def bind_eq_Some_conv
        dest!: ws_send_frame_server onAuthorized_frame split: if_splits option.splits)
qed

lemma server_apply_info:
  assumes "server_apply cfg plugin e w = Some w'" and "authentication_info w \<noteq> None"
  shows "authentication_info w' \<noteq> None"
proof (cases e)
  case (Read r)
  show ?thesis
  proof (cases r)
    case (Frame buf)
    then obtain m where "server_processMessage cfg plugin m w = Some w'"
      using assms(1) Read by (auto simp: read_handler_def bind_eq_Some_conv)
    then show ?thesis
      using assms(2) validate_info processMessage_granted
      by (fastforce simp: server_processMessage_def bind_eq_Some_conv split: if_splits)
  qed (use assms Read in \<open>auto simp: read_handler_def\<close>)
next
  case Connected
  then show ?thesis
    using assms onAuthorized_frame by (fastforce simp: server_onConnected_def split: if_splits)
qed (use assms in \<open>auto simp: validAuthenticationCheckCallback_def authenticationEndCallback_def
    split: option.splits if_splits\<close>)

lemma server_run_info:
  "server_run cfg plugin es w = Some w' \<Longrightarrow> authentication_info w \<noteq> None \<Longrightarrow> authentication_info w' \<noteq> None"
  by (induction es arbitrary: w) (auto simp: bind_eq_Some_conv dest: server_apply_info)

text \<open>Starting the managers a second time terminates the program.\<close>

lemma pm_startThread_running: "pm_startThread mgr = Some mgr' \<Longrightarrow> has_thread (pm_thread mgr')"
  by (auto simp: pm_startThread_def startThread_def Let_def bind_eq_Some_conv split: if_splits)

lemma pm_add_thread: "pm_thread (foldl pm_add mgr ts) = pm_thread mgr"
  by (induction ts arbitrary: mgr) (auto simp: pm_add_def)

lemma onAuthorized_running:
  assumes "onAuthorized cfg w = Some w'"
  shows "has_thread (pm_thread (publisherManager w'))"
  using assms by (auto simp: onAuthorized_def bind_eq_Some_conv dest: pm_startThread_running)

lemma onAuthorized_again:
  "has_thread (pm_thread (publisherManager w)) \<Longrightarrow> onAuthorized cfg w = None"
  by (simp add: onAuthorized_def pm_startThread_def pm_init_def pm_add_thread)

end
