(* ===== verification/Bridge.thy ===== *)
theory Bridge
  imports PublisherFlow WsConnection
begin

text \<open>
  The two ends of a topic and of a service together: what the callbacks of a threaded subscriber
  queue, its thread sends as frames, which the peer parses, routes and publishes.
\<close>

section \<open>Topics\<close>

text \<open>\<open>n\<close> iterations of the subscriber's thread and the frames they send.\<close>

primrec send_iterations :: "codecs \<Rightarrow> nat \<Rightarrow> subscriber \<Rightarrow> (subscriber \<times> bytes list) option" where
  "send_iterations c 0 s = Some (s, [])"
| "send_iterations c (Suc n) s = do {
     (s, frame) \<leftarrow> threaded_send c s;
     (s, frames) \<leftarrow> send_iterations c n s;
     Some (s, opt_list frame @ frames)
   }"

definition queued :: "Topic_t \<Rightarrow> bytes list \<Rightarrow> subscriber" where
  "queued t msgs = (SubscriberBase t)\<lparr>toSend := map (fromSerializedMessage (tp_channel t)) msgs\<rparr>"

lemma callback_queued: "threaded_callback msg (queued t ms) = queued t (ms @ [msg])"
  by (simp add: threaded_callback_def queued_def SubscriberBase_def)

lemma callbacks_queued:
  "foldl (\<lambda>s msg. threaded_callback msg s) (queued t ms) msgs = queued t (ms @ msgs)"
  by (induction msgs arbitrary: ms) (simp_all add: callback_queued)

lemma threaded_send_queued:
  "threaded_send c (queued t (msg # msgs)) =
     map_option (\<lambda>frame. (queued t msgs, Some frame))
       (getCompressedCombinedVector vector_ops (base_compress_ops vector_ops) c
          (fromSerializedMessage (tp_channel t) msg) (tp_compression t))"
proof -
  let ?m = "fromSerializedMessage (tp_channel t) msg"
  let ?f = "getCompressedCombinedVector vector_ops (base_compress_ops vector_ops) c ?m (tp_compression t)"
  have "(if compression_flag (queued t (msg # msgs)) then ?f else Some (vec_getCombinedVector ?m)) = ?f"
    by (simp add: queued_def SubscriberBase_def getCompressedCombinedVector_def vector_ops_def)
  moreover have "toSend (queued t (msg # msgs)) = ?m # map (fromSerializedMessage (tp_channel t)) msgs"
    "sub_topic (queued t (msg # msgs)) = t"
    "queued t (msg # msgs)\<lparr>toSend := map (fromSerializedMessage (tp_channel t)) msgs\<rparr> = queued t msgs"
    by (simp_all add: queued_def SubscriberBase_def)
  ultimately show ?thesis
    by (cases ?f; cases "compression_flag (queued t (msg # msgs))") (auto simp: threaded_send_def)
qed

lemma send_iterations_queued:
  assumes "codecs_ok c" and "tp_useOwnThread pt"
  shows "\<exists>frames rs. send_iterations c (length msgs) (queued t msgs) = Some (queued t [], frames)
    \<and> map fromFlatBuffer frames = map Some rs \<and> list_all (\<lambda>r. channel r = tp_channel t) rs
    \<and> payloads c pt rs = msgs"
proof (induction msgs)
  case (Cons msg msgs)
  obtain frame r where f: "getCompressedCombinedVector vector_ops (base_compress_ops vector_ops) c
      (fromSerializedMessage (tp_channel t) msg) (tp_compression t) = Some frame"
    and r: "fromFlatBuffer frame = Some r" "channel r = tp_channel t" "received_payload c r = Some msg"
    using topic_frame [OF assms(1)] by blast
  from Cons obtain frames rs where rest: "send_iterations c (length msgs) (queued t msgs) = Some (queued t [], frames)"
    "map fromFlatBuffer frames = map Some rs" "list_all (\<lambda>r. channel r = tp_channel t) rs" "payloads c pt rs = msgs"
    by blast
  have "send_iterations c (length (msg # msgs)) (queued t (msg # msgs)) = Some (queued t [], frame # frames)"
    by (simp add: threaded_send_queued f rest(1))
  moreover have "payloads c pt (r # rs) = msg # msgs"
    using assms(2) r(3) rest(4) by (simp add: topic_payload_def)
  ultimately show ?case
    using r rest by (intro exI [of _ "frame # frames"] exI [of _ "r # rs"]) simp
qed simp

section \<open>Services and actions\<close>

text \<open>A delivered frame is handed to the plugin its op-code and channel name.\<close>

lemma delivered_routed:
  assumes "sa_delivered mcpy c frame m gid data" and "configured cfg (addressee (sa_opcode m) (sa_channel m))"
    and mgr: "serviceActionManager w = (sam_init cfg new_sa_manager)\<lparr>toHandle := [], sam_thread := th\<rparr>"
    and "channel m = opcode SERVICE_ACTION"
  shows "\<exists>r w' mgr' s. fromFlatBuffer frame = Some r \<and> processMessage r w = Some w'
    \<and> sam_run_step (serviceActionManager w') = Some (mgr', Some (addressee (sa_opcode m) (sa_channel m), s))
    \<and> getGID s = Some gid \<and> received_data mcpy c s = Some data"
proof -
  obtain r s where r: "fromFlatBuffer frame = Some r" "fromMessage rcl_ops r = Some (Some s)"
    "channel r = channel m" and s: "sa_channel s = sa_channel m" "sa_opcode s = sa_opcode m"
    "getGID s = Some gid" "received_data mcpy c s = Some data"
    using assms(1) by (auto simp: sa_delivered_def)
  have p: "processMessage r w = Some (w\<lparr>serviceActionManager := sam_handle r (serviceActionManager w)\<rparr>)"
    using r(3) assms(4) by (simp add: processMessage_def isOpCode_def del: opcode.simps)
  have q: "sam_handle r (serviceActionManager w)
      = (sam_init cfg new_sa_manager)\<lparr>toHandle := [r], sam_thread := th\<rparr>"
    by (simp add: mgr sam_handle_def)
  have "route ((sam_init cfg new_sa_manager)\<lparr>toHandle := [], sam_thread := th\<rparr>) s
      = Some (addressee (sa_opcode m) (sa_channel m))"
    using assms(2) s by (simp add: route_init Let_def)
  then have "sam_run_step (sam_handle r (serviceActionManager w))
      = Some ((sam_init cfg new_sa_manager)\<lparr>toHandle := [], sam_thread := th\<rparr>,
          Some (addressee (sa_opcode m) (sa_channel m), s))"
    unfolding q using r(2) by (simp add: sam_run_step_def Let_def)
  with r(1) p s show ?thesis by auto
qed

end
