(* ===== verification/ServiceActionHandle.thy ===== *)
theory ServiceActionHandle
  imports ServiceActionManager "HOL-Library.List_Lexorder" "HOL-Library.Char_ord"
begin

text \<open>
  \<^verbatim>\<open>include/connect/serviceActionHandle.hpp\<close> and the common base of the plugins
  (\<^verbatim>\<open>service/service.hpp\<close>, \<^verbatim>\<open>action/action.hpp\<close>, which agree line by line): the handle of a running
  call, the map from goal ids to handles, the queue of handles to remove and stopping. Handles are
  shared between the map, the queue and the threads, so they live in a heap and are named by
  references.
\<close>

section \<open>ServiceActionHandle\<close>

record handle =
  gID :: bytes
  sequenceNumber :: int
  clientGoalHandle :: bool
  goalResponse :: "sa_message option"
  handlingGoal :: bool
  cancelResponse :: "sa_message option"
  handlingCancel :: bool
  waitQueue :: "sa_message list"
  handlingWait :: bool
  h_done :: bool

definition new_handle :: "bytes \<Rightarrow> int \<Rightarrow> handle" where
  "new_handle gid seq = \<lparr>gID = gid, sequenceNumber = seq, clientGoalHandle = False,
     goalResponse = None, handlingGoal = False, cancelResponse = None, handlingCancel = False,
     waitQueue = [], handlingWait = False, h_done = False\<rparr>"

definition gIDString :: "bytes \<Rightarrow> string" where
  "gIDString gid = map char_of_byte gid @ [CHR 0x00]"

text \<open>The request header that the handle was made from: the writer's id and the sequence number.\<close>

definition requestHeader :: "handle \<Rightarrow> bytes \<times> int" where
  "requestHeader h = (gID h, sequenceNumber h)"

lemma new_handle_simps [simp]:
  "gID (new_handle gid seq) = gid" "goalResponse (new_handle gid seq) = None"
  "handlingGoal (new_handle gid seq) = False" "waitQueue (new_handle gid seq) = []"
  "h_done (new_handle gid seq) = False" "cancelResponse (new_handle gid seq) = None"
  "handlingCancel (new_handle gid seq) = False" "handlingWait (new_handle gid seq) = False"
  "clientGoalHandle (new_handle gid seq) = False"
  by (simp_all add: new_handle_def)

lemma requestHeader_new: "requestHeader (new_handle gid seq) = (gid, seq)"
  by (simp add: requestHeader_def new_handle_def)

lemma byte_of_char_of_byte: "byte_of_char (char_of_byte b) = b"
proof -
  have "unat b < 256" using unsigned_less [of b] by simp
  then show ?thesis by (simp add: byte_of_char_def char_of_byte_def)
qed

lemma char_of_byte_inj: "char_of_byte a = char_of_byte b \<longleftrightarrow> a = b"
  by (metis byte_of_char_of_byte)

lemma gIDString_inject [simp]: "gIDString a = gIDString b \<longleftrightarrow> a = b"
  by (auto simp: gIDString_def char_of_byte_inj inj_on_def dest!: map_inj_on)

lemma getGIDString_eq: "getGIDString m = map_option gIDString (getGID m)"
  by (simp add: getGIDString_def gIDString_def [abs_def])

section \<open>The base of the plugins\<close>

text \<open>
  \<open>sent\<close> records the calls of \<open>send\<close> with the handle on whose behalf they were made (none for the
  answers that \<open>handle\<close> gives itself).
\<close>

record plugin_state =
  p_definition :: Service_Action_t
  heap :: "handle list"
  handles :: "(string \<times> nat) list"
  toRemove :: "nat list"
  p_stopping :: bool
  sent :: "(nat option \<times> ServiceActionOpCode \<times> bytes \<times> bytes) list"

definition plugin_init :: "Service_Action_t \<Rightarrow> plugin_state" where
  "plugin_init d = \<lparr>p_definition = d, heap = [], handles = [], toRemove = [], p_stopping = False, sent = []\<rparr>"

text \<open>The frame that \<open>send\<close> passes to the connection.\<close>

definition plugin_frame ::
    "copy_fun \<Rightarrow> codecs \<Rightarrow> Service_Action_t \<Rightarrow> ServiceActionOpCode \<Rightarrow> bytes \<Rightarrow> bytes \<Rightarrow> bytes option" where
  "plugin_frame mcpy c d sop data gid = do {
     m \<leftarrow> forServiceAction (sa_def_channel d) sop data gid;
     if compressor_of_profile (sa_compression d) \<noteq> NONE
     then getCompressedCombinedVector (sa_ops mcpy) sa_compress_ops c m (sa_compression d)
     else Some (sa_getCombinedVector m)
   }"

definition p_send ::
    "nat option \<Rightarrow> ServiceActionOpCode \<Rightarrow> bytes \<Rightarrow> bytes \<Rightarrow> 'z plugin_state_scheme \<Rightarrow> 'z plugin_state_scheme" where
  "p_send origin sop data gid p = p\<lparr>sent := sent p @ [(origin, sop, data, gid)]\<rparr>"

text \<open>Changing the handle behind a reference.\<close>

definition upd :: "nat \<Rightarrow> (handle \<Rightarrow> handle) \<Rightarrow> 'z plugin_state_scheme \<Rightarrow> 'z plugin_state_scheme" where
  "upd r f p = p\<lparr>heap := (heap p)[r := f (heap p ! r)]\<rparr>"

text \<open>
  \<open>make_shared\<close> and the insertion into the map, which keeps the handle that is registered under the
  same goal id. The new reference is \<open>length (heap p)\<close>.
\<close>

definition register :: "handle \<Rightarrow> 'z plugin_state_scheme \<Rightarrow> 'z plugin_state_scheme" where
  "register h p = p\<lparr>heap := heap p @ [h],
     handles := map_insert_new (gIDString (gID h)) (length (heap p)) (handles p)\<rparr>"

definition lookup :: "bytes \<Rightarrow> 'z plugin_state_scheme \<Rightarrow> nat option" where
  "lookup gid p = map_of (handles p) (gIDString gid)"

definition removeHandle :: "nat \<Rightarrow> 'z plugin_state_scheme \<Rightarrow> 'z plugin_state_scheme" where
  "removeHandle r p = p\<lparr>toRemove := toRemove p @ [r]\<rparr>"

text \<open>
  One iteration of \<open>executeRemove\<close>: it joins the thread of the handle, so it proceeds only when that
  thread has \<open>ended\<close>, and erases whatever is registered under the goal id of the handle.
\<close>

definition executeRemove :: "(nat \<Rightarrow> bool) \<Rightarrow> 'z plugin_state_scheme \<Rightarrow> 'z plugin_state_scheme option" where
  "executeRemove ended p =
     (if p_stopping p then None
      else case toRemove p of
        [] \<Rightarrow> None
      | r # rs \<Rightarrow>
          if ended r
          then Some (p\<lparr>toRemove := rs, handles := map_erase (gIDString (gID (heap p ! r))) (handles p)\<rparr>)
          else None)"

text \<open>
  \<open>stop\<close> sets the flag, joins the thread of every registered handle and erases it; at the end it
  empties the queue of handles to remove.
\<close>

definition stop_begin :: "'z plugin_state_scheme \<Rightarrow> 'z plugin_state_scheme" where
  "stop_begin p = p\<lparr>p_stopping := True\<rparr>"

definition stop_join :: "(nat \<Rightarrow> bool) \<Rightarrow> 'z plugin_state_scheme \<Rightarrow> 'z plugin_state_scheme option" where
  "stop_join ended p =
     (if \<not> p_stopping p then None
      else case handles p of
        [] \<Rightarrow> Some (p\<lparr>toRemove := []\<rparr>)
      | (k, r) # _ \<Rightarrow> if ended r then Some (p\<lparr>handles := map_erase k (handles p)\<rparr>) else None)"

text \<open>The common start of every reading of a message: decompress it if it is compressed.\<close>

definition unpack :: "copy_fun \<Rightarrow> codecs \<Rightarrow> sa_message \<Rightarrow> (bool \<times> sa_message) option" where
  "unpack mcpy c m = (if isCompressed m then decompress (sa_ops mcpy) c m else Some (True, m))"

lemma received_data_unpack:
  "received_data mcpy c m = Some d \<longleftrightarrow> (\<exists>m'. unpack mcpy c m = Some (True, m') \<and> getData m' = Some d)"
  by (auto simp: received_data_def unpack_def split: option.splits bool.splits)

section \<open>Messages that reach a plugin\<close>

text \<open>A message that \<open>fromMessage\<close> accepts has the layout of the extended header.\<close>

lemma fromMessage_wf:
  assumes "fromMessage rcl_ops m = Some (Some s)"
  shows "sa_wf s"
proof -
  obtain hdr gid data where s: "getGID s = Some gid" "sa_vec s = hdr @ gid @ data"
    and v: "rcl_getCombinedVector m = hdr @ gid @ data"
    and hdr: "length hdr = (if compressor m = NONE then 5 else 9)"
      "unat (hdr ! (length hdr - 1)) = length gid" "sa_code (sa_opcode s) = hdr ! (length hdr - 2)"
      "sa_channel s = hdr ! (length hdr - 3)" "channel s = channel m" "compressor s = compressor m"
    using fromMessage_spans [OF assms] by auto
  have spans: "gID_span s = (length hdr, length gid)" "data_span s = (length hdr + length gid, length data)"
    using assms hdr(1,2) v
    by (auto simp: fromMessage_def ServiceActionMessage_def Let_def nth_append split: if_splits option.splits)
  have "unat b < 256" for b :: byte using unsigned_less [of b] by simp
  then have len: "length gid < 256" using hdr(2) by metis
  have last: "hdr ! (length hdr - 1) = word_of_nat (length gid)" by (simp flip: hdr(2))
  show ?thesis
  proof (cases "compressor m = NONE")
    case True
    then have "hdr = [hdr ! 0, hdr ! 1, hdr ! 2, hdr ! 3, hdr ! 4]"
      using hdr(1) by (auto simp: numeral_eq_Suc length_Suc_conv)
    moreover have "take 2 hdr = [channel m, compressor_code NONE]"
      using True v hdr(1) by (auto simp: rcl_getCombinedVector_def numeral_eq_Suc length_Suc_conv)
    then have "hdr ! 0 = channel m" "hdr ! 1 = compressor_code NONE"
      using hdr(1) True by (auto simp: numeral_eq_Suc length_Suc_conv)
    ultimately have "hdr = sa_prefix s [] gid" using hdr last True by (simp add: sa_prefix_def)
    with s spans len True hdr show ?thesis by (auto simp: sa_wf_def sa_layout_def)
  next
    case False
    then obtain a0 a1 a2 a3 a4 a5 a6 a7 a8 where h: "hdr = [a0, a1, a2, a3, a4, a5, a6, a7, a8]"
      using hdr(1) by (auto simp: numeral_eq_Suc length_Suc_conv)
    have "a0 = channel m" "a1 = compressor_code (compressor m)"
      using False v h by (auto simp: rcl_getCombinedVector_def)
    then have "hdr = sa_prefix s [a2, a3, a4, a5] gid" using hdr last h by (simp add: sa_prefix_def)
    with s spans len False hdr h show ?thesis
      unfolding sa_wf_def sa_layout_def by (intro exI [of _ gid] exI [of _ data] exI [of _ "[a2, a3, a4, a5]"]) simp
  qed
qed

text \<open>The copy in \<open>store\<close> moves every goal id.\<close>

definition copy_ok :: "copy_fun \<Rightarrow> bool" where
  "copy_ok mcpy \<longleftrightarrow> (\<forall>n < 256. gid_copy_ok mcpy n)"

lemma copy_ok_memmove [simp]: "copy_ok memmove"
  by (simp add: copy_ok_def)

lemma sa_wf_for_copy_ok: "copy_ok mcpy \<Longrightarrow> sa_wf s \<Longrightarrow> sa_wf_for mcpy s"
proof -
  assume ok: "copy_ok mcpy" and "sa_wf s"
  then obtain gid data where l: "sa_layout s gid data" by (auto simp: sa_wf_def)
  then have "length gid < 256" by (auto simp: sa_layout_def)
  with ok l show ?thesis unfolding sa_wf_for_def copy_ok_def by blast
qed

lemma unpack_spec:
  assumes "sa_wf_for mcpy m"
  shows "\<exists>b m' d. unpack mcpy c m = Some (b, m') \<and> sa_wf_for mcpy m' \<and> getGID m' = getGID m
    \<and> sa_opcode m' = sa_opcode m \<and> getData m' = Some d \<and> (b \<longrightarrow> \<not> isCompressed m') \<and> (\<not> b \<longrightarrow> m' = m)"
proof (cases "isCompressed m")
  case True
  obtain b m' where d: "decompress (sa_ops mcpy) c m = Some (b, m')"
    using sa.decompress_defined [OF assms] by blast
  show ?thesis
  proof (cases b)
    case True
    then show ?thesis
      using sa.decompress_True [OF assms, of c m'] d \<open>isCompressed m\<close>
      by (auto simp: unpack_def sa_routing_def)
  next
    case False
    then have "m' = m" using d sa.decompress_False [of mcpy c m m'] by simp
    then show ?thesis
      using d False assms True by (auto simp: unpack_def sa_wf_for_def dest: sa_layout_data)
  qed
next
  case False
  then show ?thesis using assms by (auto simp: unpack_def sa_wf_for_def dest: sa_layout_data)
qed

section \<open>Access lemmas\<close>

lemma p_send_simps [simp]:
  "heap (p_send og op d g p) = heap p" "handles (p_send og op d g p) = handles p"
  "toRemove (p_send og op d g p) = toRemove p" "p_stopping (p_send og op d g p) = p_stopping p"
  "p_definition (p_send og op d g p) = p_definition p"
  "sent (p_send og op d g p) = sent p @ [(og, op, d, g)]"
  by (simp_all add: p_send_def)

lemma upd_simps [simp]:
  "handles (upd r f p) = handles p" "toRemove (upd r f p) = toRemove p" "sent (upd r f p) = sent p"
  "p_stopping (upd r f p) = p_stopping p" "p_definition (upd r f p) = p_definition p"
  "length (heap (upd r f p)) = length (heap p)"
  by (simp_all add: upd_def)

lemma heap_upd_eq: "heap (upd r f p) = (heap p)[r := f (heap p ! r)]"
  by (simp add: upd_def)

lemma heap_upd: "heap (upd r f p) ! q = (if q = r \<and> r < length (heap p) then f (heap p ! r) else heap p ! q)"
  by (cases "r < length (heap p)") (auto simp: upd_def nth_list_update list_update_beyond)

lemma removeHandle_simps [simp]:
  "heap (removeHandle r p) = heap p" "handles (removeHandle r p) = handles p"
  "toRemove (removeHandle r p) = toRemove p @ [r]" "p_stopping (removeHandle r p) = p_stopping p"
  "p_definition (removeHandle r p) = p_definition p" "sent (removeHandle r p) = sent p"
  by (simp_all add: removeHandle_def)

lemma register_simps [simp]:
  "heap (register h p) = heap p @ [h]" "toRemove (register h p) = toRemove p"
  "p_stopping (register h p) = p_stopping p" "p_definition (register h p) = p_definition p"
  "sent (register h p) = sent p"
  by (simp_all add: register_def)

lemma lookup_register:
  "lookup gid (register h p) = (if gid = gID h \<and> lookup gid p = None then Some (length (heap p)) else lookup gid p)"
  by (auto simp: lookup_def register_def)

lemma lookup_frame [simp]:
  "lookup gid (p_send og op d g p) = lookup gid p" "lookup gid (upd r f p) = lookup gid p"
  "lookup gid (removeHandle r p) = lookup gid p"
  by (simp_all add: lookup_def)

lemma stop_begin_simps [simp]:
  "heap (stop_begin p) = heap p" "handles (stop_begin p) = handles p" "toRemove (stop_begin p) = toRemove p"
  "p_stopping (stop_begin p) = True" "sent (stop_begin p) = sent p" "p_definition (stop_begin p) = p_definition p"
  by (simp_all add: stop_begin_def)

section \<open>How the handles evolve\<close>

text \<open>
  Every operation of every plugin keeps the goal id of a handle, registers only handles it has just
  made, under their goal id, and queues only existing handles for removal.
\<close>

definition evolve :: "'z plugin_state_scheme \<Rightarrow> 'z plugin_state_scheme \<Rightarrow> bool" where
  "evolve p q \<longleftrightarrow> length (heap p) \<le> length (heap q)
     \<and> (\<forall>r < length (heap p). gID (heap q ! r) = gID (heap p ! r))
     \<and> (\<forall>k r. map_of (handles q) k = Some r \<longrightarrow> map_of (handles p) k = Some r
          \<or> length (heap p) \<le> r \<and> r < length (heap q) \<and> gIDString (gID (heap q ! r)) = k)
     \<and> (\<forall>r \<in> set (toRemove q). r \<in> set (toRemove p) \<or> r < length (heap q))
     \<and> (map_ok (handles p) \<longrightarrow> map_ok (handles q))
     \<and> (p_stopping p \<longrightarrow> p_stopping q) \<and> p_definition q = p_definition p"

text \<open>The well-formedness of a plugin: every reference is valid and registered under its goal id.\<close>

definition plugin_wf :: "'z plugin_state_scheme \<Rightarrow> bool" where
  "plugin_wf p \<longleftrightarrow> map_ok (handles p)
     \<and> (\<forall>k r. map_of (handles p) k = Some r \<longrightarrow> r < length (heap p) \<and> gIDString (gID (heap p ! r)) = k)
     \<and> (\<forall>r \<in> set (toRemove p). r < length (heap p))"

named_theorems evolves

lemma evolve_refl [evolves]: "evolve p p"
  by (auto simp: evolve_def)

lemma evolve_trans:
  assumes "evolve p q" and "evolve q s"
  shows "evolve p s"
proof -
  have len: "length (heap p) \<le> length (heap q)" "length (heap q) \<le> length (heap s)"
    and gid: "\<And>r. r < length (heap q) \<Longrightarrow> gID (heap s ! r) = gID (heap q ! r)"
      "\<And>r. r < length (heap p) \<Longrightarrow> gID (heap q ! r) = gID (heap p ! r)"
    and reg: "\<And>k r. map_of (handles s) k = Some r \<Longrightarrow> map_of (handles q) k = Some r
        \<or> length (heap q) \<le> r \<and> r < length (heap s) \<and> gIDString (gID (heap s ! r)) = k"
      "\<And>k r. map_of (handles q) k = Some r \<Longrightarrow> map_of (handles p) k = Some r
        \<or> length (heap p) \<le> r \<and> r < length (heap q) \<and> gIDString (gID (heap q ! r)) = k"
    and rem: "\<And>r. r \<in> set (toRemove s) \<Longrightarrow> r \<in> set (toRemove q) \<or> r < length (heap s)"
      "\<And>r. r \<in> set (toRemove q) \<Longrightarrow> r \<in> set (toRemove p) \<or> r < length (heap q)"
    using assms by (auto simp: evolve_def)
  have "map_of (handles p) k = Some r
      \<or> length (heap p) \<le> r \<and> r < length (heap s) \<and> gIDString (gID (heap s ! r)) = k"
    if "map_of (handles s) k = Some r" for k r
    using reg(1) [OF that] reg(2) [of k r] len gid by fastforce
  moreover have "gID (heap s ! r) = gID (heap p ! r)" if "r < length (heap p)" for r
    using gid len(1) that by simp
  moreover have "r \<in> set (toRemove p) \<or> r < length (heap s)" if "r \<in> set (toRemove s)" for r
    using rem(1) [OF that] rem(2) [of r] len(2) by linarith
  ultimately show ?thesis using assms len unfolding evolve_def by auto
qed

lemma evolve_send [evolves]: "evolve p q \<Longrightarrow> evolve p (p_send og op d g q)"
  by (simp add: evolve_def)

lemma evolve_upd [evolves]: "evolve p q \<Longrightarrow> (\<And>h. gID (f h) = gID h) \<Longrightarrow> evolve p (upd r f q)"
  by (auto simp: evolve_def heap_upd)

lemma evolve_remove [evolves]: "evolve p q \<Longrightarrow> r < length (heap q) \<Longrightarrow> evolve p (removeHandle r q)"
  by (auto simp: evolve_def)

lemma evolve_register [evolves]: "evolve p q \<Longrightarrow> evolve p (register h q)"
  by (auto simp: evolve_def register_def nth_append map_ok_insert_new split: if_splits)

lemma evolve_stop_begin [evolves]: "evolve p q \<Longrightarrow> evolve p (stop_begin q)"
  by (simp add: evolve_def)

lemma evolve_executeRemove: "executeRemove ended p = Some q \<Longrightarrow> evolve p q"
  by (auto simp: executeRemove_def evolve_def map_ok_erase split: if_splits list.splits)

lemma evolve_stop_join: "stop_join ended p = Some q \<Longrightarrow> evolve p q"
  by (auto simp: stop_join_def evolve_def map_ok_erase split: if_splits list.splits prod.splits)

lemma evolve_wf: "evolve p q \<Longrightarrow> plugin_wf p \<Longrightarrow> plugin_wf q"
  by (auto simp: evolve_def plugin_wf_def Ball_def dest: order.strict_trans2) (metis order.strict_trans2)+

lemma wf_updates:
  "plugin_wf p \<Longrightarrow> (\<And>h. gID (f h) = gID h) \<Longrightarrow> plugin_wf (upd r f p)"
  "plugin_wf p \<Longrightarrow> plugin_wf (p_send og op d g p)"
  "plugin_wf p \<Longrightarrow> r < length (heap p) \<Longrightarrow> plugin_wf (removeHandle r p)"
  "plugin_wf p \<Longrightarrow> plugin_wf (stop_begin p)"
  "executeRemove ended p = Some q \<Longrightarrow> plugin_wf p \<Longrightarrow> plugin_wf q"
  "stop_join ended p = Some q \<Longrightarrow> plugin_wf p \<Longrightarrow> plugin_wf q"
  by (blast intro: evolve_wf evolves evolve_executeRemove evolve_stop_join)+

lemma removal_frame:
  "executeRemove ended p = Some q \<Longrightarrow> heap q = heap p \<and> sent q = sent p \<and> p_stopping q = p_stopping p"
  "stop_join ended p = Some q \<Longrightarrow> heap q = heap p \<and> sent q = sent p \<and> p_stopping q = p_stopping p"
  by (auto simp: executeRemove_def stop_join_def split: if_splits list.splits prod.splits)

lemma plugin_wf_init: "plugin_wf (plugin_init d)"
  by (simp add: plugin_wf_def plugin_init_def map_ok_def)

lemma lookup_valid:
  "plugin_wf p \<Longrightarrow> lookup gid p = Some r \<Longrightarrow> r < length (heap p) \<and> gID (heap p ! r) = gid"
  by (fastforce simp: plugin_wf_def lookup_def)

text \<open>
  What a plugin has to guarantee of its steps, and what follows for its reachable states: references
  stay valid, and a handle that is not registered stays unregistered.
\<close>

locale handle_plugin =
  fixes step :: "'z plugin_state_scheme \<Rightarrow> 'z plugin_state_scheme \<Rightarrow> bool"
    and inv :: "'z plugin_state_scheme \<Rightarrow> bool"
  assumes inv_wf: "inv p \<Longrightarrow> plugin_wf p"
    and step_evolves: "step p q \<Longrightarrow> inv p \<Longrightarrow> evolve p q"
    and step_inv: "step p q \<Longrightarrow> inv p \<Longrightarrow> inv q"
begin

lemma reach_inv: "step\<^sup>*\<^sup>* p q \<Longrightarrow> inv p \<Longrightarrow> inv q"
  by (induction rule: rtranclp_induct) (auto intro: step_inv)

lemma reach_evolves: "step\<^sup>*\<^sup>* p q \<Longrightarrow> inv p \<Longrightarrow> evolve p q"
  by (induction rule: rtranclp_induct)
    (auto intro: evolve_refl evolve_trans step_evolves reach_inv)

lemma unregistered:
  assumes "step\<^sup>*\<^sup>* p q" and "inv p" and "r < length (heap p)"
    and "lookup (gID (heap p ! r)) p \<noteq> Some r"
  shows "lookup gid q \<noteq> Some r"
proof
  assume "lookup gid q = Some r"
  moreover have "evolve p q" using reach_evolves [OF assms(1,2)] by auto
  ultimately have "lookup gid p = Some r" using assms(3) by (fastforce simp: evolve_def lookup_def)
  with lookup_valid [OF inv_wf [OF assms(2)]] assms(4) show False by blast
qed

lemma reach_gid: "step\<^sup>*\<^sup>* p q \<Longrightarrow> inv p \<Longrightarrow> r < length (heap p) \<Longrightarrow> gID (heap q ! r) = gID (heap p ! r)"
  using reach_evolves by (auto simp: evolve_def)

end

end
