(* ===== verification/ServiceServer.thy ===== *)
theory ServiceServer
  imports ServiceActionHandle
begin

text \<open>
  \<^verbatim>\<open>include/connect/service/serviceServer.hpp\<close>: the side of a service that offers it to local ROS
  clients. Every request is a call of the plugin's callback in a thread of the executor: it registers
  a handle under the id of the requesting writer, sends the request and waits for the response,
  while other callbacks, the manager's thread and the removing thread run.
\<close>

section \<open>State\<close>

text \<open>
  The position of a call in \<open>sendAndWait\<close>, with the reference of its handle: \<open>Failed\<close> has returned a
  null pointer, \<open>Returned\<close> the handle, \<open>Answered\<close> has called \<open>done\<close>.
\<close>

datatype call_pc =
    Prepared nat | Posted nat | Waiting nat | Returned nat | Failed | Answered

fun pc_ref :: "call_pc \<Rightarrow> nat option" where
  "pc_ref (Prepared r) = Some r"
| "pc_ref (Posted r) = Some r"
| "pc_ref (Waiting r) = Some r"
| "pc_ref (Returned r) = Some r"
| "pc_ref Failed = None"
| "pc_ref Answered = None"

record call =
  call_pc :: call_pc
  request_gid :: bytes
  request_data :: bytes
  expected :: nat
  dynamic :: bool

text \<open>\<open>ros_cancelled\<close> records the handles whose requests \<open>stop\<close> answered itself (\<open>cancel\<close>).\<close>

record service_server = plugin_state +
  calls :: "call list"
  ros_cancelled :: "nat list"

definition service_server_init :: "Service_Action_t \<Rightarrow> service_server" where
  "service_server_init d = plugin_state.extend (plugin_init d) \<lparr>calls = [], ros_cancelled = []\<rparr>"

definition set_pc :: "nat \<Rightarrow> call_pc \<Rightarrow> service_server \<Rightarrow> service_server" where
  "set_pc k pc s = s\<lparr>calls := (calls s)[k := (calls s ! k)\<lparr>call_pc := pc\<rparr>]\<rparr>"

definition pc_of :: "nat \<Rightarrow> service_server \<Rightarrow> call_pc option" where
  "pc_of k s = (if k < length (calls s) then Some (call_pc (calls s ! k)) else None)"

section \<open>sendAndWait\<close>

text \<open>The start of a call: nothing is sent any more when the plugin is stopping.\<close>

definition ss_begin :: "bytes \<Rightarrow> int \<Rightarrow> bytes \<Rightarrow> nat \<Rightarrow> bool \<Rightarrow> service_server \<Rightarrow> service_server" where
  "ss_begin gid seq data n dyn s =
     (let new = (\<lambda>pc. \<lparr>call_pc = pc, request_gid = gid, request_data = data, expected = n, dynamic = dyn\<rparr>) in
      if p_stopping s then s\<lparr>calls := calls s @ [new Failed]\<rparr>
      else (register (new_handle gid seq) s)\<lparr>calls := calls s @ [new (Prepared (length (heap s)))]\<rparr>)"

definition ss_post :: "nat \<Rightarrow> service_server \<Rightarrow> service_server option" where
  "ss_post k s =
     (case pc_of k s of
        Some (Prepared r) \<Rightarrow> Some (set_pc k (Posted r)
          (p_send (Some r) SERVICE_TO_CLIENT (request_data (calls s ! k)) (gID (heap s ! r))
             (upd r (\<lambda>h. h\<lparr>goalResponse := None, handlingGoal := True\<rparr>) s)))
      | _ \<Rightarrow> None)"

text \<open>Giving up: the handle expects no response any more and is marked for removal.\<close>

definition give_up :: "nat \<Rightarrow> nat \<Rightarrow> service_server \<Rightarrow> service_server" where
  "give_up k r s = set_pc k Failed (removeHandle r (upd r (\<lambda>h. h\<lparr>handlingGoal := False\<rparr>) s))"

definition ss_check :: "nat \<Rightarrow> service_server \<Rightarrow> service_server option" where
  "ss_check k s =
     (case pc_of k s of
        Some (Posted r) \<Rightarrow> Some (if p_stopping s then give_up k r s else set_pc k (Waiting r) s)
      | _ \<Rightarrow> None)"

text \<open>\<open>wait_for\<close> returns when there is a response, when stopping, or after \<open>maxExecTime\<close> seconds.\<close>

definition ss_awake :: "bool \<Rightarrow> nat \<Rightarrow> service_server \<Rightarrow> bool" where
  "ss_awake timed_out k s \<longleftrightarrow>
     (case pc_of k s of
        Some (Waiting r) \<Rightarrow> goalResponse (heap s ! r) \<noteq> None \<or> p_stopping s \<or> timed_out
      | _ \<Rightarrow> False)"

text \<open>
  The rest of \<open>sendAndWait\<close>, during which the mutex of the response is held. \<open>ok\<close> is \<open>rclcpp::ok()\<close>;
  \<open>None\<close> is an access outside the message.
\<close>

definition ss_wake :: "copy_fun \<Rightarrow> codecs \<Rightarrow> bool \<Rightarrow> nat \<Rightarrow> service_server \<Rightarrow> service_server option" where
  "ss_wake mcpy c ok k s =
     (case pc_of k s of
        Some (Waiting r) \<Rightarrow>
          if \<not> ok \<or> p_stopping s then Some (set_pc k Failed s)
          else (case goalResponse (heap s ! r) of
            None \<Rightarrow> Some (give_up k r (p_send (Some r) SERVICE_TO_CLIENT_CANCEL [] (gID (heap s ! r)) s))
          | Some m \<Rightarrow> do {
              (readable, m) \<leftarrow> unpack mcpy c m;
              let s = upd r (\<lambda>h. h\<lparr>goalResponse := Some m\<rparr>) s;
              if \<not> readable then Some (give_up k r s)
              else do {
                data \<leftarrow> getData m;
                if \<not> dynamic (calls s ! k) \<and> length data \<noteq> expected (calls s ! k) then Some (give_up k r s)
                else Some (set_pc k (Returned r) (upd r (\<lambda>h. h\<lparr>handlingGoal := False\<rparr>) s))
              }
            })
      | _ \<Rightarrow> None)"

definition ss_done :: "nat \<Rightarrow> service_server \<Rightarrow> service_server option" where
  "ss_done k s =
     (case pc_of k s of
        Some (Returned r) \<Rightarrow> Some (set_pc k Answered
          (removeHandle r (upd r (\<lambda>h. h\<lparr>handlingGoal := False\<rparr>) s)))
      | _ \<Rightarrow> None)"

section \<open>Messages and stopping\<close>

definition ss_handle :: "sa_message \<Rightarrow> service_server \<Rightarrow> service_server option" where
  "ss_handle m s =
     (if \<not> isServiceActionOpCode m SERVICE_TO_SERVER then Some s
      else do {
        key \<leftarrow> getGIDString m;
        case map_of (handles s) key of
          None \<Rightarrow> Some s
        | Some r \<Rightarrow>
            if \<not> handlingGoal (heap s ! r) then Some s
            else Some (upd r (\<lambda>h. h\<lparr>goalResponse := Some m\<rparr>) s)
      })"

definition ss_cancel_all :: "service_server \<Rightarrow> service_server" where
  "ss_cancel_all s = s\<lparr>ros_cancelled := ros_cancelled s @ map snd (handles s)\<rparr>"

section \<open>The system\<close>

text \<open>
  Everything that can happen to a service server. The handles have no thread, so nothing has to be
  joined. Messages are those that the manager has parsed.
\<close>

inductive ss_step :: "copy_fun \<Rightarrow> codecs \<Rightarrow> service_server \<Rightarrow> service_server \<Rightarrow> bool"
    for mcpy :: copy_fun and c :: codecs where
  request: "ss_step mcpy c s (ss_begin gid seq data n dyn s)"
| post: "ss_post k s = Some s' \<Longrightarrow> ss_step mcpy c s s'"
| check: "ss_check k s = Some s' \<Longrightarrow> ss_step mcpy c s s'"
| wake: "ss_awake timed_out k s \<Longrightarrow> ss_wake mcpy c ok k s = Some s' \<Longrightarrow> ss_step mcpy c s s'"
| answer: "ss_done k s = Some s' \<Longrightarrow> ss_step mcpy c s s'"
| receive: "fromMessage rcl_ops r = Some (Some m) \<Longrightarrow> ss_handle m s = Some s' \<Longrightarrow> ss_step mcpy c s s'"
| remove: "executeRemove (\<lambda>_. True) s = Some s' \<Longrightarrow> ss_step mcpy c s s'"
| cancel_all: "ss_step mcpy c s (ss_cancel_all s)"
| stop: "ss_step mcpy c s (stop_begin s)"
| join: "stop_join (\<lambda>_. True) s = Some s' \<Longrightarrow> ss_step mcpy c s s'"

section \<open>The invariant\<close>

definition response_ok :: "copy_fun \<Rightarrow> handle \<Rightarrow> bool" where
  "response_ok mcpy h \<longleftrightarrow> (\<forall>m. goalResponse h = Some m \<longrightarrow>
     sa_wf_for mcpy m \<and> getGID m = Some (gID h) \<and> sa_opcode m = SERVICE_TO_SERVER)"

definition response_fits :: "handle \<Rightarrow> call \<Rightarrow> bool" where
  "response_fits h x \<longleftrightarrow> \<not> handlingGoal h \<and> (\<exists>m d. goalResponse h = Some m \<and> \<not> isCompressed m
     \<and> getData m = Some d \<and> (dynamic x \<or> length d = expected x))"

definition call_ok :: "service_server \<Rightarrow> call \<Rightarrow> bool" where
  "call_ok s x \<longleftrightarrow>
     (\<forall>r. pc_ref (call_pc x) = Some r \<longrightarrow> r < length (heap s) \<and> gID (heap s ! r) = request_gid x)
     \<and> (\<forall>r. call_pc x = Returned r \<longrightarrow> response_fits (heap s ! r) x)"

definition refs_distinct :: "service_server \<Rightarrow> bool" where
  "refs_distinct s \<longleftrightarrow> (\<forall>i < length (calls s). \<forall>j < length (calls s). \<forall>r.
     pc_ref (call_pc (calls s ! i)) = Some r \<and> pc_ref (call_pc (calls s ! j)) = Some r \<longrightarrow> i = j)"

definition ss_inv :: "copy_fun \<Rightarrow> service_server \<Rightarrow> bool" where
  "ss_inv mcpy s \<longleftrightarrow> plugin_wf s
     \<and> (\<forall>r < length (heap s). response_ok mcpy (heap s ! r))
     \<and> (\<forall>k < length (calls s). call_ok s (calls s ! k)) \<and> refs_distinct s"

lemma ss_invD:
  assumes "ss_inv mcpy s"
  shows "plugin_wf s" "\<And>r. r < length (heap s) \<Longrightarrow> response_ok mcpy (heap s ! r)"
    "\<And>k. k < length (calls s) \<Longrightarrow> call_ok s (calls s ! k)"
    "\<And>i j r. i < length (calls s) \<Longrightarrow> j < length (calls s) \<Longrightarrow> pc_ref (call_pc (calls s ! i)) = Some r
       \<Longrightarrow> pc_ref (call_pc (calls s ! j)) = Some r \<Longrightarrow> i = j"
  using assms by (auto simp: ss_inv_def refs_distinct_def)

lemma pc_of_Some: "pc_of k s = Some pc \<longleftrightarrow> k < length (calls s) \<and> call_pc (calls s ! k) = pc"
  by (auto simp: pc_of_def)

lemma set_pc_simps [simp]:
  "heap (set_pc k pc s) = heap s" "handles (set_pc k pc s) = handles s" "toRemove (set_pc k pc s) = toRemove s"
  "p_stopping (set_pc k pc s) = p_stopping s" "sent (set_pc k pc s) = sent s"
  "p_definition (set_pc k pc s) = p_definition s" "length (calls (set_pc k pc s)) = length (calls s)"
  "plugin_wf (set_pc k pc s) = plugin_wf s"
  by (simp_all add: set_pc_def plugin_wf_def)

lemma calls_base [simp]:
  "calls (p_send og op d g s) = calls s" "calls (upd r f s) = calls s" "calls (removeHandle r s) = calls s"
  "calls (register h s) = calls s" "calls (stop_begin s) = calls s"
  by (simp_all add: p_send_def upd_def removeHandle_def register_def stop_begin_def)

lemma call_pc_set_pc [simp]:
  "call_pc (calls (set_pc k pc s) ! j) = (if j = k \<and> k < length (calls s) then pc else call_pc (calls s ! j))"
  by (cases "k < length (calls s)") (auto simp: set_pc_def nth_list_update list_update_beyond)

text \<open>Changing the handle of one call, and the position of that call.\<close>

lemma ss_inv_update:
  assumes inv: "ss_inv mcpy s" and k: "k < length (calls s)" "pc_ref (call_pc (calls s ! k)) = Some r"
    and heap: "heap t = (heap s)[r := h]" and gid: "gID h = gID (heap s ! r)" and ok: "response_ok mcpy h"
    and calls: "calls t = (calls s)[k := (calls s ! k)\<lparr>call_pc := pc\<rparr>]"
    and pc: "pc_ref pc = None \<or> pc_ref pc = Some r" "\<And>q. pc = Returned q \<Longrightarrow> response_fits h (calls s ! k)"
    and wf: "plugin_wf t"
  shows "ss_inv mcpy t"
proof -
  note D = ss_invD [OF inv]
  have r: "r < length (heap s)" "gID (heap s ! r) = request_gid (calls s ! k)"
    using D(3) [OF k(1)] k(2) by (auto simp: call_ok_def)
  have "response_ok mcpy (heap t ! q)" if "q < length (heap t)" for q
    using that D(2) ok by (cases "q = r") (auto simp: heap)
  moreover have "call_ok t (calls t ! j)" if "j < length (calls t)" for j
  proof (cases "j = k")
    case True
    then show ?thesis
      using pc k r gid by (auto simp: call_ok_def calls heap response_fits_def)
  next
    case False
    have j: "j < length (calls s)" using that by (simp add: calls)
    then have "pc_ref (call_pc (calls s ! j)) \<noteq> Some r" using D(4) [OF _ k(1) _ k(2)] False by blast
    then have "\<And>q. pc_ref (call_pc (calls s ! j)) = Some q \<Longrightarrow> q \<noteq> r"
      "\<And>q. call_pc (calls s ! j) = Returned q \<Longrightarrow> q \<noteq> r" by auto
    with D(3) [OF j] False show ?thesis by (auto simp: call_ok_def calls heap nth_list_update)
  qed
  moreover have "refs_distinct t"
    unfolding refs_distinct_def
  proof (intro allI impI)
    fix i j q
    assume "i < length (calls t)" "j < length (calls t)"
      and q: "pc_ref (call_pc (calls t ! i)) = Some q \<and> pc_ref (call_pc (calls t ! j)) = Some q"
    then have ij: "i < length (calls s)" "j < length (calls s)" by (simp_all add: calls)
    have "pc_ref (call_pc (calls s ! i)) = Some q" "pc_ref (call_pc (calls s ! j)) = Some q"
      using q ij k pc(1) by (auto simp: calls nth_list_update split: if_splits)
    with D(4) ij show "i = j" by blast
  qed
  ultimately show ?thesis using wf by (simp add: ss_inv_def)
qed

text \<open>The operations that leave the handles and the calls as they are.\<close>

lemma ss_inv_frame:
  assumes "ss_inv mcpy s" and "heap t = heap s" and "calls t = calls s" and "plugin_wf t"
  shows "ss_inv mcpy t"
  using assms by (simp add: ss_inv_def call_ok_def refs_distinct_def)

lemma ss_handle_cases:
  assumes "ss_handle m s = Some s'" and "s' \<noteq> s"
  obtains gid r where "getGID m = Some gid" "lookup gid s = Some r" "handlingGoal (heap s ! r)"
    "sa_opcode m = SERVICE_TO_SERVER" "s' = upd r (\<lambda>h. h\<lparr>goalResponse := Some m\<rparr>) s"
  using assms
  by (auto simp: ss_handle_def getGIDString_eq isServiceActionOpCode_def lookup_def
      bind_eq_Some_conv split: if_splits option.splits)

lemma ss_inv_handle:
  assumes inv: "ss_inv mcpy s" and m: "sa_wf_for mcpy m" and st: "ss_handle m s = Some s'"
  shows "ss_inv mcpy s'"
proof (cases "s' = s")
  case False
  from ss_handle_cases [OF st this] obtain gid r
    where r: "getGID m = Some gid" "lookup gid s = Some r" "handlingGoal (heap s ! r)"
    and op: "sa_opcode m = SERVICE_TO_SERVER" and s': "s' = upd r (\<lambda>h. h\<lparr>goalResponse := Some m\<rparr>) s" .
  note D = ss_invD [OF inv]
  have gid: "r < length (heap s)" "gID (heap s ! r) = gid" using lookup_valid [OF D(1) r(2)] by auto
  have "response_ok mcpy (heap s' ! q)" if "q < length (heap s')" for q
    using D(2) that m op r(1) gid by (auto simp: s' heap_upd response_ok_def)
  moreover have "call_ok s' (calls s' ! k)" if "k < length (calls s')" for k
    using D(3) [of k] that r(3) by (auto simp: s' heap_upd call_ok_def response_fits_def)
  moreover have "refs_distinct s'" using inv by (simp add: s' ss_inv_def refs_distinct_def)
  moreover have "plugin_wf s'"
    using D(1) by (auto simp: s' intro: evolve_wf [OF evolve_upd [OF evolve_refl]])
  ultimately show ?thesis by (simp add: ss_inv_def)
qed (use inv in simp)

lemma ss_inv_begin:
  assumes inv: "ss_inv mcpy s"
  shows "ss_inv mcpy (ss_begin gid seq data n dyn s)"
proof -
  note D = ss_invD [OF inv]
  let ?t = "ss_begin gid seq data n dyn s"
  have wf: "plugin_wf ?t"
    using D(1) evolve_wf [OF evolve_register [OF evolve_refl] D(1)]
    by (auto simp: ss_begin_def plugin_wf_def Let_def)
  have old: "pc_ref (call_pc (calls s ! i)) \<noteq> Some (length (heap s))" if "i < length (calls s)" for i
    using D(3) [OF that] by (auto simp: call_ok_def)
  have "response_ok mcpy (heap ?t ! q)" if "q < length (heap ?t)" for q
    using D(2) that by (auto simp: ss_begin_def Let_def nth_append response_ok_def split: if_splits)
  moreover have "call_ok ?t (calls ?t ! k)" if "k < length (calls ?t)" for k
    using D(3) [of k] that
    by (auto simp: ss_begin_def Let_def nth_append call_ok_def split: if_splits)
  moreover have "refs_distinct ?t"
    unfolding refs_distinct_def
  proof (intro allI impI)
    fix i j q
    assume "i < length (calls ?t)" "j < length (calls ?t)"
      "pc_ref (call_pc (calls ?t ! i)) = Some q \<and> pc_ref (call_pc (calls ?t ! j)) = Some q"
    then show "i = j"
      using D(4) [of i j q] old [of i] old [of j]
      by (auto simp: ss_begin_def Let_def nth_append less_Suc_eq split: if_splits)
  qed
  ultimately show ?thesis using wf by (simp add: ss_inv_def)
qed

lemma ss_inv_give_up:
  assumes "ss_inv mcpy s" and "k < length (calls s)" and "pc_ref (call_pc (calls s ! k)) = Some r"
    and "heap t = (heap s)[r := h]" and "calls t = calls s" and "gID h = gID (heap s ! r)"
    and "response_ok mcpy h" and "plugin_wf t"
  shows "ss_inv mcpy (give_up k r t)"
proof -
  have r: "r < length (heap s)" using ss_invD(3) [OF assms(1,2)] assms(3) by (simp add: call_ok_def)
  have "plugin_wf (give_up k r t)"
    using assms(8) r assms(4) by (simp add: give_up_def wf_updates)
  then show ?thesis
    by (intro ss_inv_update [OF assms(1-3), where h = "h\<lparr>handlingGoal := False\<rparr>" and pc = Failed])
      (use assms(4-7) r in \<open>simp_all add: give_up_def set_pc_def upd_def removeHandle_def response_ok_def\<close>)
qed

lemma ss_inv_wake:
  assumes inv: "ss_inv mcpy s" and st: "ss_wake mcpy c ok k s = Some s'"
  shows "ss_inv mcpy s'"
proof -
  note D = ss_invD [OF inv]
  obtain r where k: "k < length (calls s)" "call_pc (calls s ! k) = Waiting r"
    using st by (auto simp: ss_wake_def pc_of_Some split: option.splits call_pc.splits)
  then have ref: "pc_ref (call_pc (calls s ! k)) = Some r" by simp
  have r: "r < length (heap s)" using D(3) [OF k(1)] ref by (auto simp: call_ok_def)
  note hok = D(2) [OF r]
  show ?thesis
  proof (cases "\<not> ok \<or> p_stopping s")
    case True
    then have "s' = set_pc k Failed s" using st k by (auto simp: ss_wake_def pc_of_def)
    then show ?thesis
      using hok D(1) k(1)
      by (intro ss_inv_update [OF inv k(1) ref, where h = "heap s ! r" and pc = Failed])
        (simp_all add: set_pc_def plugin_wf_def)
  next
    case False
    show ?thesis
    proof (cases "goalResponse (heap s ! r)")
      case None
      then have "s' = give_up k r (p_send (Some r) SERVICE_TO_CLIENT_CANCEL [] (gID (heap s ! r)) s)"
        using st k False by (simp add: ss_wake_def pc_of_def)
      then show ?thesis
        using hok D(1) by (auto intro!: ss_inv_give_up [OF inv k(1) ref, where h = "heap s ! r"] wf_updates)
    next
      case (Some m)
      then have m: "sa_wf_for mcpy m" "getGID m = Some (gID (heap s ! r))" "sa_opcode m = SERVICE_TO_SERVER"
        using hok by (auto simp: response_ok_def)
      obtain b m' d where u: "unpack mcpy c m = Some (b, m')" "sa_wf_for mcpy m'" "getGID m' = getGID m"
        "sa_opcode m' = sa_opcode m" "getData m' = Some d" "b \<longrightarrow> \<not> isCompressed m'"
        using unpack_spec [OF m(1), of c] by blast
      let ?t = "upd r (\<lambda>h. h\<lparr>goalResponse := Some m'\<rparr>) s"
      let ?h = "(heap s ! r)\<lparr>goalResponse := Some m'\<rparr>"
      have hok': "response_ok mcpy ?h" using m u by (simp add: response_ok_def)
      have wf: "plugin_wf ?t" using D(1) by (simp add: wf_updates)
      have gu: "ss_inv mcpy (give_up k r ?t)"
        using hok' wf by (intro ss_inv_give_up [OF inv k(1) ref, where h = ?h]) (simp_all add: upd_def)
      show ?thesis
      proof (cases "\<not> b \<or> (\<not> dynamic (calls s ! k) \<and> length d \<noteq> expected (calls s ! k))")
        case True
        then have "s' = give_up k r ?t"
          using st k False Some u(1,5) by (auto simp: ss_wake_def pc_of_def Let_def split: if_splits)
        with gu show ?thesis by simp
      next
        case ret: False
        then have s': "s' = set_pc k (Returned r) (upd r (\<lambda>h. h\<lparr>handlingGoal := False\<rparr>) ?t)"
          using st k False Some u(1,5) by (auto simp: ss_wake_def pc_of_def Let_def split: if_splits)
        have "response_fits (?h\<lparr>handlingGoal := False\<rparr>) (calls s ! k)"
          using u ret by (auto simp: response_fits_def)
        moreover have "plugin_wf s'" using wf by (simp add: s' wf_updates)
        ultimately show ?thesis
          using hok' r
          by (intro ss_inv_update [OF inv k(1) ref, where h = "?h\<lparr>handlingGoal := False\<rparr>" and pc = "Returned r"])
            (simp_all add: s' set_pc_def upd_def response_ok_def)
      qed
    qed
  qed
qed

lemma ss_inv_post:
  assumes inv: "ss_inv mcpy s" and st: "ss_post k s = Some s'"
  shows "ss_inv mcpy s'"
proof -
  note D = ss_invD [OF inv]
  obtain r where k: "k < length (calls s)" "call_pc (calls s ! k) = Prepared r"
    and s': "s' = set_pc k (Posted r) (p_send (Some r) SERVICE_TO_CLIENT (request_data (calls s ! k))
      (gID (heap s ! r)) (upd r (\<lambda>h. h\<lparr>goalResponse := None, handlingGoal := True\<rparr>) s))"
    using st by (auto simp: ss_post_def pc_of_Some split: option.splits call_pc.splits)
  have "plugin_wf s'" using D(1) by (simp add: s' wf_updates)
  then show ?thesis
    using k by (intro ss_inv_update [OF inv k(1), where r = r and pc = "Posted r"
        and h = "(heap s ! r)\<lparr>goalResponse := None, handlingGoal := True\<rparr>"])
      (simp_all add: s' set_pc_def p_send_def upd_def response_ok_def)
qed

lemma ss_inv_check:
  assumes inv: "ss_inv mcpy s" and st: "ss_check k s = Some s'"
  shows "ss_inv mcpy s'"
proof -
  note D = ss_invD [OF inv]
  obtain r where k: "k < length (calls s)" "call_pc (calls s ! k) = Posted r"
    and s': "s' = (if p_stopping s then give_up k r s else set_pc k (Waiting r) s)"
    using st by (auto simp: ss_check_def pc_of_Some split: option.splits call_pc.splits)
  have ref: "pc_ref (call_pc (calls s ! k)) = Some r" using k by simp
  have "response_ok mcpy (heap s ! r)" using D(2,3) k ref by (auto simp: call_ok_def)
  moreover have "ss_inv mcpy (set_pc k (Waiting r) s)"
    using calculation D(1) by (intro ss_inv_update [OF inv k(1) ref, where h = "heap s ! r" and pc = "Waiting r"])
      (simp_all add: set_pc_def plugin_wf_def)
  ultimately show ?thesis
    using ss_inv_give_up [OF inv k(1) ref, where h = "heap s ! r" and t = s] D(1) by (simp add: s')
qed

lemma ss_inv_done:
  assumes inv: "ss_inv mcpy s" and st: "ss_done k s = Some s'"
  shows "ss_inv mcpy s'"
proof -
  note D = ss_invD [OF inv]
  obtain r where k: "k < length (calls s)" "call_pc (calls s ! k) = Returned r"
    and s': "s' = set_pc k Answered (removeHandle r (upd r (\<lambda>h. h\<lparr>handlingGoal := False\<rparr>) s))"
    using st by (auto simp: ss_done_def pc_of_Some split: option.splits call_pc.splits)
  have ref: "pc_ref (call_pc (calls s ! k)) = Some r" using k by simp
  have r: "r < length (heap s)" using D(3) [OF k(1)] ref by (auto simp: call_ok_def)
  then have "response_ok mcpy (heap s ! r)" "plugin_wf s'" using D(1,2) by (simp_all add: s' wf_updates)
  then show ?thesis
    by (intro ss_inv_update [OF inv k(1) ref, where h = "(heap s ! r)\<lparr>handlingGoal := False\<rparr>" and pc = Answered])
      (simp_all add: s' set_pc_def removeHandle_def upd_def response_ok_def)
qed

lemma calls_removal:
  "executeRemove ended (s :: service_server) = Some t \<Longrightarrow> calls t = calls s"
  "stop_join ended (s :: service_server) = Some t \<Longrightarrow> calls t = calls s"
  by (auto simp: executeRemove_def stop_join_def split: if_splits list.splits prod.splits)

lemma ss_step_inv:
  assumes ok: "copy_ok mcpy" and st: "ss_step mcpy c s s'" and inv: "ss_inv mcpy s"
  shows "ss_inv mcpy s'"
  using st inv
proof (induction rule: ss_step.induct)
  case (receive r m s s')
  from sa_wf_for_copy_ok [OF ok fromMessage_wf [OF receive(1)]] receive show ?case
    by (auto intro: ss_inv_handle)
next
  case (remove s s')
  show ?case
    using removal_frame(1) [OF remove(1)] calls_removal(1) [OF remove(1)] wf_updates(5) [OF remove(1)]
    by (intro ss_inv_frame [OF remove.prems]) (simp_all add: ss_invD(1) [OF remove.prems])
next
  case (join s s')
  show ?case
    using removal_frame(2) [OF join(1)] calls_removal(2) [OF join(1)] wf_updates(6) [OF join(1)]
    by (intro ss_inv_frame [OF join.prems]) (simp_all add: ss_invD(1) [OF join.prems])
next
  case (cancel_all s)
  then show ?case by (intro ss_inv_frame [OF cancel_all]) (auto simp: ss_cancel_all_def plugin_wf_def dest: ss_invD(1))
next
  case (stop s)
  then show ?case by (intro ss_inv_frame [OF stop]) (auto intro: wf_updates dest: ss_invD(1))
qed (auto intro: ss_inv_begin ss_inv_post ss_inv_check ss_inv_wake ss_inv_done)

lemma ss_inv_init: "ss_inv mcpy (service_server_init d)"
  by (simp add: ss_inv_def service_server_init_def plugin_state.extend_def plugin_init_def plugin_wf_def
      map_ok_def refs_distinct_def)

text \<open>Every step only makes handles and forgets them.\<close>

lemma evolve_set_pc [evolves]: "evolve p q \<Longrightarrow> evolve p (set_pc k pc q)"
  by (simp add: evolve_def set_pc_def)

lemma ref_valid: "ss_inv mcpy s \<Longrightarrow> k < length (calls s) \<Longrightarrow> pc_ref (call_pc (calls s ! k)) = Some r \<Longrightarrow> r < length (heap s)"
  using ss_invD(3) [of mcpy s k] by (auto simp: call_ok_def)

lemma ss_step_evolves:
  assumes "ss_step mcpy c s s'" and inv: "ss_inv mcpy s"
  shows "evolve s s'"
  using assms
proof (induction rule: ss_step.induct)
  case (request s gid seq data n dyn)
  have "evolve s (t\<lparr>calls := x\<rparr>) = evolve s t" for t x by (simp add: evolve_def)
  then show ?case by (auto simp: ss_begin_def Let_def intro: evolves)
next
  case (post k s s')
  then show ?case by (auto simp: ss_post_def pc_of_Some split: option.splits call_pc.splits intro!: evolves)
next
  case (check k s s')
  then show ?case
    by (auto simp: ss_check_def give_up_def pc_of_Some ref_valid split: option.splits call_pc.splits intro!: evolves)
next
  case (wake timed_out k s ok s')
  then show ?case
    by (auto simp: ss_wake_def give_up_def pc_of_Some ref_valid Let_def bind_eq_Some_conv
        split: option.splits call_pc.splits if_splits intro!: evolves)
next
  case (answer k s s')
  then show ?case
    by (auto simp: ss_done_def pc_of_Some ref_valid split: option.splits call_pc.splits intro!: evolves)
next
  case (receive r m s s')
  then show ?case
    by (auto simp: ss_handle_def bind_eq_Some_conv split: option.splits if_splits intro!: evolves)
next
  case (remove s s')
  then show ?case by (blast intro: evolve_executeRemove)
next
  case (join s s')
  then show ?case by (blast intro: evolve_stop_join)
next
  case (stop s)
  then show ?case by (intro evolves)
qed (simp add: ss_cancel_all_def evolve_def)

interpretation ssp: handle_plugin "ss_step mcpy c" "\<lambda>s. copy_ok mcpy \<and> ss_inv mcpy s" for mcpy c
  by unfold_locales (auto intro: ss_step_inv ss_step_evolves dest: ss_invD(1))

lemma ss_reachable_inv:
  "(ss_step mcpy c)\<^sup>*\<^sup>* (service_server_init d) s \<Longrightarrow> copy_ok mcpy \<Longrightarrow> ss_inv mcpy s"
  using ssp.reach_inv [of mcpy c "service_server_init d" s] ss_inv_init by blast

section \<open>Reading a response\<close>

text \<open>The end of \<open>wait_for\<close> is always defined: a response that has arrived can be read.\<close>

lemma ss_wake_defined:
  assumes inv: "ss_inv mcpy s" and "ss_awake timed_out k s"
  shows "ss_wake mcpy c ok k s \<noteq> None"
proof -
  obtain r where k: "k < length (calls s)" "call_pc (calls s ! k) = Waiting r"
    using assms(2) by (auto simp: ss_awake_def pc_of_Some split: option.splits call_pc.splits)
  then have r: "response_ok mcpy (heap s ! r)"
    using ss_invD(2,3) [OF inv] by (auto simp: call_ok_def)
  show ?thesis
  proof (cases "goalResponse (heap s ! r)")
    case None
    then show ?thesis using k by (simp add: ss_wake_def pc_of_def)
  next
    case (Some m)
    then have "sa_wf_for mcpy m" using r by (simp add: response_ok_def)
    then obtain b m' d where "unpack mcpy c m = Some (b, m')" "getData m' = Some d"
      using unpack_spec [of mcpy m c] by blast
    then show ?thesis using k Some by (simp add: ss_wake_def pc_of_def Let_def)
  qed
qed

lemma ss_returned:
  assumes inv: "ss_inv mcpy s" and "pc_of k s = Some (Returned r)"
  shows "\<exists>m d. goalResponse (heap s ! r) = Some m \<and> getGID m = Some (request_gid (calls s ! k))
    \<and> sa_opcode m = SERVICE_TO_SERVER \<and> \<not> isCompressed m \<and> getData m = Some d
    \<and> (dynamic (calls s ! k) \<or> length d = expected (calls s ! k))"
proof -
  have k: "k < length (calls s)" "call_pc (calls s ! k) = Returned r" using assms(2) by (auto simp: pc_of_Some)
  then have "response_fits (heap s ! r) (calls s ! k)" "response_ok mcpy (heap s ! r)"
    "gID (heap s ! r) = request_gid (calls s ! k)"
    using ss_invD(2,3) [OF inv] by (auto simp: call_ok_def)
  then show ?thesis by (auto simp: response_fits_def response_ok_def)
qed

section \<open>Requests whose handle is not registered\<close>

text \<open>A call whose handle has no response and is not in the map.\<close>

definition orphan :: "nat \<Rightarrow> nat \<Rightarrow> service_server \<Rightarrow> bool" where
  "orphan k r s \<longleftrightarrow> k < length (calls s) \<and> call_pc (calls s ! k) \<in> {Prepared r, Posted r, Waiting r, Failed}
     \<and> r < length (heap s) \<and> goalResponse (heap s ! r) = None"

text \<open>Steps of a call that is not \<open>k\<close> touch neither its position nor its handle.\<close>

lemma give_up_simps [simp]:
  "heap (give_up k r s) = heap (upd r (\<lambda>h. h\<lparr>handlingGoal := False\<rparr>) s)"
  "calls (give_up k r s) = calls (set_pc k Failed s)"
  by (simp_all add: give_up_def set_pc_def)

lemma upd_response [simp]:
  "goalResponse (heap (upd r f p) ! q) = (if q = r \<and> r < length (heap p) then goalResponse (f (heap p ! r)) else goalResponse (heap p ! q))"
  by (simp add: heap_upd)

lemma ss_wake_frame:
  assumes st: "ss_wake mcpy c ok j s = Some s'" and j: "j < length (calls s)" "call_pc (calls s ! j) = Waiting q"
  shows "length (heap s') = length (heap s)" "length (calls s') = length (calls s)"
    "p \<noteq> q \<Longrightarrow> heap s' ! p = heap s ! p" "i \<noteq> j \<Longrightarrow> calls s' ! i = calls s ! i"
proof -
  have pc: "pc_of j s = Some (Waiting q)" using j by (simp add: pc_of_Some)
  have set_pc: "i \<noteq> j \<Longrightarrow> calls (set_pc j x u) ! i = calls u ! i" for x u by (simp add: set_pc_def)
  have "\<exists>x f g. heap s' = heap (set_pc j x (upd q f (upd q g s))) \<and> calls s' = calls (set_pc j x s)"
  proof (cases "\<not> ok \<or> p_stopping s")
    case True
    then have "s' = set_pc j Failed s" using st by (simp add: ss_wake_def pc)
    then show ?thesis by (intro exI [of _ Failed] exI [of _ "\<lambda>h. h"]) (simp add: upd_def)
  next
    case False
    then have "\<not> p_stopping s" "ok" by simp_all
    note st' = st [unfolded ss_wake_def pc, simplified this, simplified]
    show ?thesis
    proof (cases "goalResponse (heap s ! q)")
      case None
      then have "s' = give_up j q (p_send (Some q) SERVICE_TO_CLIENT_CANCEL [] (gID (heap s ! q)) s)" using st' by simp
      then show ?thesis
        by (intro exI [of _ Failed] exI [of _ "\<lambda>h. h\<lparr>handlingGoal := False\<rparr>"] exI [of _ "\<lambda>h. h"])
          (simp add: upd_def set_pc_def)
    next
      case (Some m)
      then obtain b m' where "unpack mcpy c m = Some (b, m')"
        using st' by (cases "unpack mcpy c m") auto
      then have "s' = give_up j q (upd q (\<lambda>h. h\<lparr>goalResponse := Some m'\<rparr>) s)
          \<or> s' = set_pc j (Returned q) (upd q (\<lambda>h. h\<lparr>handlingGoal := False\<rparr>) (upd q (\<lambda>h. h\<lparr>goalResponse := Some m'\<rparr>) s))"
        using st' Some by (auto simp: Let_def bind_eq_Some_conv split: if_splits)
      then show ?thesis
        by (elim disjE; intro exI [of _ "\<lambda>h. h\<lparr>goalResponse := Some m'\<rparr>"] exI [of _ "\<lambda>h. h\<lparr>handlingGoal := False\<rparr>"] exI)
          (auto simp: set_pc_def)
    qed
  qed
  then obtain x f g where u: "heap s' = heap (set_pc j x (upd q f (upd q g s)))" "calls s' = calls (set_pc j x s)" by blast
  show "length (heap s') = length (heap s)" "length (calls s') = length (calls s)"
    "p \<noteq> q \<Longrightarrow> heap s' ! p = heap s ! p" "i \<noteq> j \<Longrightarrow> calls s' ! i = calls s ! i"
    by (simp_all add: u heap_upd set_pc)
qed

lemma orphan_step:
  assumes "ss_step mcpy c s s'" and "ss_inv mcpy s" and "orphan k r s" and "lookup (gID (heap s ! r)) s \<noteq> Some r"
  shows "orphan k r s'"
  using assms
proof (induction rule: ss_step.induct)
  case (request s gid seq data n dyn)
  then show ?case by (auto simp: ss_begin_def Let_def orphan_def nth_append)
next
  case (post j s s')
  then show ?case
    by (auto simp: ss_post_def pc_of_Some orphan_def split: option.splits call_pc.splits if_splits)
next
  case (check j s s')
  then show ?case
    by (auto simp: ss_check_def pc_of_Some orphan_def split: option.splits call_pc.splits if_splits)
next
  case (wake timed_out j s ok s')
  then obtain q where j: "j < length (calls s)" "call_pc (calls s ! j) = Waiting q"
    by (auto simp: ss_wake_def pc_of_Some split: option.splits call_pc.splits)
  show ?case
  proof (cases "q = r")
    case True
    then show ?thesis
      using wake j by (auto simp: ss_wake_def pc_of_def orphan_def split: if_splits)
  next
    case False
    moreover have "k \<noteq> j" using wake.prems(2) j(2) False by (auto simp: orphan_def)
    ultimately show ?thesis
      using wake.prems(2) ss_wake_frame [OF wake(2) j] by (simp add: orphan_def)
  qed
next
  case (answer j s s')
  then show ?case
    by (auto simp: ss_done_def pc_of_Some orphan_def split: option.splits call_pc.splits if_splits)
next
  case (receive x m s s')
  show ?case
  proof (cases "s' = s")
    case False
    from ss_handle_cases [OF receive(2) this] obtain gid q
      where q: "lookup gid s = Some q" "s' = upd q (\<lambda>h. h\<lparr>goalResponse := Some m\<rparr>) s" by blast
    have "q \<noteq> r" using lookup_valid [OF ss_invD(1) [OF receive.prems(1)] q(1)] q(1) receive.prems(3) by auto
    then show ?thesis using receive.prems(2) q(2) by (auto simp: orphan_def)
  qed (use receive.prems in simp)
next
  case (remove s s')
  then show ?case
    using removal_frame(1) [OF remove(1)] calls_removal(1) [OF remove(1)] by (simp add: orphan_def)
next
  case (join s s')
  then show ?case
    using removal_frame(2) [OF join(1)] calls_removal(2) [OF join(1)] by (simp add: orphan_def)
qed (simp_all add: orphan_def ss_cancel_all_def)

lemma orphan_forever:
  assumes ok: "copy_ok mcpy" and run: "(ss_step mcpy c)\<^sup>*\<^sup>* s t" and inv: "ss_inv mcpy s"
    and "orphan k r s" and un: "lookup (gID (heap s ! r)) s \<noteq> Some r"
  shows "orphan k r t"
  using run
proof (induction rule: rtranclp_induct)
  case (step t u)
  have "r < length (heap s)" using assms(4) by (simp add: orphan_def)
  then have "lookup (gID (heap t ! r)) t \<noteq> Some r"
    using ssp.unregistered [OF step(1) _ _ un] ok inv by blast
  moreover have "ss_inv mcpy t" using ssp.reach_inv [OF step(1)] ok inv by blast
  ultimately show ?case using orphan_step step by blast
qed (rule assms(4))

end
