(* ===== verification/ServiceClient.thy ===== *)
theory ServiceClient
  imports ServiceActionHandle
begin

text \<open>
  \<^verbatim>\<open>include/connect/service/serviceClient.hpp\<close>: the side of a service that calls the local ROS
  service. Every request of the peer gets a handle and a thread that checks the request, sends it
  through the rclcpp client and waits until the callback of the response has answered the peer, the
  peer cancels, or the plugin stops.
\<close>

section \<open>State\<close>

text \<open>
  The position of the thread of a handle in \<open>executeHandle\<close>: it reads the message, waits for the
  service, tests for stopping, sends the request, and waits with the id of the request.
\<close>

datatype exec_pc =
    Start sa_message | Checked sa_message | Available sa_message | Requesting sa_message
  | Requested int | Ended

fun early :: "exec_pc \<Rightarrow> sa_message option" where
  "early (Start m) = Some m"
| "early (Checked m) = Some m"
| "early (Available m) = Some m"
| "early (Requesting m) = Some m"
| "early _ = None"

text \<open>
  \<open>exec\<close> has an entry for every handle. \<open>pending\<close> are the requests whose response the rclcpp client
  waits for, \<open>callbacks\<close> the handles whose response has arrived and whose callback runs; rclcpp
  takes a request from its list before it calls the callback, so every request is called back at
  most once.
\<close>

record service_client = plugin_state +
  sc_error :: bytes
  sc_expectedSize :: nat
  sc_dynamicSize :: bool
  exec :: "exec_pc list"
  pending :: "(nat \<times> int) list"
  callbacks :: "nat list"

definition service_client_init :: "Service_Action_t \<Rightarrow> bytes \<Rightarrow> nat \<Rightarrow> bool \<Rightarrow> service_client" where
  "service_client_init d err n dyn = plugin_state.extend (plugin_init d)
     \<lparr>sc_error = err, sc_expectedSize = n, sc_dynamicSize = dyn, exec = [], pending = [], callbacks = []\<rparr>"

definition set_exec :: "nat \<Rightarrow> exec_pc \<Rightarrow> service_client \<Rightarrow> service_client" where
  "set_exec r pc s = s\<lparr>exec := (exec s)[r := pc]\<rparr>"

definition exec_of :: "nat \<Rightarrow> service_client \<Rightarrow> exec_pc option" where
  "exec_of r s = (if r < length (exec s) then Some (exec s ! r) else None)"

section \<open>handle\<close>

definition sc_handle :: "sa_message \<Rightarrow> service_client \<Rightarrow> service_client option" where
  "sc_handle m s = do {
     key \<leftarrow> getGIDString m;
     let it = map_of (handles s) key;
     if isServiceActionOpCode m SERVICE_TO_CLIENT then do {
       gid \<leftarrow> getGID m;
       if it \<noteq> None then Some (p_send None SERVICE_TO_SERVER (sc_error s) gid s)
       else if p_stopping s then Some s
       else Some ((register (new_handle gid 0) s)\<lparr>exec := exec s @ [Start m]\<rparr>)
     }
     else if isServiceActionOpCode m SERVICE_TO_CLIENT_CANCEL then
       (case it of
          None \<Rightarrow> Some s
        | Some r \<Rightarrow> Some (upd r (\<lambda>h. h\<lparr>waitQueue := waitQueue h @ [m]\<rparr>) s))
     else Some s
   }"

section \<open>executeHandle\<close>

definition finish :: "nat \<Rightarrow> service_client \<Rightarrow> service_client" where
  "finish r s = set_exec r Ended (removeHandle r s)"

definition refuse :: "nat \<Rightarrow> bytes \<Rightarrow> service_client \<Rightarrow> service_client" where
  "refuse r gid s = finish r (p_send (Some r) SERVICE_TO_SERVER (sc_error s) gid s)"

text \<open>Decompression and the check of the size; \<open>None\<close> is an access outside the message.\<close>

definition sc_read :: "copy_fun \<Rightarrow> codecs \<Rightarrow> nat \<Rightarrow> service_client \<Rightarrow> service_client option" where
  "sc_read mcpy c r s =
     (case exec_of r s of
        Some (Start m) \<Rightarrow> do {
          (readable, m) \<leftarrow> unpack mcpy c m;
          gid \<leftarrow> getGID m;
          data \<leftarrow> getData m;
          Some (if \<not> readable then refuse r gid s
                else if \<not> sc_dynamicSize s \<and> length data \<noteq> sc_expectedSize s then refuse r gid s
                else set_exec r (Checked m) s)
        }
      | _ \<Rightarrow> None)"

text \<open>\<open>avail\<close> is the result of \<open>waitForService\<close>.\<close>

definition sc_await :: "bool \<Rightarrow> nat \<Rightarrow> service_client \<Rightarrow> service_client option" where
  "sc_await avail r s =
     (case exec_of r s of
        Some (Checked m) \<Rightarrow> do {
          gid \<leftarrow> getGID m;
          Some (if avail then set_exec r (Available m) s else refuse r gid s)
        }
      | _ \<Rightarrow> None)"

definition sc_check :: "nat \<Rightarrow> service_client \<Rightarrow> service_client option" where
  "sc_check r s =
     (case exec_of r s of
        Some (Available m) \<Rightarrow> Some (if p_stopping s then finish r s else set_exec r (Requesting m) s)
      | _ \<Rightarrow> None)"

text \<open>\<open>result\<close> is the id that \<open>asyncSendRequest\<close> returns, or none when it throws.\<close>

definition sc_request :: "int option \<Rightarrow> nat \<Rightarrow> service_client \<Rightarrow> service_client option" where
  "sc_request result r s =
     (case exec_of r s of
        Some (Requesting m) \<Rightarrow>
          (case result of
             None \<Rightarrow> do { gid \<leftarrow> getGID m; Some (refuse r gid s) }
           | Some i \<Rightarrow> Some (set_exec r (Requested i) (s\<lparr>pending := pending s @ [(r, i)]\<rparr>)))
      | _ \<Rightarrow> None)"

text \<open>The end of the wait; \<open>None\<close> while there is no reason to wake up.\<close>

definition sc_wake :: "nat \<Rightarrow> service_client \<Rightarrow> service_client option" where
  "sc_wake r s =
     (case exec_of r s of
        Some (Requested i) \<Rightarrow>
          if h_done (heap s ! r) \<or> p_stopping s then Some (finish r s)
          else if waitQueue (heap s ! r) = [] then None
          else Some (finish r (upd r (\<lambda>h. h\<lparr>h_done := True\<rparr>)
                 (s\<lparr>pending := filter (\<lambda>p. snd p \<noteq> i) (pending s)\<rparr>)))
      | _ \<Rightarrow> None)"

section \<open>The response and stopping\<close>

text \<open>The response of a pending request arrives; its callback ends with \<open>sendAndDone\<close>.\<close>

definition sc_response :: "nat \<times> int \<Rightarrow> service_client \<Rightarrow> service_client option" where
  "sc_response p s =
     (if p \<in> set (pending s)
      then Some (s\<lparr>pending := remove1 p (pending s), callbacks := callbacks s @ [fst p]\<rparr>) else None)"

definition sendAndDone :: "bytes \<Rightarrow> nat \<Rightarrow> service_client \<Rightarrow> service_client option" where
  "sendAndDone data r s =
     (if r \<in> set (callbacks s)
      then Some (upd r (\<lambda>h. h\<lparr>h_done := True\<rparr>)
             (p_send (Some r) SERVICE_TO_SERVER data (gID (heap s ! r))
                (s\<lparr>callbacks := remove1 r (callbacks s)\<rparr>)))
      else None)"

definition cancelAll :: "service_client \<Rightarrow> service_client" where
  "cancelAll s = s\<lparr>pending := []\<rparr>"

definition exec_ended :: "service_client \<Rightarrow> nat \<Rightarrow> bool" where
  "exec_ended s r \<longleftrightarrow> exec_of r s = Some Ended"

section \<open>The system\<close>

text \<open>\<open>stop\<close> cancels the pending requests before it sets the flag.\<close>

inductive sc_step :: "copy_fun \<Rightarrow> codecs \<Rightarrow> service_client \<Rightarrow> service_client \<Rightarrow> bool"
    for mcpy :: copy_fun and c :: codecs where
  receive: "fromMessage rcl_ops x = Some (Some m) \<Longrightarrow> sc_handle m s = Some s' \<Longrightarrow> sc_step mcpy c s s'"
| read: "sc_read mcpy c r s = Some s' \<Longrightarrow> sc_step mcpy c s s'"
| await: "sc_await avail r s = Some s' \<Longrightarrow> sc_step mcpy c s s'"
| check: "sc_check r s = Some s' \<Longrightarrow> sc_step mcpy c s s'"
| request: "sc_request result r s = Some s' \<Longrightarrow> sc_step mcpy c s s'"
| wake: "sc_wake r s = Some s' \<Longrightarrow> sc_step mcpy c s s'"
| response: "sc_response p s = Some s' \<Longrightarrow> sc_step mcpy c s s'"
| callback: "sendAndDone data r s = Some s' \<Longrightarrow> sc_step mcpy c s s'"
| remove: "executeRemove (exec_ended s) s = Some s' \<Longrightarrow> sc_step mcpy c s s'"
| cancel_all: "sc_step mcpy c s (cancelAll s)"
| stop: "sc_step mcpy c s (stop_begin s)"
| join: "stop_join (exec_ended s) s = Some s' \<Longrightarrow> sc_step mcpy c s s'"

section \<open>The invariant\<close>

text \<open>How often the peer was answered for a handle, and how many answers can still come.\<close>

definition answers :: "nat \<Rightarrow> service_client \<Rightarrow> nat" where
  "answers r s = length (filter (\<lambda>e. fst e = Some r) (sent s))"

definition tickets :: "nat \<Rightarrow> service_client \<Rightarrow> nat" where
  "tickets r s = count_list (map fst (pending s) @ callbacks s) r"

definition ref_ok :: "copy_fun \<Rightarrow> service_client \<Rightarrow> nat \<Rightarrow> bool" where
  "ref_ok mcpy s r \<longleftrightarrow> answers r s + tickets r s \<le> 1
     \<and> (\<forall>m. early (exec s ! r) = Some m \<longrightarrow> sa_wf_for mcpy m \<and> getGID m = Some (gID (heap s ! r))
          \<and> answers r s = 0 \<and> tickets r s = 0 \<and> \<not> h_done (heap s ! r))
     \<and> (h_done (heap s ! r) \<longrightarrow> answers r s = 1 \<or> waitQueue (heap s ! r) \<noteq> [])
     \<and> (exec s ! r = Ended \<longrightarrow> answers r s = 1 \<or> waitQueue (heap s ! r) \<noteq> [] \<or> p_stopping s)"

definition sent_ok :: "service_client \<Rightarrow> bool" where
  "sent_ok s \<longleftrightarrow> (\<forall>e \<in> set (sent s). fst (snd e) = SERVICE_TO_SERVER \<and>
     (\<forall>r. fst e = Some r \<longrightarrow> r < length (heap s) \<and> snd (snd (snd e)) = gID (heap s ! r)))"

definition sc_inv :: "copy_fun \<Rightarrow> service_client \<Rightarrow> bool" where
  "sc_inv mcpy s \<longleftrightarrow> plugin_wf s \<and> length (exec s) = length (heap s) \<and> sent_ok s
     \<and> (\<forall>r < length (heap s). ref_ok mcpy s r)
     \<and> (\<forall>r. tickets r s > 0 \<longrightarrow> r < length (heap s))"

lemma sc_invD:
  assumes "sc_inv mcpy s"
  shows "plugin_wf s" "length (exec s) = length (heap s)" "sent_ok s"
    "\<And>r. r < length (heap s) \<Longrightarrow> ref_ok mcpy s r" "\<And>r. tickets r s > 0 \<Longrightarrow> r < length (heap s)"
  using assms by (auto simp: sc_inv_def)

lemma answers_sent [simp]:
  "answers q (p_send og op d g s) = answers q s + (if og = Some q then 1 else 0)"
  "answers q (upd r f s) = answers q s" "answers q (removeHandle r s) = answers q s"
  "answers q (set_exec r pc s) = answers q s" "answers q (finish r s) = answers q s"
  "answers q (s\<lparr>pending := x\<rparr>) = answers q s" "answers q (s\<lparr>callbacks := y\<rparr>) = answers q s"
  by (simp_all add: answers_def set_exec_def finish_def)

lemma tickets_frame [simp]:
  "tickets q (p_send og op d g s) = tickets q s" "tickets q (upd r f s) = tickets q s"
  "tickets q (removeHandle r s) = tickets q s" "tickets q (set_exec r pc s) = tickets q s"
  "tickets q (finish r s) = tickets q s"
  by (simp_all add: tickets_def set_exec_def finish_def p_send_def upd_def removeHandle_def)

lemma set_exec_simps [simp]:
  "heap (set_exec r pc s) = heap s" "handles (set_exec r pc s) = handles s" "toRemove (set_exec r pc s) = toRemove s"
  "p_stopping (set_exec r pc s) = p_stopping s" "sent (set_exec r pc s) = sent s"
  "p_definition (set_exec r pc s) = p_definition s" "exec (set_exec r pc s) = (exec s)[r := pc]"
  by (simp_all add: set_exec_def)

lemma exec_base [simp]:
  "exec (p_send og op d g s) = exec s" "exec (upd r f s) = exec s" "exec (removeHandle r s) = exec s"
  "exec (register h s) = exec s" "exec (stop_begin s) = exec s"
  by (simp_all add: p_send_def upd_def removeHandle_def register_def stop_begin_def)

text \<open>A step for one handle that adds no tickets for the others.\<close>

lemma sc_inv_update:
  assumes inv: "sc_inv mcpy s" and r: "r < length (heap s)"
    and heap: "heap t = (heap s)[r := h]" and gid: "gID h = gID (heap s ! r)"
    and exec: "exec t = (exec s)[r := pc]" and stop: "p_stopping s \<Longrightarrow> p_stopping t"
    and others: "\<And>q. q \<noteq> r \<Longrightarrow> answers q t = answers q s \<and> tickets q t \<le> tickets q s"
    and new: "ref_ok mcpy t r" and wf: "plugin_wf t" and sent: "sent_ok t"
  shows "sc_inv mcpy t"
proof -
  note D = sc_invD [OF inv]
  have "ref_ok mcpy t q" if "q < length (heap t)" for q
  proof (cases "q = r")
    case False
    then have "heap t ! q = heap s ! q" "exec t ! q = exec s ! q" by (simp_all add: heap exec)
    with D(4) [of q] others [OF False] stop that show ?thesis
      by (fastforce simp: ref_ok_def heap)
  qed (use new in simp)
  moreover have "q < length (heap t)" if "tickets q t > 0" for q
    using that others [of q] D(5) [of q] r by (cases "q = r") (auto simp: heap)
  ultimately show ?thesis
    using D(2) wf sent by (simp add: sc_inv_def heap exec)
qed

lemma sent_ok_send:
  "sent_ok s \<Longrightarrow> (\<And>r. og = Some r \<Longrightarrow> r < length (heap s) \<and> g = gID (heap s ! r)) \<Longrightarrow>
     sent_ok (p_send og SERVICE_TO_SERVER d g s)"
  by (auto simp: sent_ok_def)

lemma sent_ok_frame:
  "sent_ok s \<Longrightarrow> sent t = sent s \<Longrightarrow> heap t = heap s \<Longrightarrow> sent_ok t"
  "sent_ok s \<Longrightarrow> (\<And>h. gID (f h) = gID h) \<Longrightarrow> sent_ok (upd r f s)"
  by (auto simp: sent_ok_def heap_upd)

lemma sent_ok_simps [simp]:
  "sent_ok (set_exec r pc s) = sent_ok s" "sent_ok (removeHandle r s) = sent_ok s"
  "sent_ok (s\<lparr>pending := x\<rparr>) = sent_ok s" "sent_ok (s\<lparr>callbacks := y\<rparr>) = sent_ok s"
  by (simp_all add: sent_ok_def)

lemma wf_frame [simp]:
  "plugin_wf (set_exec r pc s) = plugin_wf s" "plugin_wf (s\<lparr>pending := x\<rparr>) = plugin_wf s"
  "plugin_wf (s\<lparr>callbacks := y\<rparr>) = plugin_wf s" "plugin_wf (s\<lparr>exec := z\<rparr>) = plugin_wf s"
  by (simp_all add: plugin_wf_def)

lemma exec_of_Some: "exec_of r s = Some pc \<longleftrightarrow> r < length (exec s) \<and> exec s ! r = pc"
  by (auto simp: exec_of_def)

text \<open>What is known of a thread that has not sent its request.\<close>

lemma early_facts:
  assumes "sc_inv mcpy s" and "r < length (exec s)" and "early (exec s ! r) = Some m"
  shows "r < length (heap s)" "sa_wf_for mcpy m" "getGID m = Some (gID (heap s ! r))"
    "answers r s = 0" "tickets r s = 0" "\<not> h_done (heap s ! r)"
  using sc_invD(2,4) [OF assms(1)] assms(2,3) by (auto simp: ref_ok_def)

lemma sc_inv_advance:
  assumes inv: "sc_inv mcpy s" and r: "r < length (exec s)" "early (exec s ! r) = Some m"
    and pc: "early pc = Some m'" "sa_wf_for mcpy m'" "getGID m' = getGID m"
  shows "sc_inv mcpy (set_exec r pc s)"
proof -
  note D = sc_invD [OF inv] and E = early_facts [OF inv r]
  have "pc \<noteq> Ended" using pc(1) by auto
  then show ?thesis
    using D E pc r(1)
    by (intro sc_inv_update [OF inv E(1), where h = "heap s ! r" and pc = pc])
      (auto simp: ref_ok_def intro: sent_ok_frame)
qed

lemma sc_inv_refuse:
  assumes inv: "sc_inv mcpy s" and r: "r < length (exec s)" "early (exec s ! r) = Some m"
    and "getGID m = Some gid"
  shows "sc_inv mcpy (refuse r gid s)"
proof -
  note D = sc_invD [OF inv] and E = early_facts [OF inv r]
  have "gid = gID (heap s ! r)" using assms(4) E(3) by simp
  then have "sent_ok (refuse r gid s)"
    using E(1) sent_ok_send [OF D(3), of "Some r"] by (simp add: refuse_def finish_def)
  moreover have "ref_ok mcpy (refuse r gid s) r"
    using E r(1) by (simp add: ref_ok_def refuse_def finish_def)
  moreover have "plugin_wf (refuse r gid s)"
    using D(1) E(1) by (simp add: refuse_def finish_def wf_updates)
  ultimately show ?thesis
    by (intro sc_inv_update [OF inv E(1), where h = "heap s ! r" and pc = Ended])
      (simp_all add: refuse_def finish_def)
qed

lemma sc_inv_read:
  assumes inv: "sc_inv mcpy s" and st: "sc_read mcpy c r s = Some s'"
  shows "sc_inv mcpy s'"
proof -
  obtain m where r: "r < length (exec s)" "exec s ! r = Start m"
    using st by (auto simp: sc_read_def exec_of_Some split: option.splits exec_pc.splits)
  then have e: "early (exec s ! r) = Some m" by simp
  note E = early_facts [OF inv r(1) e]
  obtain b m' d where u: "unpack mcpy c m = Some (b, m')" "sa_wf_for mcpy m'" "getGID m' = getGID m"
    "getData m' = Some d"
    using unpack_spec [OF E(2), of c] by blast
  then have "s' \<in> {refuse r (gID (heap s ! r)) s, set_exec r (Checked m') s}"
    using st r E(3) by (auto simp: sc_read_def exec_of_def split: if_splits)
  then show ?thesis
    using sc_inv_refuse [OF inv r(1) e E(3)] sc_inv_advance [OF inv r(1) e _ u(2,3), of "Checked m'"] by auto
qed

lemma sc_inv_await:
  assumes inv: "sc_inv mcpy s" and st: "sc_await avail r s = Some s'"
  shows "sc_inv mcpy s'"
proof -
  obtain m gid where r: "r < length (exec s)" "exec s ! r = Checked m" and gid: "getGID m = Some gid"
    and s': "s' = (if avail then set_exec r (Available m) s else refuse r gid s)"
    using st by (auto simp: sc_await_def exec_of_Some bind_eq_Some_conv split: option.splits exec_pc.splits)
  then have e: "early (exec s ! r) = Some m" by simp
  show ?thesis
    using sc_inv_refuse [OF inv r(1) e gid] early_facts(2) [OF inv r(1) e]
      sc_inv_advance [OF inv r(1) e, of "Available m" m] by (simp add: s')
qed

lemma sc_inv_end:
  assumes inv: "sc_inv mcpy s" and r: "r < length (heap s)" and h: "gID h = gID (heap s ! r)"
    and t: "heap t = (heap s)[r := h]" "exec t = exec s" "sent t = sent s" "p_stopping t = p_stopping s"
      "\<And>q. tickets q t \<le> tickets q s" "plugin_wf t"
    and e: "answers r s = 1 \<or> waitQueue h \<noteq> [] \<or> p_stopping s"
      "h_done h \<Longrightarrow> answers r s = 1 \<or> waitQueue h \<noteq> []"
  shows "sc_inv mcpy (finish r t)"
proof -
  note D = sc_invD [OF inv]
  have ans: "answers q t = answers q s" for q using t(3) by (simp add: answers_def)
  have "answers r s + tickets r s \<le> 1" using D(4) [OF r] by (simp add: ref_ok_def)
  then have "answers r s + tickets r t \<le> 1" using t(5) [of r] by linarith
  then have "ref_ok mcpy (finish r t) r"
    using e r ans D(2) by (simp add: ref_ok_def finish_def t(1,2,4))
  moreover have "sent_ok (finish r t)"
    using D(3) h t(1,3) r by (auto simp: sent_ok_def finish_def nth_list_update)
  moreover have "plugin_wf (finish r t)" using t(1,6) r by (simp add: finish_def wf_updates)
  ultimately show ?thesis
    using t(5) ans by (intro sc_inv_update [OF inv r _ h, where pc = Ended]) (simp_all add: finish_def t(1,2,4))
qed

lemma sc_inv_check:
  assumes inv: "sc_inv mcpy s" and st: "sc_check r s = Some s'"
  shows "sc_inv mcpy s'"
proof -
  note D = sc_invD [OF inv]
  obtain m where r: "r < length (exec s)" "exec s ! r = Available m"
    and s': "s' = (if p_stopping s then finish r s else set_exec r (Requesting m) s)"
    using st by (auto simp: sc_check_def exec_of_Some split: option.splits exec_pc.splits)
  then have e: "early (exec s ! r) = Some m" by simp
  note E = early_facts [OF inv r(1) e]
  show ?thesis
    using sc_inv_end [OF inv E(1), of "heap s ! r" s] sc_inv_advance [OF inv r(1) e _ E(2), of "Requesting m"] D(1) E
    by (auto simp: s')
qed

lemma sc_inv_request:
  assumes inv: "sc_inv mcpy s" and st: "sc_request result r s = Some s'"
  shows "sc_inv mcpy s'"
proof -
  note D = sc_invD [OF inv]
  obtain m where r: "r < length (exec s)" "exec s ! r = Requesting m"
    using st by (auto simp: sc_request_def exec_of_Some split: option.splits exec_pc.splits)
  then have e: "early (exec s ! r) = Some m" by simp
  note E = early_facts [OF inv r(1) e]
  show ?thesis
  proof (cases result)
    case None
    then have "s' = refuse r (gID (heap s ! r)) s"
      using st r E(3) by (simp add: sc_request_def exec_of_def)
    then show ?thesis using sc_inv_refuse [OF inv r(1) e E(3)] by simp
  next
    case (Some i)
    then have s': "s' = set_exec r (Requested i) (s\<lparr>pending := pending s @ [(r, i)]\<rparr>)"
      using st r by (simp add: sc_request_def exec_of_def)
    have t: "tickets q s' = tickets q s + (if q = r then 1 else 0)" for q
      by (simp add: s' tickets_def set_exec_def)
    have "ref_ok mcpy s' r" using E r(1) t by (simp add: ref_ok_def s' answers_def)
    then show ?thesis
      using D(1,3) t
      by (intro sc_inv_update [OF inv E(1), where h = "heap s ! r" and pc = "Requested i"])
        (simp_all add: s' set_exec_def answers_def sent_ok_def)
  qed
qed

lemma tickets_filter: "tickets q (s\<lparr>pending := filter P (pending s)\<rparr>) \<le> tickets q s"
proof -
  have "count_list (map fst (filter P ps)) q \<le> count_list (map fst ps) q" for ps
    by (induction ps) auto
  then show ?thesis by (simp add: tickets_def count_list_append)
qed

lemma sc_inv_wake:
  assumes inv: "sc_inv mcpy s" and st: "sc_wake r s = Some s'"
  shows "sc_inv mcpy s'"
proof -
  note D = sc_invD [OF inv]
  obtain i where r: "r < length (heap s)" "exec s ! r = Requested i" "r < length (exec s)"
    using st D(2) by (auto simp: sc_wake_def exec_of_Some split: option.splits exec_pc.splits)
  note R = D(4) [OF r(1)]
  show ?thesis
  proof (cases "h_done (heap s ! r) \<or> p_stopping s")
    case True
    then have "s' = finish r s" using st r by (simp add: sc_wake_def exec_of_def)
    then show ?thesis
      using sc_inv_end [OF inv r(1), of "heap s ! r" s] True R D(1) by (auto simp: ref_ok_def)
  next
    case False
    let ?t = "s\<lparr>pending := filter (\<lambda>p. snd p \<noteq> i) (pending s)\<rparr>"
    have w: "waitQueue (heap s ! r) \<noteq> []"
      and s': "s' = finish r (upd r (\<lambda>h. h\<lparr>h_done := True\<rparr>) ?t)"
      using False st r by (auto simp: sc_wake_def exec_of_def split: if_splits)
    show ?thesis
      using w D(1) unfolding s'
      by (intro sc_inv_end [OF inv r(1), where h = "(heap s ! r)\<lparr>h_done := True\<rparr>"])
        (auto simp: heap_upd_eq tickets_filter intro: wf_updates)
  qed
qed

text \<open>Steps that keep the handles and the positions, and add no tickets or answers.\<close>

lemma sc_inv_frame:
  assumes inv: "sc_inv mcpy s" and t: "heap t = heap s" "exec t = exec s" "sent t = sent s"
    "p_stopping s \<Longrightarrow> p_stopping t" "\<And>q. tickets q t \<le> tickets q s" "plugin_wf t"
  shows "sc_inv mcpy t"
proof -
  note D = sc_invD [OF inv]
  have ans: "answers q t = answers q s" for q using t(3) by (simp add: answers_def)
  have "ref_ok mcpy t q" if "q < length (heap s)" for q
    using D(4) [OF that] t(4) t(5) [of q] ans [of q] by (auto simp: ref_ok_def t(1,2))
  moreover have "q < length (heap t)" if "tickets q t > 0" for q
    using that t(5) [of q] D(5) [of q] by (simp add: t(1))
  moreover have "sent_ok t" using D(3) by (simp add: sent_ok_def t(1,3))
  ultimately show ?thesis using D(2) t(6) by (simp add: sc_inv_def t(1,2))
qed

lemma count_list_remove1: "x \<in> set xs \<Longrightarrow> count_list (remove1 x xs) q = count_list xs q - (if q = x then 1 else 0)"
  by (induction xs) auto

lemma count_map_fst_remove1:
  "p \<in> set ps \<Longrightarrow> count_list (map fst ps) q = count_list (map fst (remove1 p ps)) q + (if q = fst p then 1 else 0)"
proof (induction ps)
  case (Cons a ps)
  then show ?case by (cases "a = p") simp_all
qed simp

lemma tickets_response:
  assumes "(r, i) \<in> set (pending s)"
  shows "tickets q (s\<lparr>pending := remove1 (r, i) (pending s), callbacks := callbacks s @ [r]\<rparr>) = tickets q s"
  by (simp add: tickets_def count_list_append count_map_fst_remove1 [OF assms])

lemma sc_inv_response:
  assumes inv: "sc_inv mcpy s" and st: "sc_response p s = Some s'"
  shows "sc_inv mcpy s'"
proof -
  obtain r i where p: "p = (r, i)" by fastforce
  then have s': "s' = s\<lparr>pending := remove1 (r, i) (pending s), callbacks := callbacks s @ [r]\<rparr>"
    "(r, i) \<in> set (pending s)"
    using st by (auto simp: sc_response_def split: if_splits)
  show ?thesis
    using sc_invD(1) [OF inv] s'(2)
    by (intro sc_inv_frame [OF inv]) (simp_all add: s'(1) tickets_response)
qed

lemma sc_inv_callback:
  assumes inv: "sc_inv mcpy s" and st: "sendAndDone data r s = Some s'"
  shows "sc_inv mcpy s'"
proof -
  note D = sc_invD [OF inv]
  let ?q = "p_send (Some r) SERVICE_TO_SERVER data (gID (heap s ! r)) (s\<lparr>callbacks := remove1 r (callbacks s)\<rparr>)"
  have mem: "r \<in> set (callbacks s)" and s': "s' = upd r (\<lambda>h. h\<lparr>h_done := True\<rparr>) ?q"
    using st by (auto simp: sendAndDone_def split: if_splits)
  have pos: "count_list (callbacks s) r > 0" using mem count_list_0_iff [of "callbacks s" r] by auto
  have pend: "pending s' = pending s" "callbacks s' = remove1 r (callbacks s)"
    by (simp_all add: s' p_send_def upd_def)
  have t: "tickets q s' = tickets q s - (if q = r then 1 else 0)" for q
    using pos by (cases "q = r") (simp_all add: tickets_def count_list_append pend count_list_remove1 [OF mem])
  have tr: "tickets r s > 0" using pos by (simp add: tickets_def count_list_append)
  have r: "r < length (heap s)" using D(5) tr by blast
  have a: "answers q s' = answers q s + (if q = r then 1 else 0)" for q by (simp add: s')
  have one: "answers r s = 0" "tickets r s = 1" "early (exec s ! r) = None"
    using D(4) [OF r] tr by (auto simp: ref_ok_def)
  moreover have "exec s' = exec s" "h_done (heap s' ! r)"
    using r by (simp_all add: s' heap_upd p_send_def)
  ultimately have "ref_ok mcpy s' r" by (simp add: ref_ok_def t a del: One_nat_def)
  moreover have "sent_ok s'"
    unfolding s' using D(3) r by (intro sent_ok_frame(2) sent_ok_send) (simp_all add: sent_ok_def)
  moreover have "plugin_wf s'" using D(1) by (simp add: s' wf_updates)
  ultimately show ?thesis
    by (intro sc_inv_update [OF inv r, where h = "(heap s ! r)\<lparr>h_done := True\<rparr>" and pc = "exec s ! r"])
      (simp_all add: t a, simp_all add: s' heap_upd_eq p_send_def)
qed

lemma sc_handle_cases:
  assumes "sc_handle m s = Some s'"
  obtains (known) gid where "getGID m = Some gid" "sa_opcode m = SERVICE_TO_CLIENT" "lookup gid s \<noteq> None"
      "s' = p_send None SERVICE_TO_SERVER (sc_error s) gid s"
    | (new) gid where "getGID m = Some gid" "sa_opcode m = SERVICE_TO_CLIENT" "lookup gid s = None"
      "\<not> p_stopping s" "s' = (register (new_handle gid 0) s)\<lparr>exec := exec s @ [Start m]\<rparr>"
    | (cancel) gid r where "getGID m = Some gid" "sa_opcode m = SERVICE_TO_CLIENT_CANCEL" "lookup gid s = Some r"
      "s' = upd r (\<lambda>h. h\<lparr>waitQueue := waitQueue h @ [m]\<rparr>) s"
    | (drop) "s' = s"
proof -
  obtain gid where gid: "getGID m = Some gid"
    using assms by (auto simp: sc_handle_def getGIDString_eq bind_eq_Some_conv)
  note defs = sc_handle_def getGIDString_eq isServiceActionOpCode_def Let_def gid
  consider "sa_opcode m = SERVICE_TO_CLIENT" | "sa_opcode m = SERVICE_TO_CLIENT_CANCEL"
    | "sa_opcode m \<noteq> SERVICE_TO_CLIENT" "sa_opcode m \<noteq> SERVICE_TO_CLIENT_CANCEL" by blast
  then show ?thesis
  proof cases
    case 1
    then have e: "Some s' = (if lookup gid s \<noteq> None then Some (p_send None SERVICE_TO_SERVER (sc_error s) gid s)
        else if p_stopping s then Some s
        else Some ((register (new_handle gid 0) s)\<lparr>exec := exec s @ [Start m]\<rparr>))"
      using assms by (simp add: defs lookup_def)
    show ?thesis
    proof (cases "lookup gid s = None")
      case None: True
      show ?thesis
      proof (cases "p_stopping s")
        case True
        then show ?thesis using e None by (intro drop) simp
      next
        case False
        then show ?thesis using e None by (intro new [OF gid 1 None]) simp_all
      qed
    next
      case False
      then show ?thesis using e by (intro known [OF gid 1]) simp_all
    qed
  next
    case 2
    then have e: "Some s' = (case lookup gid s of None \<Rightarrow> Some s
        | Some r \<Rightarrow> Some (upd r (\<lambda>h. h\<lparr>waitQueue := waitQueue h @ [m]\<rparr>) s))"
      using assms by (simp add: defs lookup_def)
    show ?thesis
    proof (cases "lookup gid s")
      case None
      then show ?thesis using e by (intro drop) simp
    next
      case (Some r)
      then show ?thesis using e by (intro cancel [OF gid 2]) simp_all
    qed
  next
    case 3
    then have "s' = s" using assms by (simp add: defs)
    then show ?thesis by (rule drop)
  qed
qed

lemma sc_inv_handle:
  assumes inv: "sc_inv mcpy s" and m: "sa_wf_for mcpy m" and st: "sc_handle m s = Some s'"
  shows "sc_inv mcpy s'"
proof -
  note D = sc_invD [OF inv]
  from st show ?thesis
  proof (cases rule: sc_handle_cases)
    case (known gid)
    have "answers q s' = answers q s" for q by (simp add: known(4))
    then show ?thesis
      using D by (auto simp: sc_inv_def known(4) ref_ok_def intro: sent_ok_send wf_updates)
  next
    case (new gid)
    let ?n = "length (heap s)"
    have no: "tickets ?n s = 0" using D(5) [of ?n] by auto
    have no': "answers ?n s = 0"
      using D(3) by (force simp: answers_def sent_ok_def filter_empty_conv)
    have t: "tickets q s' = tickets q s" "answers q s' = answers q s" for q
      by (simp_all add: new(5) tickets_def answers_def register_def)
    have "ref_ok mcpy s' q" if "q < length (heap s')" for q
    proof (cases "q = ?n")
      case True
      then show ?thesis
        using t no no' new(1) m D(2) by (simp add: ref_ok_def) (simp add: new(5) nth_append D(2))
    next
      case False
      then have q: "q < ?n" using that by (simp add: new(5))
      then have "heap s' ! q = heap s ! q" "exec s' ! q = exec s ! q" using D(2) by (simp_all add: new(5) nth_append)
      moreover have "p_stopping s' = p_stopping s" by (simp add: new(5))
      ultimately show ?thesis using D(4) [OF q] t by (simp add: ref_ok_def)
    qed
    moreover have "q < length (heap s')" if "tickets q s' > 0" for q
      using that t D(5) [of q] by (simp add: new(5))
    moreover have "sent_ok s'" using D(3) by (fastforce simp: sent_ok_def new(5) nth_append)
    moreover have "plugin_wf s'"
      using evolve_wf [OF evolve_register [OF evolve_refl] D(1)] by (simp add: new(5))
    ultimately show ?thesis using D(2) by (simp add: sc_inv_def) (simp add: new(5))
  next
    case (cancel gid r)
    have r: "r < length (heap s)" using lookup_valid [OF D(1) cancel(3)] by blast
    have "ref_ok mcpy s' r" using D(4) [OF r] r by (auto simp: ref_ok_def cancel(4) heap_upd)
    then show ?thesis
      using D(1,3)
      by (intro sc_inv_update [OF inv r, where pc = "exec s ! r" and t = s'
            and h = "(heap s ! r)\<lparr>waitQueue := waitQueue (heap s ! r) @ [m]\<rparr>"])
        (simp_all add: cancel(4) heap_upd_eq wf_updates sent_ok_frame(2))
  next
    case drop
    then show ?thesis using inv by simp
  qed
qed

lemma exec_removal:
  "executeRemove ended (s :: service_client) = Some t \<Longrightarrow> exec t = exec s \<and> tickets q t = tickets q s"
  "stop_join ended (s :: service_client) = Some t \<Longrightarrow> exec t = exec s \<and> tickets q t = tickets q s"
  by (auto simp: executeRemove_def stop_join_def tickets_def split: if_splits list.splits prod.splits)

lemma sc_step_inv:
  assumes ok: "copy_ok mcpy" and st: "sc_step mcpy c s s'" and inv: "sc_inv mcpy s"
  shows "sc_inv mcpy s'"
  using st inv
proof (induction rule: sc_step.induct)
  case (receive x m s s')
  from sa_wf_for_copy_ok [OF ok fromMessage_wf [OF receive(1)]] receive show ?case
    by (auto intro: sc_inv_handle)
next
  case (remove s s')
  show ?case
    using removal_frame(1) [OF remove(1)] exec_removal(1) [OF remove(1)] wf_updates(5) [OF remove(1)]
    by (intro sc_inv_frame [OF remove.prems]) (simp_all add: sc_invD(1) [OF remove.prems])
next
  case (join s s')
  show ?case
    using removal_frame(2) [OF join(1)] exec_removal(2) [OF join(1)] wf_updates(6) [OF join(1)]
    by (intro sc_inv_frame [OF join.prems]) (simp_all add: sc_invD(1) [OF join.prems])
next
  case (cancel_all s)
  show ?case
    by (intro sc_inv_frame [OF cancel_all])
      (simp_all add: cancelAll_def tickets_def sc_invD(1) [OF cancel_all])
next
  case (stop s)
  show ?case
    by (intro sc_inv_frame [OF stop])
      (simp_all add: wf_updates sc_invD(1) [OF stop], simp add: tickets_def stop_begin_def)
qed (auto intro: sc_inv_read sc_inv_await sc_inv_check sc_inv_request sc_inv_wake sc_inv_response sc_inv_callback)

lemma sc_inv_init: "sc_inv mcpy (service_client_init d err n dyn)"
  by (simp add: sc_inv_def service_client_init_def plugin_state.extend_def plugin_init_def plugin_wf_def
      map_ok_def sent_ok_def tickets_def)

lemma evolve_client [evolves]:
  "evolve p q \<Longrightarrow> evolve p (set_exec r pc q)" "evolve p q \<Longrightarrow> evolve p (q\<lparr>exec := x\<rparr>)"
  "evolve p q \<Longrightarrow> evolve p (q\<lparr>pending := y\<rparr>)" "evolve p q \<Longrightarrow> evolve p (q\<lparr>callbacks := z\<rparr>)"
  by (simp_all add: evolve_def set_exec_def)

lemma sc_step_evolves:
  assumes "sc_step mcpy c s s'" and "sc_inv mcpy s"
  shows "evolve s s'"
  using assms
proof (induction rule: sc_step.induct)
  case (receive x m s s')
  from receive(2) show ?case
    by (cases rule: sc_handle_cases) (auto intro!: evolves)
next
  case (remove s s')
  then show ?case by (blast intro: evolve_executeRemove)
next
  case (join s s')
  then show ?case by (blast intro: evolve_stop_join)
next
  case (response p s s')
  then show ?case by (auto simp: sc_response_def split: if_splits intro!: evolves)
next
  case (callback data r s s')
  then show ?case by (auto simp: sendAndDone_def split: if_splits intro!: evolves)
next
  case (cancel_all s)
  then show ?case by (auto simp: cancelAll_def intro!: evolves)
next
  case (stop s)
  then show ?case by (intro evolves)
qed (auto simp: sc_read_def sc_await_def sc_check_def sc_request_def sc_wake_def refuse_def finish_def
    exec_of_Some sc_invD(2) bind_eq_Some_conv split: option.splits exec_pc.splits if_splits intro!: evolves)

interpretation scp: handle_plugin "sc_step mcpy c" "\<lambda>s. copy_ok mcpy \<and> sc_inv mcpy s" for mcpy c
  by unfold_locales (auto intro: sc_step_inv sc_step_evolves dest: sc_invD(1))

lemma sc_reachable_inv:
  "(sc_step mcpy c)\<^sup>*\<^sup>* (service_client_init d err n dyn) s \<Longrightarrow> copy_ok mcpy \<Longrightarrow> sc_inv mcpy s"
  using scp.reach_inv [of mcpy c "service_client_init d err n dyn" s] sc_inv_init by blast

section \<open>Stopping\<close>

text \<open>The steps of the threads of the handles, and of \<open>stop\<close> when it joins them.\<close>

inductive sc_own_step :: "copy_fun \<Rightarrow> codecs \<Rightarrow> service_client \<Rightarrow> service_client \<Rightarrow> bool"
    for mcpy :: copy_fun and c :: codecs where
  "sc_read mcpy c r s = Some s' \<Longrightarrow> sc_own_step mcpy c s s'"
| "sc_await avail r s = Some s' \<Longrightarrow> sc_own_step mcpy c s s'"
| "sc_check r s = Some s' \<Longrightarrow> sc_own_step mcpy c s s'"
| "sc_request result r s = Some s' \<Longrightarrow> sc_own_step mcpy c s s'"
| "sc_wake r s = Some s' \<Longrightarrow> sc_own_step mcpy c s s'"
| "handles s \<noteq> [] \<Longrightarrow> stop_join (exec_ended s) s = Some s' \<Longrightarrow> sc_own_step mcpy c s s'"

fun exec_rank :: "exec_pc \<Rightarrow> nat" where
  "exec_rank (Start m) = 5"
| "exec_rank (Checked m) = 4"
| "exec_rank (Available m) = 3"
| "exec_rank (Requesting m) = 2"
| "exec_rank (Requested i) = 1"
| "exec_rank Ended = 0"

definition stop_rank :: "service_client \<Rightarrow> nat" where
  "stop_rank s = sum_list (map exec_rank (exec s)) + length (handles s)"

lemma rank_update:
  "r < length xs \<Longrightarrow> exec_rank pc < exec_rank (xs ! r) \<Longrightarrow>
     sum_list (map exec_rank (xs[r := pc])) < sum_list (map exec_rank xs)"
  by (induction xs arbitrary: r) (auto split: nat.splits)

lemma stop_rank_exec:
  "r < length (exec s) \<Longrightarrow> exec_rank pc < exec_rank (exec s ! r) \<Longrightarrow> exec t = (exec s)[r := pc] \<Longrightarrow>
     handles t = handles s \<Longrightarrow> stop_rank t < stop_rank s"
  by (simp add: stop_rank_def rank_update)

lemma own_step_rank: "sc_own_step mcpy c s t \<Longrightarrow> stop_rank t < stop_rank s"
proof (induction rule: sc_own_step.induct)
  case (6 s s')
  then show ?case
    by (auto simp: stop_join_def stop_rank_def map_erase_def less_Suc_eq_le split: list.splits if_splits)
qed (auto simp: sc_read_def sc_await_def sc_check_def sc_request_def sc_wake_def refuse_def finish_def
    exec_of_Some bind_eq_Some_conv split: option.splits exec_pc.splits if_splits intro!: stop_rank_exec)

text \<open>While the plugin is stopping, a thread that has not ended can take a step.\<close>

lemma thread_step:
  assumes inv: "sc_inv mcpy s" and "p_stopping s" and r: "r < length (exec s)" "exec s ! r \<noteq> Ended"
  shows "\<exists>t. sc_own_step mcpy c s t"
proof (cases "early (exec s ! r)")
  case (Some m)
  note E = early_facts [OF inv r(1) Some]
  obtain b m' d where u: "unpack mcpy c m = Some (b, m')" "getGID m' = getGID m" "getData m' = Some d"
    using unpack_spec [OF E(2), of c] by blast
  consider "exec s ! r = Start m" | "exec s ! r = Checked m" | "exec s ! r = Available m"
    | "exec s ! r = Requesting m"
    using Some by (cases "exec s ! r") auto
  then show ?thesis
  proof cases
    case 1
    then have "\<exists>t. sc_read mcpy c r s = Some t" using u E(3) r(1) by (simp add: sc_read_def exec_of_def)
    then show ?thesis by (blast intro: sc_own_step.intros)
  next
    case 2
    then have "\<exists>t. sc_await True r s = Some t" using E(3) r(1) by (simp add: sc_await_def exec_of_def)
    then show ?thesis by (blast intro: sc_own_step.intros)
  next
    case 3
    then have "\<exists>t. sc_check r s = Some t" using r(1) by (simp add: sc_check_def exec_of_def)
    then show ?thesis by (blast intro: sc_own_step.intros)
  next
    case 4
    then have "\<exists>t. sc_request None r s = Some t" using E(3) r(1) by (simp add: sc_request_def exec_of_def)
    then show ?thesis by (blast intro: sc_own_step.intros)
  qed
next
  case None
  then obtain i where "exec s ! r = Requested i" using r(2) by (cases "exec s ! r") auto
  then have "\<exists>t. sc_wake r s = Some t" using r(1) assms(2) by (simp add: sc_wake_def exec_of_def)
  then show ?thesis by (blast intro: sc_own_step.intros)
qed

lemma stop_progress:
  assumes inv: "sc_inv mcpy s" and st: "p_stopping s" and "handles s \<noteq> []"
  shows "\<exists>t. sc_own_step mcpy c s t"
proof -
  obtain k r xs where h: "handles s = (k, r) # xs" using assms(3) by (metis list.exhaust surj_pair)
  then have r: "r < length (exec s)"
    using sc_invD(1,2) [OF inv] by (auto simp: plugin_wf_def dest!: spec [of _ k])
  show ?thesis
  proof (cases "exec s ! r = Ended")
    case True
    then have "\<exists>t. stop_join (exec_ended s) s = Some t"
      using h st r by (simp add: stop_join_def exec_ended_def exec_of_def)
    then show ?thesis using assms(3) by (blast intro: sc_own_step.intros)
  next
    case False
    with thread_step [OF inv st r] show ?thesis by blast
  qed
qed

lemma own_is_step: "sc_own_step mcpy c s t \<Longrightarrow> sc_step mcpy c s t"
  by (induction rule: sc_own_step.induct) (blast intro: sc_step.intros)+

lemma own_steps_bounded: "(sc_own_step mcpy c ^^ n) s t \<Longrightarrow> n + stop_rank t \<le> stop_rank s"
  by (induction n arbitrary: t) (fastforce dest: own_step_rank)+

lemma own_steps_keep:
  assumes "(sc_own_step mcpy c)\<^sup>*\<^sup>* s t" and "copy_ok mcpy" and "sc_inv mcpy s" and "p_stopping s"
  shows "sc_inv mcpy t \<and> p_stopping t"
  using assms(1)
proof (induction rule: rtranclp_induct)
  case (step t u)
  then show ?case
    using sc_step_inv [OF assms(2) own_is_step] sc_step_evolves [OF own_is_step] by (fastforce simp: evolve_def)
qed (use assms in simp)

lemma stop_completes:
  assumes "copy_ok mcpy" and "sc_inv mcpy s" and "p_stopping s"
  shows "\<exists>t. (sc_own_step mcpy c)\<^sup>*\<^sup>* s t \<and> handles t = []"
  using assms(2,3)
proof (induction "stop_rank s" arbitrary: s rule: less_induct)
  case less
  show ?case
  proof (cases "handles s = []")
    case False
    obtain t where t: "sc_own_step mcpy c s t" using stop_progress [OF less.prems False] by blast
    have "sc_inv mcpy t \<and> p_stopping t"
      by (rule own_steps_keep [OF r_into_rtranclp [where r = "sc_own_step mcpy c", OF t] assms(1) less.prems])
    then obtain u where "(sc_own_step mcpy c)\<^sup>*\<^sup>* t u" "handles u = []"
      using less.hyps [OF own_step_rank [OF t]] by blast
    with t show ?thesis by (blast intro: converse_rtranclp_into_rtranclp)
  qed blast
qed

lemma sc_answers:
  assumes inv: "sc_inv mcpy s" and r: "r < length (heap s)"
  shows "answers r s \<le> 1 \<and> (\<forall>e \<in> set (sent s). fst e = Some r \<longrightarrow> fst (snd e) = SERVICE_TO_SERVER \<and> snd (snd (snd e)) = gID (heap s ! r))
    \<and> (exec_of r s = Some Ended \<longrightarrow> answers r s = 1 \<or> waitQueue (heap s ! r) \<noteq> [] \<or> p_stopping s)"
  using sc_invD(3) [OF inv] sc_invD(4) [OF inv r] by (auto simp: sent_ok_def ref_ok_def exec_of_Some)

end
