(* ===== verification/ActionServer.thy ===== *)
theory ActionServer
  imports ServiceActionHandle
begin

text \<open>
  \<^verbatim>\<open>include/connect/action/actionServer.hpp\<close>: the side of an action that offers it to local ROS
  clients. The callbacks of rclcpp_action forward a goal and a cancel request and wait for the answer
  of the peer; for an accepted goal a thread passes feedback and the result on to the goal handle.
\<close>

section \<open>State\<close>

text \<open>What is done to the goal handle of a handle (the virtual functions of the plugin).\<close>

datatype outcome = Feedback bytes | Succeed bytes | Cancel bytes | Abort bytes

text \<open>The position of the thread of a handle in \<open>executeAccepted\<close>; \<open>Joined\<close> is its end.\<close>

datatype run_pc = No_thread | Loop | At_wait | Handling sa_message | Joined

text \<open>The positions of the calls of \<open>sendGoalAndWait\<close> and \<open>sendCancelAndWait\<close>.\<close>

datatype goal_pc =
    G_prepared nat | G_posted nat | G_waiting nat | G_accepted | G_rejected | G_started

datatype cancel_pc =
    C_found nat | C_posted nat | C_waiting nat | C_accept | C_reject

record goal_call =
  goal_gid :: bytes
  goal_data :: bytes
  goal_pc :: goal_pc

record cancel_call =
  cancel_gid :: bytes
  cancel_pc :: cancel_pc

text \<open>
  \<open>runs\<close> has an entry for every handle. \<open>outcomes\<close> records the calls on the goal handles and
  \<open>queued\<close> the messages that were put into the wait queues.
\<close>

record action_server = plugin_state +
  goals :: "goal_call list"
  cancels :: "cancel_call list"
  runs :: "run_pc list"
  outcomes :: "(nat \<times> outcome) list"
  queued_log :: "(nat \<times> sa_message) list"

definition action_server_init :: "Service_Action_t \<Rightarrow> action_server" where
  "action_server_init d = plugin_state.extend (plugin_init d)
     \<lparr>goals = [], cancels = [], runs = [], outcomes = [], queued_log = []\<rparr>"

definition set_goal :: "nat \<Rightarrow> goal_pc \<Rightarrow> action_server \<Rightarrow> action_server" where
  "set_goal k pc s = s\<lparr>goals := (goals s)[k := (goals s ! k)\<lparr>goal_pc := pc\<rparr>]\<rparr>"

definition set_cancel :: "nat \<Rightarrow> cancel_pc \<Rightarrow> action_server \<Rightarrow> action_server" where
  "set_cancel k pc s = s\<lparr>cancels := (cancels s)[k := (cancels s ! k)\<lparr>cancel_pc := pc\<rparr>]\<rparr>"

definition set_run :: "nat \<Rightarrow> run_pc \<Rightarrow> action_server \<Rightarrow> action_server" where
  "set_run r pc s = s\<lparr>runs := (runs s)[r := pc]\<rparr>"

definition goal_of :: "nat \<Rightarrow> action_server \<Rightarrow> goal_pc option" where
  "goal_of k s = (if k < length (goals s) then Some (goal_pc (goals s ! k)) else None)"

definition cancel_of :: "nat \<Rightarrow> action_server \<Rightarrow> cancel_pc option" where
  "cancel_of k s = (if k < length (cancels s) then Some (cancel_pc (cancels s ! k)) else None)"

definition run_of :: "nat \<Rightarrow> action_server \<Rightarrow> run_pc option" where
  "run_of r s = (if r < length (runs s) then Some (runs s ! r) else None)"

definition emit :: "nat \<Rightarrow> outcome \<Rightarrow> action_server \<Rightarrow> action_server" where
  "emit r x s = s\<lparr>outcomes := outcomes s @ [(r, x)]\<rparr>"

section \<open>handle\<close>

definition as_handle :: "sa_message \<Rightarrow> action_server \<Rightarrow> action_server option" where
  "as_handle m s = do {
     key \<leftarrow> getGIDString m;
     case map_of (handles s) key of
       None \<Rightarrow> Some s
     | Some r \<Rightarrow> Some
         (if isServiceActionOpCode m ACTION_TO_SERVER_GOAL_REJECT \<or> isServiceActionOpCode m ACTION_TO_SERVER_GOAL_ACCEPT
          then (if \<not> handlingGoal (heap s ! r) then s else upd r (\<lambda>h. h\<lparr>goalResponse := Some m\<rparr>) s)
          else if isServiceActionOpCode m ACTION_TO_SERVER_CANCEL_ACCEPT \<or> isServiceActionOpCode m ACTION_TO_SERVER_CANCEL_REJECT
          then (if \<not> handlingCancel (heap s ! r) then s else upd r (\<lambda>h. h\<lparr>cancelResponse := Some m\<rparr>) s)
          else (upd r (\<lambda>h. h\<lparr>waitQueue := waitQueue h @ [m]\<rparr>) s)\<lparr>queued_log := queued_log s @ [(r, m)]\<rparr>)
   }"

section \<open>sendGoalAndWait\<close>

definition goal_begin :: "bytes \<Rightarrow> bytes \<Rightarrow> action_server \<Rightarrow> action_server" where
  "goal_begin gid data s =
     (let new = (\<lambda>pc. \<lparr>goal_gid = gid, goal_data = data, goal_pc = pc\<rparr>) in
      if p_stopping s then s\<lparr>goals := goals s @ [new G_rejected]\<rparr>
      else (register (new_handle gid 0) s)
             \<lparr>goals := goals s @ [new (G_prepared (length (heap s)))], runs := runs s @ [No_thread]\<rparr>)"

definition goal_post :: "nat \<Rightarrow> action_server \<Rightarrow> action_server option" where
  "goal_post k s =
     (case goal_of k s of
        Some (G_prepared r) \<Rightarrow> Some (set_goal k (G_posted r)
          (p_send (Some r) ACTION_TO_CLIENT_GOAL (goal_data (goals s ! k)) (gID (heap s ! r))
             (upd r (\<lambda>h. h\<lparr>goalResponse := None, handlingGoal := True\<rparr>) s)))
      | _ \<Rightarrow> None)"

definition goal_give_up :: "nat \<Rightarrow> nat \<Rightarrow> action_server \<Rightarrow> action_server" where
  "goal_give_up k r s = set_goal k G_rejected (removeHandle r (upd r (\<lambda>h. h\<lparr>handlingGoal := False\<rparr>) s))"

definition goal_check :: "nat \<Rightarrow> action_server \<Rightarrow> action_server option" where
  "goal_check k s =
     (case goal_of k s of
        Some (G_posted r) \<Rightarrow> Some (if p_stopping s then goal_give_up k r s else set_goal k (G_waiting r) s)
      | _ \<Rightarrow> None)"

text \<open>The end of the wait, which may have been timed out after ten seconds.\<close>

definition goal_wake :: "bool \<Rightarrow> bool \<Rightarrow> nat \<Rightarrow> action_server \<Rightarrow> action_server option" where
  "goal_wake ok timed_out k s =
     (case goal_of k s of
        Some (G_waiting r) \<Rightarrow>
          if goalResponse (heap s ! r) = None \<and> \<not> p_stopping s \<and> \<not> timed_out then None
          else if \<not> ok \<or> p_stopping s then Some (set_goal k G_rejected s)
          else (case goalResponse (heap s ! r) of
            None \<Rightarrow> Some (goal_give_up k r (p_send (Some r) ACTION_TO_CLIENT_CANCEL [] (gID (heap s ! r)) s))
          | Some m \<Rightarrow>
              if isServiceActionOpCode m ACTION_TO_SERVER_GOAL_ACCEPT
              then Some (set_goal k G_accepted (upd r (\<lambda>h. h\<lparr>handlingGoal := False\<rparr>) s))
              else Some (goal_give_up k r s))
      | _ \<Rightarrow> None)"

section \<open>handleAccepted\<close>

text \<open>rclcpp_action calls it for a goal that \<open>sendGoalAndWait\<close> has accepted.\<close>

definition handleAccepted :: "nat \<Rightarrow> action_server \<Rightarrow> action_server option" where
  "handleAccepted k s =
     (case goal_of k s of
        Some G_accepted \<Rightarrow>
          let gid = goal_gid (goals s ! k); s = set_goal k G_started s in
          (case lookup gid s of
             None \<Rightarrow> Some (p_send None ACTION_TO_CLIENT_CANCEL [] gid s)
           | Some r \<Rightarrow>
               if runs s ! r \<noteq> No_thread \<and> \<not> p_stopping s
               then Some (removeHandle r (p_send (Some r) ACTION_TO_CLIENT_CANCEL [] (gID (heap s ! r)) s))
               else if p_stopping s then Some (removeHandle r s)
               else Some (set_run r Loop (upd r (\<lambda>h. h\<lparr>handlingWait := True\<rparr>) s)))
      | _ \<Rightarrow> None)"

section \<open>sendCancelAndWait\<close>

text \<open>
  The function keeps a reference to the element of the map instead of a copy of the shared pointer.
  After the mutex is released, every use of the handle reads that element, which is undefined
  (\<open>None\<close>) when the handle has been erased from the map.
\<close>

definition cancel_begin :: "bytes \<Rightarrow> action_server \<Rightarrow> action_server" where
  "cancel_begin gid s = s\<lparr>cancels := cancels s @
     [\<lparr>cancel_gid = gid, cancel_pc = (case lookup gid s of None \<Rightarrow> C_reject | Some r \<Rightarrow> C_found r)\<rparr>]\<rparr>"

definition cancel_stopped :: "nat \<Rightarrow> nat \<Rightarrow> action_server \<Rightarrow> action_server" where
  "cancel_stopped k r s =
     (let s = upd r (\<lambda>h. h\<lparr>handlingCancel := False\<rparr>) (set_cancel k C_reject s)
      in if \<not> handlingWait (heap s ! r) then removeHandle r s else s)"

definition cancel_post :: "nat \<Rightarrow> action_server \<Rightarrow> action_server option" where
  "cancel_post k s =
     (case cancel_of k s of
        Some (C_found r) \<Rightarrow>
          if lookup (cancel_gid (cancels s ! k)) s \<noteq> Some r then None
          else if p_stopping s then Some (cancel_stopped k r s)
          else Some (set_cancel k (C_posted r)
            (p_send (Some r) ACTION_TO_CLIENT_CANCEL [] (gID (heap s ! r))
               (upd r (\<lambda>h. h\<lparr>cancelResponse := None, handlingCancel := True\<rparr>) s)))
      | _ \<Rightarrow> None)"

definition cancel_check :: "nat \<Rightarrow> action_server \<Rightarrow> action_server option" where
  "cancel_check k s =
     (case cancel_of k s of
        Some (C_posted r) \<Rightarrow>
          if lookup (cancel_gid (cancels s ! k)) s \<noteq> Some r then None
          else Some (if p_stopping s then cancel_stopped k r s else set_cancel k (C_waiting r) s)
      | _ \<Rightarrow> None)"

text \<open>Whether the wait ends; its predicate has a copy of the pointer.\<close>

definition cancel_awake :: "bool \<Rightarrow> nat \<Rightarrow> action_server \<Rightarrow> bool" where
  "cancel_awake timed_out k s \<longleftrightarrow>
     (case cancel_of k s of
        Some (C_waiting r) \<Rightarrow> cancelResponse (heap s ! r) \<noteq> None \<or> p_stopping s \<or> timed_out
      | _ \<Rightarrow> False)"

definition cancel_wake :: "bool \<Rightarrow> nat \<Rightarrow> action_server \<Rightarrow> action_server option" where
  "cancel_wake ok k s =
     (case cancel_of k s of
        Some (C_waiting r) \<Rightarrow>
          if \<not> ok \<or> p_stopping s then Some (set_cancel k C_reject s)
          else if lookup (cancel_gid (cancels s ! k)) s \<noteq> Some r then None
          else (let t = upd r (\<lambda>h. h\<lparr>handlingCancel := False\<rparr>) s in
            case cancelResponse (heap s ! r) of
              None \<Rightarrow> Some (set_cancel k C_reject t)
            | Some m \<Rightarrow>
                if isServiceActionOpCode m ACTION_TO_SERVER_CANCEL_ACCEPT
                then Some (set_cancel k C_accept (if \<not> handlingWait (heap t ! r) then removeHandle r t else t))
                else Some (set_cancel k C_reject t))
      | _ \<Rightarrow> None)"

section \<open>executeAccepted\<close>

definition run_finish :: "nat \<Rightarrow> action_server \<Rightarrow> action_server" where
  "run_finish r s = set_run r Joined (removeHandle r (upd r (\<lambda>h. h\<lparr>handlingWait := False\<rparr>) s))"

text \<open>A result ends the goal and the thread.\<close>

definition run_result :: "nat \<Rightarrow> outcome \<Rightarrow> action_server \<Rightarrow> action_server" where
  "run_result r x s = run_finish r (upd r (\<lambda>h. h\<lparr>h_done := True\<rparr>) (emit r x s))"

definition run_loop :: "nat \<Rightarrow> action_server \<Rightarrow> action_server option" where
  "run_loop r s =
     (case run_of r s of
        Some Loop \<Rightarrow> Some (set_run r (if p_stopping s then Joined else At_wait) s)
      | _ \<Rightarrow> None)"

text \<open>The end of the wait, \<open>None\<close> while there is no reason to wake up.\<close>

definition run_wake :: "bool \<Rightarrow> nat \<Rightarrow> action_server \<Rightarrow> action_server option" where
  "run_wake ok r s =
     (case run_of r s of
        Some At_wait \<Rightarrow>
          if p_stopping s then Some (run_finish r (if ok then emit r (Abort []) s else s))
          else if h_done (heap s ! r) then Some (run_finish r s)
          else (case waitQueue (heap s ! r) of
            [] \<Rightarrow> None
          | m # ms \<Rightarrow> Some (set_run r (Handling m) (upd r (\<lambda>h. h\<lparr>waitQueue := ms\<rparr>) s)))
      | _ \<Rightarrow> None)"

text \<open>The processing of a message; \<open>None\<close> is an access outside the message.\<close>

definition run_process :: "copy_fun \<Rightarrow> codecs \<Rightarrow> nat \<Rightarrow> action_server \<Rightarrow> action_server option" where
  "run_process mcpy c r s =
     (case run_of r s of
        Some (Handling m) \<Rightarrow> do {
          (readable, m) \<leftarrow> unpack mcpy c m;
          data \<leftarrow> getData m;
          let sop = sa_opcode m;
          Some
            (if \<not> readable \<and> sop = ACTION_TO_SERVER_FEEDBACK then set_run r Loop s
             else if \<not> readable \<and> sop \<in> {ACTION_TO_SERVER_RESULT_SUCCEEDED, ACTION_TO_SERVER_RESULT_CANCELED,
                 ACTION_TO_SERVER_RESULT_ABORTED, ACTION_TO_SERVER_RESULT_UNKNOWN}
             then run_result r (Abort []) s
             else if sop = ACTION_TO_SERVER_FEEDBACK then set_run r Loop (emit r (Feedback data) s)
             else if sop = ACTION_TO_SERVER_RESULT_SUCCEEDED then run_result r (Succeed data) s
             else if sop = ACTION_TO_SERVER_RESULT_CANCELED then run_result r (Cancel data) s
             else if sop = ACTION_TO_SERVER_RESULT_ABORTED \<or> sop = ACTION_TO_SERVER_RESULT_UNKNOWN
             then run_result r (Abort data) s
             else set_run r Loop s)
        }
      | _ \<Rightarrow> None)"

definition run_ended :: "action_server \<Rightarrow> nat \<Rightarrow> bool" where
  "run_ended s r \<longleftrightarrow> run_of r s \<in> {Some Joined, Some No_thread}"

section \<open>The system\<close>

inductive as_step :: "copy_fun \<Rightarrow> codecs \<Rightarrow> action_server \<Rightarrow> action_server \<Rightarrow> bool"
    for mcpy :: copy_fun and c :: codecs where
  receive: "fromMessage rcl_ops x = Some (Some m) \<Longrightarrow> as_handle m s = Some s' \<Longrightarrow> as_step mcpy c s s'"
| goal: "as_step mcpy c s (goal_begin gid data s)"
| post: "goal_post k s = Some s' \<Longrightarrow> as_step mcpy c s s'"
| check: "goal_check k s = Some s' \<Longrightarrow> as_step mcpy c s s'"
| wake: "goal_wake ok timed_out k s = Some s' \<Longrightarrow> as_step mcpy c s s'"
| accepted: "handleAccepted k s = Some s' \<Longrightarrow> as_step mcpy c s s'"
| cancel: "as_step mcpy c s (cancel_begin gid s)"
| cancel_post: "cancel_post k s = Some s' \<Longrightarrow> as_step mcpy c s s'"
| cancel_check: "cancel_check k s = Some s' \<Longrightarrow> as_step mcpy c s s'"
| cancel_wake: "cancel_awake timed_out k s \<Longrightarrow> cancel_wake ok k s = Some s' \<Longrightarrow> as_step mcpy c s s'"
| loop: "run_loop r s = Some s' \<Longrightarrow> as_step mcpy c s s'"
| run: "run_wake ok r s = Some s' \<Longrightarrow> as_step mcpy c s s'"
| execute: "run_process mcpy c r s = Some s' \<Longrightarrow> as_step mcpy c s s'"
| remove: "executeRemove (run_ended s) s = Some s' \<Longrightarrow> as_step mcpy c s s'"
| stop: "as_step mcpy c s (stop_begin s)"
| join: "stop_join (run_ended s) s = Some s' \<Longrightarrow> as_step mcpy c s s'"

section \<open>What a goal receives\<close>

text \<open>
  The reference: how one message is passed on (and whether it ends the goal), and what a sequence of
  messages amounts to.
\<close>

fun final :: "outcome \<Rightarrow> bool" where
  "final (Feedback d) = False"
| "final _ = True"

definition result_codes :: "ServiceActionOpCode set" where
  "result_codes = {ACTION_TO_SERVER_RESULT_SUCCEEDED, ACTION_TO_SERVER_RESULT_CANCELED,
     ACTION_TO_SERVER_RESULT_ABORTED, ACTION_TO_SERVER_RESULT_UNKNOWN}"

definition reaction :: "copy_fun \<Rightarrow> codecs \<Rightarrow> sa_message \<Rightarrow> outcome option" where
  "reaction mcpy c m =
     (case (sa_opcode m, received_data mcpy c m) of
        (ACTION_TO_SERVER_FEEDBACK, d) \<Rightarrow> map_option Feedback d
      | (ACTION_TO_SERVER_RESULT_SUCCEEDED, Some d) \<Rightarrow> Some (Succeed d)
      | (ACTION_TO_SERVER_RESULT_CANCELED, Some d) \<Rightarrow> Some (Cancel d)
      | (sop, Some d) \<Rightarrow> if sop \<in> result_codes then Some (Abort d) else None
      | (sop, None) \<Rightarrow> if sop \<in> result_codes then Some (Abort []) else None)"

fun deliver :: "copy_fun \<Rightarrow> codecs \<Rightarrow> sa_message list \<Rightarrow> outcome list" where
  "deliver mcpy c [] = []"
| "deliver mcpy c (m # ms) =
     (case reaction mcpy c m of
        None \<Rightarrow> deliver mcpy c ms
      | Some x \<Rightarrow> x # (if final x then [] else deliver mcpy c ms))"

definition outcomes_of :: "nat \<Rightarrow> action_server \<Rightarrow> outcome list" where
  "outcomes_of r s = map snd (filter (\<lambda>x. fst x = r) (outcomes s))"

definition queued_for :: "nat \<Rightarrow> action_server \<Rightarrow> sa_message list" where
  "queued_for r s = map snd (filter (\<lambda>x. fst x = r) (queued_log s))"

lemma deliver_snoc:
  "list_all (\<lambda>x. \<not> final x) (deliver mcpy c ms) \<Longrightarrow>
     deliver mcpy c (ms @ [m]) = deliver mcpy c ms @ (case reaction mcpy c m of None \<Rightarrow> [] | Some x \<Rightarrow> [x])"
  by (induction ms) (auto split: option.splits)

lemma deliver_final:
  "list_all (\<lambda>x. \<not> final x) (butlast (deliver mcpy c ms))"
  by (induction ms) (auto split: option.splits)

section \<open>The invariant\<close>

fun run_hand :: "run_pc \<Rightarrow> sa_message list" where
  "run_hand (Handling m) = [m]"
| "run_hand _ = []"

text \<open>
  The messages \<open>q\<close> that were queued for a goal are those processed, the one in hand and those waiting,
  and the calls \<open>out\<close> on its goal handle are what the processed ones amount to, with an abort at the
  end when the plugin stopped first.
\<close>

definition run_ok :: "copy_fun \<Rightarrow> codecs \<Rightarrow> bool \<Rightarrow> sa_message list \<Rightarrow> outcome list \<Rightarrow> run_pc \<Rightarrow> handle \<Rightarrow> bool" where
  "run_ok mcpy c stopped q out pc h \<longleftrightarrow> (\<exists>seen rest.
     q = seen @ rest \<and> (pc \<noteq> Joined \<longrightarrow> rest = run_hand pc @ waitQueue h)
     \<and> (pc \<noteq> Joined \<longrightarrow> out = deliver mcpy c seen \<and> list_all (\<lambda>x. \<not> final x) out)
     \<and> (pc = Joined \<longrightarrow> out = deliver mcpy c seen
          \<or> stopped \<and> list_all (\<lambda>x. \<not> final x) (deliver mcpy c seen) \<and> out = deliver mcpy c seen @ [Abort []])
     \<and> (pc = Joined \<longrightarrow> stopped \<or> list_ex final out) \<and> (h_done h \<longrightarrow> pc = Joined))
   \<and> list_all (sa_wf_for mcpy) q"

definition run_ok_at :: "copy_fun \<Rightarrow> codecs \<Rightarrow> action_server \<Rightarrow> nat \<Rightarrow> bool" where
  "run_ok_at mcpy c s r = run_ok mcpy c (p_stopping s) (queued_for r s) (outcomes_of r s) (runs s ! r) (heap s ! r)"

fun goal_ref :: "goal_pc \<Rightarrow> nat option" where
  "goal_ref (G_prepared r) = Some r"
| "goal_ref (G_posted r) = Some r"
| "goal_ref (G_waiting r) = Some r"
| "goal_ref _ = None"

fun cancel_ref :: "cancel_pc \<Rightarrow> nat option" where
  "cancel_ref (C_found r) = Some r"
| "cancel_ref (C_posted r) = Some r"
| "cancel_ref (C_waiting r) = Some r"
| "cancel_ref _ = None"

definition refs_valid :: "action_server \<Rightarrow> bool" where
  "refs_valid s \<longleftrightarrow>
     (\<forall>x \<in> set (goals s). \<forall>r. goal_ref (goal_pc x) = Some r \<longrightarrow> r < length (heap s))
   \<and> (\<forall>x \<in> set (cancels s). \<forall>r. cancel_ref (cancel_pc x) = Some r \<longrightarrow> r < length (heap s))"

definition as_inv :: "copy_fun \<Rightarrow> codecs \<Rightarrow> action_server \<Rightarrow> bool" where
  "as_inv mcpy c s \<longleftrightarrow> plugin_wf s \<and> length (runs s) = length (heap s) \<and> refs_valid s
     \<and> (\<forall>r < length (heap s). run_ok_at mcpy c s r)
     \<and> (\<forall>x \<in> set (queued_log s). fst x < length (heap s)) \<and> (\<forall>x \<in> set (outcomes s). fst x < length (heap s))"

lemma as_invD:
  assumes "as_inv mcpy c s"
  shows "plugin_wf s" "length (runs s) = length (heap s)" "refs_valid s"
    "r < length (heap s) \<Longrightarrow> run_ok_at mcpy c s r"
    "x \<in> set (queued_log s) \<Longrightarrow> fst x < length (heap s)"
    "y \<in> set (outcomes s) \<Longrightarrow> fst y < length (heap s)"
  using assms by (auto simp: as_inv_def)

lemma as_simps [simp]:
  "goals (p_send og op d g s) = goals s" "goals (upd r f s) = goals s" "goals (removeHandle r s) = goals s"
  "goals (register h s) = goals s" "goals (stop_begin s) = goals s"
  "cancels (p_send og op d g s) = cancels s" "cancels (upd r f s) = cancels s" "cancels (removeHandle r s) = cancels s"
  "cancels (register h s) = cancels s" "cancels (stop_begin s) = cancels s"
  "runs (p_send og op d g s) = runs s" "runs (upd r f s) = runs s" "runs (removeHandle r s) = runs s"
  "runs (register h s) = runs s" "runs (stop_begin s) = runs s"
  "outcomes (p_send og op d g s) = outcomes s" "outcomes (upd r f s) = outcomes s"
  "outcomes (removeHandle r s) = outcomes s" "outcomes (register h s) = outcomes s" "outcomes (stop_begin s) = outcomes s"
  "queued_log (p_send og op d g s) = queued_log s" "queued_log (upd r f s) = queued_log s"
  "queued_log (removeHandle r s) = queued_log s" "queued_log (register h s) = queued_log s"
  "queued_log (stop_begin s) = queued_log s"
  by (simp_all add: p_send_def upd_def removeHandle_def register_def stop_begin_def)

lemma as_setters [simp]:
  "heap (set_goal k pc s) = heap s" "heap (set_cancel k cp s) = heap s" "heap (set_run r rp s) = heap s"
  "heap (emit r x s) = heap s"
  "p_stopping (set_goal k pc s) = p_stopping s" "p_stopping (set_cancel k cp s) = p_stopping s"
  "p_stopping (set_run r rp s) = p_stopping s" "p_stopping (emit r x s) = p_stopping s"
  "runs (set_goal k pc s) = runs s" "runs (set_cancel k cp s) = runs s" "runs (emit r x s) = runs s"
  "runs (set_run r rp s) = (runs s)[r := rp]"
  "outcomes (set_goal k pc s) = outcomes s" "outcomes (set_cancel k cp s) = outcomes s"
  "outcomes (set_run r rp s) = outcomes s" "outcomes (emit r x s) = outcomes s @ [(r, x)]"
  "queued_log (set_goal k pc s) = queued_log s" "queued_log (set_cancel k cp s) = queued_log s"
  "queued_log (set_run r rp s) = queued_log s" "queued_log (emit r x s) = queued_log s"
  "goals (set_cancel k cp s) = goals s" "goals (set_run r rp s) = goals s" "goals (emit r x s) = goals s"
  "cancels (set_goal k pc s) = cancels s" "cancels (set_run r rp s) = cancels s" "cancels (emit r x s) = cancels s"
  "handles (set_goal k pc s) = handles s" "handles (set_cancel k cp s) = handles s"
  "handles (set_run r rp s) = handles s" "handles (emit r x s) = handles s"
  "toRemove (set_goal k pc s) = toRemove s" "toRemove (set_cancel k cp s) = toRemove s"
  "toRemove (set_run r rp s) = toRemove s" "toRemove (emit r x s) = toRemove s"
  by (simp_all add: set_goal_def set_cancel_def set_run_def emit_def)

lemma evolve_setters [evolves]:
  "evolve p q \<Longrightarrow> evolve p (set_goal k pc q)" "evolve p q \<Longrightarrow> evolve p (set_cancel k cp q)"
  "evolve p q \<Longrightarrow> evolve p (set_run r rp q)" "evolve p q \<Longrightarrow> evolve p (emit r x q)"
  by (simp_all add: evolve_def set_goal_def set_cancel_def set_run_def emit_def)

lemma waitQueue_upd [simp]:
  "waitQueue (heap (upd r f p) ! q) = (if q = r \<and> r < length (heap p) then waitQueue (f (heap p ! r)) else waitQueue (heap p ! q))"
  by (simp add: heap_upd)

lemma h_done_upd [simp]:
  "h_done (heap (upd r f p) ! q) = (if q = r \<and> r < length (heap p) then h_done (f (heap p ! r)) else h_done (heap p ! q))"
  by (simp add: heap_upd)

lemma run_okE:
  assumes "run_ok mcpy c st q out pc h"
  obtains seen rest where "q = seen @ rest" and "pc \<noteq> Joined \<Longrightarrow> rest = run_hand pc @ waitQueue h"
    and "pc \<noteq> Joined \<Longrightarrow> out = deliver mcpy c seen" and "pc \<noteq> Joined \<Longrightarrow> list_all (\<lambda>x. \<not> final x) out"
    and "pc = Joined \<Longrightarrow> out = deliver mcpy c seen
       \<or> st \<and> list_all (\<lambda>x. \<not> final x) (deliver mcpy c seen) \<and> out = deliver mcpy c seen @ [Abort []]"
    and "pc = Joined \<Longrightarrow> st \<or> list_ex final out" and "h_done h \<Longrightarrow> pc = Joined" and "list_all (sa_wf_for mcpy) q"
  using assms unfolding run_ok_def by blast

lemma run_okI:
  assumes "q = seen @ rest" and "pc \<noteq> Joined \<Longrightarrow> rest = run_hand pc @ waitQueue h"
    and "pc \<noteq> Joined \<Longrightarrow> out = deliver mcpy c seen" and "pc \<noteq> Joined \<Longrightarrow> list_all (\<lambda>x. \<not> final x) out"
    and "pc = Joined \<Longrightarrow> out = deliver mcpy c seen
       \<or> st \<and> list_all (\<lambda>x. \<not> final x) (deliver mcpy c seen) \<and> out = deliver mcpy c seen @ [Abort []]"
    and "pc = Joined \<Longrightarrow> st \<or> list_ex final out" and "h_done h \<Longrightarrow> pc = Joined" and "list_all (sa_wf_for mcpy) q"
  shows "run_ok mcpy c st q out pc h"
  using assms unfolding run_ok_def by blast

lemma run_ok_frame:
  assumes "run_ok mcpy c st q out pc h" and "waitQueue h' = waitQueue h" and "h_done h' = h_done h" and "st \<longrightarrow> st'"
  shows "run_ok mcpy c st' q out pc h'"
  by (rule run_okE [OF assms(1)], rule run_okI) (use assms(2-4) in auto)

text \<open>The operations that keep the threads, their queues and the calls on the goal handles.\<close>

lemma as_inv_frame:
  assumes inv: "as_inv mcpy c s" and ev: "evolve s t" and len: "length (heap t) = length (heap s)"
    and same: "runs t = runs s" "outcomes t = outcomes s" "queued_log t = queued_log s"
    and wq: "\<And>r. r < length (heap s) \<Longrightarrow> waitQueue (heap t ! r) = waitQueue (heap s ! r)"
      "\<And>r. r < length (heap s) \<Longrightarrow> h_done (heap t ! r) = h_done (heap s ! r)"
    and refs: "refs_valid t"
  shows "as_inv mcpy c t"
proof -
  note D = as_invD [OF inv]
  have "run_ok_at mcpy c t r" if "r < length (heap t)" for r
    using D(4) [of r] that run_ok_frame [OF _ wq] ev
    by (auto simp: run_ok_at_def len same queued_for_def outcomes_of_def evolve_def)
  moreover have "plugin_wf t" using evolve_wf [OF ev] D(1) by simp
  ultimately show ?thesis using D refs by (auto simp: as_inv_def same len)
qed

text \<open>The operations that concern one thread.\<close>

lemma as_inv_run:
  assumes inv: "as_inv mcpy c s" and ev: "evolve s t" and len: "length (heap t) = length (heap s)"
    and others: "\<And>q. q < length (heap s) \<Longrightarrow> q \<noteq> r \<Longrightarrow> runs t ! q = runs s ! q \<and> outcomes_of q t = outcomes_of q s
      \<and> queued_for q t = queued_for q s \<and> waitQueue (heap t ! q) = waitQueue (heap s ! q) \<and> h_done (heap t ! q) = h_done (heap s ! q)"
    and r: "r < length (heap s)" "run_ok_at mcpy c t r"
    and runs: "length (runs t) = length (runs s)"
    and logs: "set (outcomes t) \<subseteq> set (outcomes s) \<union> {r} \<times> UNIV" "set (queued_log t) \<subseteq> set (queued_log s) \<union> {r} \<times> UNIV"
    and refs: "refs_valid t"
  shows "as_inv mcpy c t"
proof -
  note D = as_invD [OF inv]
  have "run_ok_at mcpy c t q" if "q < length (heap t)" for q
  proof (cases "q = r")
    case False
    then show ?thesis
      using D(4) [of q] others [of q] that len run_ok_frame [of mcpy c "p_stopping s" _ _ _ "heap s ! q" "heap t ! q" "p_stopping t"] ev
      by (auto simp: run_ok_at_def evolve_def)
  qed (use r in simp)
  moreover have "plugin_wf t" using evolve_wf [OF ev] D(1) by simp
  moreover have "fst x < length (heap t)" if "x \<in> set (outcomes t)" for x
    using that logs(1) D(6) r(1) len by fastforce
  moreover have "fst x < length (heap t)" if "x \<in> set (queued_log t)" for x
    using that logs(2) D(5) r(1) len by fastforce
  ultimately show ?thesis using D refs by (simp add: as_inv_def runs len)
qed

lemma refs_valid_cong:
  "goals t = goals s \<Longrightarrow> cancels t = cancels s \<Longrightarrow> length (heap t) = length (heap s) \<Longrightarrow> refs_valid s \<Longrightarrow> refs_valid t"
  by (simp add: refs_valid_def)

lemma refs_valid_simps [simp]:
  "refs_valid (p_send og op d g s) = refs_valid s" "refs_valid (upd r f s) = refs_valid s"
  "refs_valid (removeHandle r s) = refs_valid s" "refs_valid (set_run r rp s) = refs_valid s"
  "refs_valid (emit r x s) = refs_valid s" "refs_valid (stop_begin s) = refs_valid s"
  by (simp_all add: refs_valid_def)

lemma refs_valid_goal:
  assumes "refs_valid s" and "\<And>r. goal_ref pc = Some r \<Longrightarrow> r < length (heap s)"
  shows "refs_valid (set_goal k pc s)"
proof -
  have "goal_ref (goal_pc x) = Some r \<Longrightarrow> r < length (heap s)"
    if "x \<in> set ((goals s)[k := (goals s ! k)\<lparr>goal_pc := pc\<rparr>])" for x r
    using set_update_subset_insert that assms by (fastforce simp: refs_valid_def)
  then show ?thesis using assms(1) by (simp add: refs_valid_def set_goal_def)
qed

lemma refs_valid_cancel:
  assumes "refs_valid s" and "\<And>r. cancel_ref pc = Some r \<Longrightarrow> r < length (heap s)"
  shows "refs_valid (set_cancel k pc s)"
proof -
  have "cancel_ref (cancel_pc x) = Some r \<Longrightarrow> r < length (heap s)"
    if "x \<in> set ((cancels s)[k := (cancels s ! k)\<lparr>cancel_pc := pc\<rparr>])" for x r
    using set_update_subset_insert that assms by (fastforce simp: refs_valid_def)
  then show ?thesis using assms(1) by (simp add: refs_valid_def set_cancel_def)
qed

lemma goal_of_valid: "refs_valid s \<Longrightarrow> goal_of k s = Some pc \<Longrightarrow> goal_ref pc = Some r \<Longrightarrow> r < length (heap s)"
  by (auto simp: refs_valid_def goal_of_def split: if_splits dest: nth_mem)

lemma cancel_of_valid: "refs_valid s \<Longrightarrow> cancel_of k s = Some pc \<Longrightarrow> cancel_ref pc = Some r \<Longrightarrow> r < length (heap s)"
  by (auto simp: refs_valid_def cancel_of_def split: if_splits dest: nth_mem)

text \<open>Steps of \<open>sendGoalAndWait\<close> and \<open>sendCancelAndWait\<close>.\<close>

named_theorems as_frames

definition quiet :: "action_server \<Rightarrow> action_server \<Rightarrow> bool" where
  "quiet s t \<longleftrightarrow> evolve s t \<and> length (heap t) = length (heap s) \<and> runs t = runs s \<and> outcomes t = outcomes s
     \<and> queued_log t = queued_log s \<and> (\<forall>r. waitQueue (heap t ! r) = waitQueue (heap s ! r) \<and> h_done (heap t ! r) = h_done (heap s ! r)) \<and> refs_valid t"

lemma quiet_inv: "as_inv mcpy c s \<Longrightarrow> quiet s t \<Longrightarrow> as_inv mcpy c t"
  by (rule as_inv_frame) (simp_all add: quiet_def)

lemma quiet_refl: "refs_valid s \<Longrightarrow> quiet s s"
  by (simp add: quiet_def evolve_refl)

lemma quiet_frames [as_frames]:
  "quiet s t \<Longrightarrow> quiet s (p_send og op d g t)"
  "quiet s t \<Longrightarrow> r < length (heap t) \<Longrightarrow> quiet s (removeHandle r t)"
  "quiet s t \<Longrightarrow> (\<And>h. gID (f h) = gID h) \<Longrightarrow> (\<And>h. waitQueue (f h) = waitQueue h \<and> h_done (f h) = h_done h) \<Longrightarrow> quiet s (upd r f t)"
  "quiet s t \<Longrightarrow> (\<And>r. goal_ref pc = Some r \<Longrightarrow> r < length (heap t)) \<Longrightarrow> quiet s (set_goal k pc t)"
  "quiet s t \<Longrightarrow> (\<And>r. cancel_ref cp = Some r \<Longrightarrow> r < length (heap t)) \<Longrightarrow> quiet s (set_cancel k cp t)"
  "quiet s t \<Longrightarrow> quiet s (stop_begin t)"
  by (auto simp: quiet_def intro: evolves refs_valid_goal refs_valid_cancel)

lemma goal_give_up_quiet [as_frames]: "quiet s t \<Longrightarrow> r < length (heap t) \<Longrightarrow> quiet s (goal_give_up k r t)"
  by (auto simp: goal_give_up_def intro!: as_frames)

lemma cancel_stopped_quiet [as_frames]: "quiet s t \<Longrightarrow> r < length (heap t) \<Longrightarrow> quiet s (cancel_stopped k r t)"
  by (auto simp: cancel_stopped_def Let_def intro!: as_frames)

lemma goal_steps_quiet:
  assumes "refs_valid s"
  shows "goal_post k s = Some s' \<Longrightarrow> quiet s s'" "goal_check k s = Some s' \<Longrightarrow> quiet s s'"
    "goal_wake ok timed_out k s = Some s' \<Longrightarrow> quiet s s'"
  using quiet_refl [OF assms] goal_of_valid [OF assms]
  by (auto simp: goal_post_def goal_check_def goal_wake_def split: option.splits goal_pc.splits if_splits intro!: as_frames)

lemma cancel_steps_quiet:
  assumes "refs_valid s"
  shows "cancel_post k s = Some s' \<Longrightarrow> quiet s s'" "cancel_check k s = Some s' \<Longrightarrow> quiet s s'"
    "cancel_wake ok k s = Some s' \<Longrightarrow> quiet s s'"
  using quiet_refl [OF assms] cancel_of_valid [OF assms]
  by (auto simp: cancel_post_def cancel_check_def cancel_wake_def Let_def
      split: option.splits cancel_pc.splits if_splits intro!: as_frames)

lemma as_removal:
  "executeRemove ended (s :: action_server) = Some t \<Longrightarrow> goals t = goals s \<and> cancels t = cancels s \<and> runs t = runs s
     \<and> outcomes t = outcomes s \<and> queued_log t = queued_log s"
  "stop_join ended (s :: action_server) = Some t \<Longrightarrow> goals t = goals s \<and> cancels t = cancels s \<and> runs t = runs s
     \<and> outcomes t = outcomes s \<and> queued_log t = queued_log s"
  by (auto simp: executeRemove_def stop_join_def split: if_splits list.splits prod.splits)

lemma removal_quiet:
  assumes "refs_valid s"
  shows "executeRemove ended s = Some t \<Longrightarrow> quiet s t" "stop_join ended s = Some t \<Longrightarrow> quiet s t"
  using removal_frame [of ended s t] as_removal [of ended s t] assms
    evolve_executeRemove [of ended s t] evolve_stop_join [of ended s t]
  by (auto simp: quiet_def refs_valid_def)

lemma goal_begin_inv:
  assumes inv: "as_inv mcpy c s"
  shows "as_inv mcpy c (goal_begin gid data s)" "evolve s (goal_begin gid data s)"
proof -
  note D = as_invD [OF inv]
  let ?t = "goal_begin gid data s"
  have ext: "evolve p (q\<lparr>goals := x\<rparr>) = evolve p q" "evolve p (q\<lparr>goals := x, runs := y\<rparr>) = evolve p q" for p q x y
    by (simp_all add: evolve_def)
  show ev: "evolve s ?t" by (auto simp: goal_begin_def Let_def ext intro: evolves)
  show "as_inv mcpy c ?t"
  proof (cases "p_stopping s")
    case True
    then show ?thesis
      by (intro quiet_inv [OF inv]) (use ev D(3) in \<open>auto simp: quiet_def goal_begin_def refs_valid_def\<close>)
  next
    case False
    let ?n = "length (heap s)"
    have t: "heap ?t = heap s @ [new_handle gid 0]" "runs ?t = runs s @ [No_thread]"
      "outcomes ?t = outcomes s" "queued_log ?t = queued_log s" "p_stopping ?t = p_stopping s"
      using False by (simp_all add: goal_begin_def Let_def)
    have "run_ok_at mcpy c ?t r" if "r < length (heap ?t)" for r
    proof (cases "r < ?n")
      case True
      then show ?thesis using D(2) D(4) [of r] by (simp add: run_ok_at_def t nth_append queued_for_def outcomes_of_def)
    next
      case False
      then have r: "r = ?n" using that by (simp add: t)
      have "queued_for r s = []" "outcomes_of r s = []"
        using D(5,6) by (force simp: queued_for_def outcomes_of_def r filter_empty_conv)+
      then show ?thesis
        using D(2) by (simp add: r run_ok_at_def run_ok_def t nth_append queued_for_def outcomes_of_def)
    qed
    moreover have "refs_valid ?t"
      using D(3) False by (auto simp: refs_valid_def goal_begin_def Let_def intro: less_SucI)
    moreover have "plugin_wf ?t" using evolve_wf [OF ev D(1)] .
    ultimately show ?thesis using D(2,5,6) by (auto simp: as_inv_def t intro: less_SucI)
  qed
qed

lemma cancel_begin_quiet:
  assumes inv: "as_inv mcpy c s"
  shows "quiet s (cancel_begin gid s)"
  using as_invD(3) [OF inv] lookup_valid [OF as_invD(1) [OF inv], of gid]
  by (auto simp: cancel_begin_def quiet_def evolve_def refs_valid_def split: option.splits)

text \<open>Changes of one thread.\<close>

lemma as_inv_thread:
  assumes inv: "as_inv mcpy c s" and r: "r < length (heap s)" and ev: "evolve s u" and refs: "refs_valid u"
    and u: "length (heap u) = length (heap s)" "runs u = (runs s)[r := pc]"
      "outcomes u = outcomes s @ map (Pair r) xs" "queued_log u = queued_log s @ map (Pair r) ms"
    and wq: "\<And>p. p \<noteq> r \<Longrightarrow> waitQueue (heap u ! p) = waitQueue (heap s ! p) \<and> h_done (heap u ! p) = h_done (heap s ! p)"
    and ok: "run_ok mcpy c (p_stopping u) (queued_for r s @ ms) (outcomes_of r s @ xs) pc (heap u ! r)"
  shows "as_inv mcpy c u"
proof (rule as_inv_run [OF inv, where r = r])
  show "run_ok_at mcpy c u r"
    using ok r as_invD(2) [OF inv] by (simp add: run_ok_at_def u queued_for_def outcomes_of_def comp_def)
  show "runs u ! p = runs s ! p \<and> outcomes_of p u = outcomes_of p s \<and> queued_for p u = queued_for p s
      \<and> waitQueue (heap u ! p) = waitQueue (heap s ! p) \<and> h_done (heap u ! p) = h_done (heap s ! p)" if "p \<noteq> r" for p
    using that wq by (simp add: u outcomes_of_def queued_for_def comp_def)
qed (use r ev refs u in auto)

text \<open>The moves of a thread as changes of what \<open>run_ok\<close> relates.\<close>

lemma run_ok_start:
  assumes "run_ok mcpy c st q out pc h" and "pc \<noteq> Joined" and "run_hand pc = []" and "run_hand pc' = []" and "pc' \<noteq> Joined"
    and "waitQueue h' = waitQueue h" and "h_done h' = h_done h"
  shows "run_ok mcpy c st q out pc' h'"
  by (rule run_okE [OF assms(1)], rule run_okI) (use assms(2-7) in auto)

lemma run_ok_leave:
  assumes "run_ok mcpy c st q out pc h" and "pc \<noteq> Joined" and st
  shows "run_ok mcpy c st q out Joined h'"
  by (rule run_okE [OF assms(1)], rule run_okI) (use assms(2,3) in auto)

lemma run_ok_abort:
  assumes "run_ok mcpy c st q out pc h" and "pc \<noteq> Joined" and st
  shows "run_ok mcpy c st q (out @ [Abort []]) Joined h'"
  by (rule run_okE [OF assms(1)], rule run_okI) (use assms(2,3) in auto)

lemma run_ok_take:
  assumes "run_ok mcpy c st q out At_wait h" and "waitQueue h = m # ms" and "waitQueue h' = ms" and "h_done h' = h_done h"
  shows "run_ok mcpy c st q out (Handling m) h'"
  by (rule run_okE [OF assms(1)], rule run_okI) (use assms(2-4) in auto)

lemma run_ok_push:
  assumes ok: "run_ok mcpy c st q out pc h" and m: "sa_wf_for mcpy m" and h: "waitQueue h' = waitQueue h @ [m]" "h_done h' = h_done h"
  shows "run_ok mcpy c st (q @ [m]) out pc h'"
proof (rule run_okE [OF ok])
  fix seen rest
  assume A: "q = seen @ rest" "pc \<noteq> Joined \<Longrightarrow> rest = run_hand pc @ waitQueue h"
    "pc \<noteq> Joined \<Longrightarrow> out = deliver mcpy c seen" "pc \<noteq> Joined \<Longrightarrow> list_all (\<lambda>x. \<not> final x) out"
    "pc = Joined \<Longrightarrow> out = deliver mcpy c seen
       \<or> st \<and> list_all (\<lambda>x. \<not> final x) (deliver mcpy c seen) \<and> out = deliver mcpy c seen @ [Abort []]"
    "pc = Joined \<Longrightarrow> st \<or> list_ex final out" "h_done h \<Longrightarrow> pc = Joined" "list_all (sa_wf_for mcpy) q"
  show ?thesis
    by (rule run_okI [where seen = seen and rest = "rest @ [m]"]) (use A m h in simp_all)
qed

lemma run_ok_react:
  assumes ok: "run_ok mcpy c st q out (Handling m) h" and wq: "waitQueue h' = waitQueue h"
    and react: "reaction mcpy c m = x" and fin: "h_done h' \<Longrightarrow> h_done h \<or> pc = Joined"
    and pc: "pc = (case x of Some y \<Rightarrow> if final y then Joined else Loop | None \<Rightarrow> Loop)"
  shows "run_ok mcpy c st q (out @ (case x of Some y \<Rightarrow> [y] | None \<Rightarrow> [])) pc h'"
proof (rule run_okE [OF ok])
  fix seen rest
  assume A: "q = seen @ rest" "Handling m \<noteq> Joined \<Longrightarrow> rest = run_hand (Handling m) @ waitQueue h"
    "Handling m \<noteq> Joined \<Longrightarrow> out = deliver mcpy c seen" "Handling m \<noteq> Joined \<Longrightarrow> list_all (\<lambda>x. \<not> final x) out"
    "h_done h \<Longrightarrow> Handling m = Joined" "list_all (sa_wf_for mcpy) q"
  have nf: "list_all (\<lambda>x. \<not> final x) (deliver mcpy c seen)" using A(3,4) by simp
  have out: "out @ (case x of Some y \<Rightarrow> [y] | None \<Rightarrow> []) = deliver mcpy c (seen @ [m])"
    using deliver_snoc [OF nf, of m] react A(3) by (simp split: option.splits)
  have more: "pc \<noteq> Joined \<Longrightarrow> list_all (\<lambda>x. \<not> final x) (deliver mcpy c (seen @ [m]))"
    "pc = Joined \<Longrightarrow> list_ex final (deliver mcpy c (seen @ [m]))" "pc \<noteq> Joined \<Longrightarrow> pc = Loop"
    using deliver_snoc [OF nf, of m] react nf pc by (auto split: option.splits if_splits)
  show ?thesis
    unfolding out by (rule run_okI [where seen = "seen @ [m]" and rest = "waitQueue h'"])
      (use A wq fin more in auto)
qed

text \<open>The processing of a message is the reference reaction.\<close>

lemma run_process_reaction:
  assumes m: "sa_wf_for mcpy m" and r: "run_of r s = Some (Handling m)"
  shows "run_process mcpy c r s = Some (case reaction mcpy c m of
      None \<Rightarrow> set_run r Loop s
    | Some x \<Rightarrow> if final x then run_result r x s else set_run r Loop (emit r x s))"
proof -
  obtain b m' d where u: "unpack mcpy c m = Some (b, m')" "sa_opcode m' = sa_opcode m" "getData m' = Some d"
    using unpack_spec [OF m, of c] by blast
  then have rd: "received_data mcpy c m = (if b then Some d else None)"
    using received_data_unpack [of mcpy c m d] received_data_unpack [of mcpy c m]
    by (cases "received_data mcpy c m") auto
  show ?thesis
    using r u rd
    by (cases b; cases "sa_opcode m") (simp_all add: run_process_def reaction_def result_codes_def Let_def)
qed

lemma run_of_Some: "run_of r s = Some pc \<longleftrightarrow> r < length (runs s) \<and> runs s ! r = pc"
  by (auto simp: run_of_def)

lemma run_finish_simps [simp]:
  "length (heap (run_finish r s)) = length (heap s)" "runs (run_finish r s) = (runs s)[r := Joined]"
  "outcomes (run_finish r s) = outcomes s" "queued_log (run_finish r s) = queued_log s"
  "waitQueue (heap (run_finish r s) ! p) = waitQueue (heap s ! p)" "h_done (heap (run_finish r s) ! p) = h_done (heap s ! p)"
  "refs_valid (run_finish r s) = refs_valid s"
  "p_stopping (run_finish r s) = p_stopping s"
  by (simp_all add: run_finish_def)

lemma run_result_simps [simp]:
  "length (heap (run_result r x s)) = length (heap s)" "runs (run_result r x s) = (runs s)[r := Joined]"
  "outcomes (run_result r x s) = outcomes s @ [(r, x)]" "queued_log (run_result r x s) = queued_log s"
  "waitQueue (heap (run_result r x s) ! p) = waitQueue (heap s ! p)"
  "h_done (heap (run_result r x s) ! p) \<longleftrightarrow> h_done (heap s ! p) \<or> p = r \<and> r < length (heap s)" "refs_valid (run_result r x s) = refs_valid s"
  "p_stopping (run_result r x s) = p_stopping s"
  by (auto simp: run_result_def)

lemma evolve_run_finish [evolves]: "evolve p q \<Longrightarrow> r < length (heap q) \<Longrightarrow> evolve p (run_finish r q)"
  by (auto simp: run_finish_def intro!: evolves)

lemma evolve_run_result [evolves]: "evolve p q \<Longrightarrow> r < length (heap q) \<Longrightarrow> evolve p (run_result r x q)"
  by (auto simp: run_result_def intro!: evolves)

lemma run_process_step:
  assumes inv: "as_inv mcpy c s" and st: "run_process mcpy c r s = Some s'"
  shows "as_inv mcpy c s'" "evolve s s'"
proof -
  note D = as_invD [OF inv]
  obtain m where r: "run_of r s = Some (Handling m)"
    using st by (auto simp: run_process_def split: option.splits run_pc.splits)
  then have rl: "r < length (heap s)" and rr: "runs s ! r = Handling m" using D(2) by (auto simp: run_of_Some)
  note ok = D(4) [OF rl, unfolded run_ok_at_def rr]
  then have "m \<in> set (queued_for r s)" and "list_all (sa_wf_for mcpy) (queued_for r s)"
    unfolding run_ok_def by auto
  then have "sa_wf_for mcpy m" by (simp add: list_all_iff)
  note s' = run_process_reaction [OF this r, of c, unfolded st, simplified]
  let ?x = "case reaction mcpy c m of Some y \<Rightarrow> [y] | None \<Rightarrow> []"
  let ?pc = "case reaction mcpy c m of Some y \<Rightarrow> if final y then Joined else Loop | None \<Rightarrow> Loop"
  show ev: "evolve s s'" using rl by (auto simp: s' split: option.splits intro!: evolves)
  have s'_fields: "length (heap s') = length (heap s)" "runs s' = (runs s)[r := ?pc]" "queued_log s' = queued_log s"
    "outcomes s' = outcomes s @ map (Pair r) ?x" "p_stopping s' = p_stopping s" "refs_valid s' = refs_valid s"
    "\<And>p. waitQueue (heap s' ! p) = waitQueue (heap s ! p)" "\<And>p. p \<noteq> r \<Longrightarrow> h_done (heap s' ! p) = h_done (heap s ! p)"
    by (simp_all add: s' split: option.splits)
  have "h_done (heap s' ! r) \<Longrightarrow> h_done (heap s ! r) \<or> ?pc = Joined"
    by (simp add: s' split: option.splits if_splits)
  then have "run_ok mcpy c (p_stopping s') (queued_for r s @ []) (outcomes_of r s @ ?x) ?pc (heap s' ! r)"
    unfolding s'_fields(5) append_Nil2
    by (intro run_ok_react [OF ok s'_fields(7) refl _ refl])
  then show "as_inv mcpy c s'"
    using s'_fields D(3) by (intro as_inv_thread [OF inv rl ev, where xs = ?x and ms = "[]" and pc = ?pc]) simp_all
qed

lemma run_wake_step:
  assumes inv: "as_inv mcpy c s" and st: "run_wake ok r s = Some s'"
  shows "as_inv mcpy c s'" "evolve s s'"
proof -
  note D = as_invD [OF inv]
  have r: "run_of r s = Some At_wait"
    using st by (auto simp: run_wake_def split: option.splits run_pc.splits)
  then have rl: "r < length (heap s)" and rr: "runs s ! r = At_wait" using D(2) by (auto simp: run_of_Some)
  note ok = D(4) [OF rl, unfolded run_ok_at_def rr]
  then have busy: "\<not> h_done (heap s ! r)" by (auto simp: run_ok_def)
  show ev: "evolve s s'"
    using st rl r by (auto simp: run_wake_def split: if_splits list.splits intro!: evolves)
  consider (abort) "p_stopping s" "s' = run_finish r (emit r (Abort []) s)" | (leave) "p_stopping s" "s' = run_finish r s"
    | (take) m ms where "waitQueue (heap s ! r) = m # ms" "s' = set_run r (Handling m) (upd r (\<lambda>h. h\<lparr>waitQueue := ms\<rparr>) s)"
    using st r busy by (auto simp: run_wake_def split: if_splits list.splits)
  then show "as_inv mcpy c s'"
  proof cases
    case abort
    then show ?thesis
      using run_ok_abort [OF ok] D(3)
      by (intro as_inv_thread [OF inv rl ev, where xs = "[Abort []]" and ms = "[]" and pc = Joined]) simp_all
  next
    case leave
    then show ?thesis
      using run_ok_leave [OF ok] D(3)
      by (intro as_inv_thread [OF inv rl ev, where xs = "[]" and ms = "[]" and pc = Joined]) simp_all
  next
    case take
    then show ?thesis
      using run_ok_take [OF ok take(1)] D(3) rl
      by (intro as_inv_thread [OF inv rl ev, where xs = "[]" and ms = "[]" and pc = "Handling m"]) simp_all
  qed
qed

lemma run_loop_step:
  assumes inv: "as_inv mcpy c s" and st: "run_loop r s = Some s'"
  shows "as_inv mcpy c s'" "evolve s s'"
proof -
  note D = as_invD [OF inv]
  have r: "run_of r s = Some Loop"
    using st by (auto simp: run_loop_def split: option.splits run_pc.splits)
  then have rl: "r < length (heap s)" and rr: "runs s ! r = Loop" using D(2) by (auto simp: run_of_Some)
  note ok = D(4) [OF rl, unfolded run_ok_at_def rr]
  show ev: "evolve s s'" using st r by (auto simp: run_loop_def intro!: evolves)
  show "as_inv mcpy c s'"
    using st r D(3) run_ok_leave [OF ok] run_ok_start [OF ok, where pc' = At_wait and h' = "heap s ! r"]
    by (intro as_inv_thread [OF inv rl ev, where xs = "[]" and ms = "[]" and pc = "if p_stopping s then Joined else At_wait"])
      (auto simp: run_loop_def)
qed

lemma handleAccepted_step:
  assumes inv: "as_inv mcpy c s" and st: "handleAccepted k s = Some s'"
  shows "as_inv mcpy c s' \<and> evolve s s'"
proof -
  note D = as_invD [OF inv]
  let ?g = "goal_gid (goals s ! k)" and ?s = "set_goal k G_started s"
  have look: "lookup ?g ?s = lookup ?g s" by (simp add: lookup_def)
  have q: "quiet s ?s" using quiet_refl [OF D(3)] by (intro as_frames) simp_all
  have goal: "goal_of k s = Some G_accepted"
    using st by (auto simp: handleAccepted_def split: option.splits goal_pc.splits)
  have "quiet s s' \<or> (\<exists>r. lookup ?g s = Some r \<and> runs s ! r = No_thread
      \<and> s' = set_run r Loop (upd r (\<lambda>h. h\<lparr>handlingWait := True\<rparr>) ?s))"
  proof (cases "lookup ?g s")
    case None
    then have "s' = p_send None ACTION_TO_CLIENT_CANCEL [] ?g ?s"
      using st goal by (simp add: handleAccepted_def Let_def look)
    then show ?thesis using q by (simp add: quiet_frames)
  next
    case (Some r)
    have "r < length (heap s)" using lookup_valid [OF D(1) Some] by simp
    then have "quiet s (removeHandle r (p_send og op d g ?s))" "quiet s (removeHandle r ?s)" for og op d g
      using q by (simp_all add: quiet_frames)
    then show ?thesis
      using st goal Some by (auto simp: handleAccepted_def Let_def look split: if_splits)
  qed
  then show ?thesis
  proof (elim disjE exE conjE)
    assume "quiet s s'"
    then show ?thesis using quiet_inv [OF inv] by (auto simp: quiet_def)
  next
    fix r
    assume r: "lookup ?g s = Some r" "runs s ! r = No_thread"
      and s': "s' = set_run r Loop (upd r (\<lambda>h. h\<lparr>handlingWait := True\<rparr>) ?s)"
    then have rl: "r < length (heap s)" using lookup_valid [OF D(1)] by blast
    have ev: "evolve s s'" by (auto simp: s' intro!: evolves)
    have "as_inv mcpy c s'"
      using run_ok_start [OF D(4) [OF rl, unfolded run_ok_at_def r(2)], where pc' = Loop and h' = "heap s' ! r"]
        refs_valid_goal [OF D(3), of G_started k]
      by (intro as_inv_thread [OF inv rl ev, where xs = "[]" and ms = "[]" and pc = Loop]) (simp_all add: s')
    with ev show ?thesis by simp
  qed
qed

lemma as_handle_step:
  assumes inv: "as_inv mcpy c s" and m: "sa_wf_for mcpy m" and st: "as_handle m s = Some s'"
  shows "as_inv mcpy c s' \<and> evolve s s'"
proof -
  note D = as_invD [OF inv]
  obtain gid where gid: "getGID m = Some gid" using st by (auto simp: as_handle_def getGIDString_eq bind_eq_Some_conv)
  have "quiet s s' \<or> (\<exists>r. lookup gid s = Some r
      \<and> s' = (upd r (\<lambda>h. h\<lparr>waitQueue := waitQueue h @ [m]\<rparr>) s)\<lparr>queued_log := queued_log s @ [(r, m)]\<rparr>)"
    using st quiet_refl [OF D(3)]
    by (auto simp: as_handle_def getGIDString_eq gid lookup_def split: option.splits if_splits intro!: as_frames)
  then show ?thesis
  proof (elim disjE exE conjE)
    assume "quiet s s'"
    then show ?thesis using quiet_inv [OF inv] by (auto simp: quiet_def)
  next
    fix r
    assume r: "lookup gid s = Some r"
      and s': "s' = (upd r (\<lambda>h. h\<lparr>waitQueue := waitQueue h @ [m]\<rparr>) s)\<lparr>queued_log := queued_log s @ [(r, m)]\<rparr>"
    then have rl: "r < length (heap s)" using lookup_valid [OF D(1)] by blast
    have ext: "evolve p (q\<lparr>queued_log := x\<rparr>) = evolve p q" for p q x by (simp add: evolve_def)
    have ev: "evolve s s'" unfolding s' ext by (intro evolves) simp
    have run: "(runs s)[r := runs s ! r] = runs s" by simp
    have "refs_valid s'" using D(3) by (simp add: s' refs_valid_def)
    then have "as_inv mcpy c s'"
      using run_ok_push [OF D(4) [OF rl, unfolded run_ok_at_def] m, where h' = "heap s' ! r"] rl
      by (intro as_inv_thread [OF inv rl ev, where xs = "[]" and ms = "[m]" and pc = "runs s ! r"]) (simp_all add: s')
    with ev show ?thesis by simp
  qed
qed

lemma quiet_step: "as_inv mcpy c s \<Longrightarrow> quiet s s' \<Longrightarrow> as_inv mcpy c s' \<and> evolve s s'"
  using quiet_inv by (auto simp: quiet_def)

lemma as_step_ok:
  assumes ok: "copy_ok mcpy" and st: "as_step mcpy c s s'" and inv: "as_inv mcpy c s"
  shows "as_inv mcpy c s' \<and> evolve s s'"
  using st inv
proof (induction rule: as_step.induct)
  case (receive x m s s')
  from sa_wf_for_copy_ok [OF ok fromMessage_wf [OF receive(1)]] receive show ?case
    using as_handle_step by blast
next
  case (stop s)
  then show ?case
    using quiet_step [OF stop, of "stop_begin s"] quiet_refl [OF as_invD(3) [OF stop]] by (auto intro: as_frames)
qed (auto intro: goal_begin_inv handleAccepted_step [THEN conjunct1] handleAccepted_step [THEN conjunct2] run_loop_step run_wake_step run_process_step
    dest!: goal_steps_quiet [OF as_invD(3), rotated] cancel_steps_quiet [OF as_invD(3), rotated]
      removal_quiet [OF as_invD(3), rotated] dest: cancel_begin_quiet quiet_step)

lemma as_inv_init: "as_inv mcpy c (action_server_init d)"
  by (simp add: as_inv_def action_server_init_def plugin_state.extend_def plugin_init_def plugin_wf_def
      map_ok_def refs_valid_def)

interpretation asp: handle_plugin "as_step mcpy c" "\<lambda>s. copy_ok mcpy \<and> as_inv mcpy c s" for mcpy c
  by unfold_locales (auto dest: as_step_ok as_invD(1))

lemma as_reachable_inv:
  "(as_step mcpy c)\<^sup>*\<^sup>* (action_server_init d) s \<Longrightarrow> copy_ok mcpy \<Longrightarrow> as_inv mcpy c s"
  using asp.reach_inv [of mcpy c "action_server_init d" s] as_inv_init by blast

section \<open>Outcomes\<close>

lemma as_outcomes:
  assumes inv: "as_inv mcpy c s" and r: "r < length (heap s)"
  shows "\<exists>seen rest. queued_for r s = seen @ rest \<and> (outcomes_of r s = deliver mcpy c seen
     \<or> p_stopping s \<and> list_all (\<lambda>x. \<not> final x) (deliver mcpy c seen) \<and> outcomes_of r s = deliver mcpy c seen @ [Abort []])"
  using as_invD(4) [OF inv r] unfolding run_ok_at_def run_ok_def by blast

lemma as_outcomes_unknown:
  assumes inv: "as_inv mcpy c s" and r: "length (heap s) \<le> r"
  shows "outcomes_of r s = [] \<and> queued_for r s = []"
  using as_invD(5,6) [OF inv] r by (force simp: outcomes_of_def queued_for_def filter_empty_conv)

lemma as_single_result:
  assumes inv: "as_inv mcpy c s"
  shows "list_all (\<lambda>x. \<not> final x) (butlast (outcomes_of r s))"
proof (cases "r < length (heap s)")
  case True
  from as_outcomes [OF inv this] show ?thesis using deliver_final by fastforce
next
  case False
  then show ?thesis using as_outcomes_unknown [OF inv] by simp
qed

lemma as_result_when_ended:
  assumes inv: "as_inv mcpy c s" and r: "run_of r s = Some Joined" and st: "\<not> p_stopping s"
  shows "\<exists>seen rest. queued_for r s = seen @ rest \<and> outcomes_of r s = deliver mcpy c seen \<and> list_ex final (outcomes_of r s)"
proof -
  have "r < length (heap s)" "runs s ! r = Joined" using r as_invD(2) [OF inv] by (auto simp: run_of_Some)
  then show ?thesis
    using as_invD(4) [OF inv, of r] st by (auto simp: run_ok_at_def elim!: run_okE)
qed

text \<open>Messages after the one that ends the goal do not matter.\<close>

lemma deliver_prefix:
  "list_ex final (deliver mcpy c seen) \<Longrightarrow> deliver mcpy c (seen @ rest) = deliver mcpy c seen"
  by (induction seen) (auto split: option.splits if_splits)

section \<open>Stopping\<close>

text \<open>The step of the thread of a handle, and how far it is from its end once the plugin stops.\<close>

definition run_step :: "copy_fun \<Rightarrow> codecs \<Rightarrow> bool \<Rightarrow> nat \<Rightarrow> action_server \<Rightarrow> action_server option" where
  "run_step mcpy c ok r s =
     (case run_of r s of
        Some Loop \<Rightarrow> run_loop r s
      | Some At_wait \<Rightarrow> run_wake ok r s
      | Some (Handling m) \<Rightarrow> run_process mcpy c r s
      | _ \<Rightarrow> Some s)"

fun run_rank :: "run_pc \<Rightarrow> nat" where
  "run_rank No_thread = 0"
| "run_rank Joined = 0"
| "run_rank Loop = 1"
| "run_rank At_wait = 1"
| "run_rank (Handling m) = 2"

lemma run_step_stopping:
  assumes inv: "as_inv mcpy c s" and stop: "p_stopping s" and pc: "run_of r s = Some pc"
  shows "\<exists>s' pc'. run_step mcpy c ok r s = Some s' \<and> run_of r s' = Some pc' \<and> run_rank pc' \<le> run_rank pc - 1
     \<and> p_stopping s' \<and> as_inv mcpy c s' \<and> (pc = No_thread \<longleftrightarrow> pc' = No_thread)"
proof (cases pc)
  case Loop
  then show ?thesis
    using assms run_loop_step(1) [OF inv, of r] by (auto simp: run_step_def run_loop_def run_of_def split: if_splits)
next
  case At_wait
  then show ?thesis
    using assms run_wake_step(1) [OF inv, of ok r]
    by (auto simp: run_step_def run_wake_def run_of_def split: if_splits)
next
  case (Handling m)
  then have "r < length (runs s)" "runs s ! r = Handling m" using pc by (auto simp: run_of_Some)
  then have "run_ok mcpy c True (queued_for r s) (outcomes_of r s) (Handling m) (heap s ! r)"
    using as_invD(2,4) [OF inv] stop by (fastforce simp: run_ok_at_def)
  then have "sa_wf_for mcpy m" unfolding run_ok_def by auto
  then obtain s' where s': "run_process mcpy c r s = Some s'" and eq: "Some s' = Some (case reaction mcpy c m of
      None \<Rightarrow> set_run r Loop s
    | Some x \<Rightarrow> if final x then run_result r x s else set_run r Loop (emit r x s))"
    using run_process_reaction [of mcpy m r s c] pc Handling by auto
  have "p_stopping s'" "run_of r s' = Some Loop \<or> run_of r s' = Some Joined"
    using eq stop \<open>r < length (runs s)\<close> by (auto simp: run_of_def split: option.splits)
  then show ?thesis
    using s' pc Handling run_process_step(1) [OF inv s'] by (auto simp: run_step_def)
qed (use assms in \<open>auto simp: run_step_def\<close>)

lemma run_stops:
  assumes inv: "as_inv mcpy c s" and stop: "p_stopping s" and pc: "run_of r s = Some pc" and thread: "pc \<noteq> No_thread"
  shows "\<exists>s'. run_step mcpy c ok r s \<bind> run_step mcpy c ok r = Some s' \<and> run_of r s' = Some Joined"
proof -
  obtain t pt where t: "run_step mcpy c ok r s = Some t" "run_of r t = Some pt" "run_rank pt \<le> run_rank pc - 1"
    "p_stopping t" "as_inv mcpy c t" "pt \<noteq> No_thread"
    using run_step_stopping [OF inv stop pc, of ok] thread by blast
  obtain u pu where u: "run_step mcpy c ok r t = Some u" "run_of r u = Some pu" "run_rank pu \<le> run_rank pt - 1"
    "pu \<noteq> No_thread"
    using run_step_stopping [OF t(5,4,2), of ok] t(6) by blast
  have "run_rank pc \<le> 2" by (cases pc) simp_all
  then have "run_rank pu = 0" using t(3) u(3) by simp
  then have "pu = Joined" using u(4) by (cases pu) simp_all
  with t u show ?thesis by simp
qed

text \<open>A thread that tests the flag before the first wait leaves without an answer to its goal.\<close>

lemma run_loop_silent:
  "run_of r s = Some Loop \<Longrightarrow> p_stopping s \<Longrightarrow>
     \<exists>s'. run_loop r s = Some s' \<and> run_of r s' = Some Joined \<and> outcomes s' = outcomes s"
  by (auto simp: run_loop_def run_of_def split: if_splits)

end
