(* ===== verification/ActionClient.thy ===== *)
theory ActionClient
  imports ServiceActionHandle
begin

text \<open>
  \<^verbatim>\<open>include/connect/action/actionClient.hpp\<close>: the side of an action that calls the local ROS
  action. Every goal of the peer gets a handle and a thread; the callbacks of the rclcpp action client
  answer the peer.
\<close>

section \<open>State\<close>

text \<open>
  The position of the thread of a handle in \<open>executeHandle\<close> and in \<open>executeGoal\<close>: the loop test, the
  wait, the message it took; a checked goal waits for the action, the test for stopping follows, then
  the goal is sent.
\<close>

datatype thread_pc =
    A_loop | A_wait | A_handling sa_message | A_await sa_message | A_check sa_message
  | A_send sa_message | A_left

text \<open>
  \<open>threads\<close> has an entry for every handle. The virtual functions of a plugin pass goals and cancel
  requests on to rclcpp_action, whose documented behaviour is: a goal that is sent gets one response
  (\<open>goal_pending\<close>), an accepted one gets feedback and one result (\<open>active\<close>), a cancel request gets
  one response (\<open>cancel_pending\<close>).
\<close>

record action_client = plugin_state +
  ac_expectedSize :: nat
  ac_dynamicSize :: bool
  threads :: "thread_pc list"
  goal_pending :: "nat list"
  active :: "nat list"
  cancel_pending :: "nat list"

definition action_client_init :: "Service_Action_t \<Rightarrow> nat \<Rightarrow> bool \<Rightarrow> action_client" where
  "action_client_init d n dyn = plugin_state.extend (plugin_init d)
     \<lparr>ac_expectedSize = n, ac_dynamicSize = dyn, threads = [], goal_pending = [], active = [], cancel_pending = []\<rparr>"

definition set_thread :: "nat \<Rightarrow> thread_pc \<Rightarrow> action_client \<Rightarrow> action_client" where
  "set_thread r pc s = s\<lparr>threads := (threads s)[r := pc]\<rparr>"

definition thread_of :: "nat \<Rightarrow> action_client \<Rightarrow> thread_pc option" where
  "thread_of r s = (if r < length (threads s) then Some (threads s ! r) else None)"

section \<open>handle\<close>

definition ac_handle :: "sa_message \<Rightarrow> action_client \<Rightarrow> action_client option" where
  "ac_handle m s = do {
     key \<leftarrow> getGIDString m;
     gid \<leftarrow> getGID m;
     let it = map_of (handles s) key;
     Some
       (if isServiceActionOpCode m ACTION_TO_CLIENT_GOAL
        then (if it \<noteq> None then p_send None ACTION_TO_SERVER_GOAL_REJECT [] gid s
              else if p_stopping s then s
              else (register ((new_handle gid 0)\<lparr>waitQueue := [m]\<rparr>) s)\<lparr>threads := threads s @ [A_loop]\<rparr>)
        else if isServiceActionOpCode m ACTION_TO_CLIENT_CANCEL
        then (case it of
            None \<Rightarrow> p_send None ACTION_TO_SERVER_GOAL_REJECT [] gid s
          | Some r \<Rightarrow> upd r (\<lambda>h. h\<lparr>waitQueue := waitQueue h @ [m]\<rparr>) s)
        else s)
   }"

section \<open>The callbacks\<close>

definition answer :: "nat \<Rightarrow> ServiceActionOpCode \<Rightarrow> bytes \<Rightarrow> action_client \<Rightarrow> action_client" where
  "answer r sop data s = p_send (Some r) sop data (gID (heap s ! r)) s"

definition cancelAccepted :: "nat \<Rightarrow> action_client \<Rightarrow> action_client" where
  "cancelAccepted r s = upd r (\<lambda>h. h\<lparr>h_done := True, handlingCancel := False\<rparr>) (answer r ACTION_TO_SERVER_CANCEL_ACCEPT [] s)"

definition cancelRejected :: "nat \<Rightarrow> action_client \<Rightarrow> action_client" where
  "cancelRejected r s = upd r (\<lambda>h. h\<lparr>handlingCancel := False\<rparr>) (answer r ACTION_TO_SERVER_CANCEL_REJECT [] s)"

definition goalAccepted :: "nat \<Rightarrow> action_client \<Rightarrow> action_client" where
  "goalAccepted r s = upd r (\<lambda>h. h\<lparr>clientGoalHandle := True, handlingGoal := False\<rparr>) (answer r ACTION_TO_SERVER_GOAL_ACCEPT [] s)"

definition goalRejected :: "nat \<Rightarrow> action_client \<Rightarrow> action_client" where
  "goalRejected r s = upd r (\<lambda>h. h\<lparr>h_done := True, handlingGoal := False\<rparr>) (answer r ACTION_TO_SERVER_GOAL_ACCEPT [] s)"

definition resultSucceeded :: "bytes \<Rightarrow> nat \<Rightarrow> action_client \<Rightarrow> action_client" where
  "resultSucceeded data r s = upd r (\<lambda>h. h\<lparr>h_done := True\<rparr>) (answer r ACTION_TO_SERVER_RESULT_SUCCEEDED data s)"

definition resultCanceled :: "bytes \<Rightarrow> nat \<Rightarrow> action_client \<Rightarrow> action_client" where
  "resultCanceled data r s = upd r (\<lambda>h. h\<lparr>h_done := True\<rparr>) (answer r ACTION_TO_SERVER_RESULT_CANCELED data s)"

definition resultAborted :: "bytes \<Rightarrow> nat \<Rightarrow> action_client \<Rightarrow> action_client" where
  "resultAborted data r s = upd r (\<lambda>h. h\<lparr>h_done := True\<rparr>) (answer r ACTION_TO_SERVER_RESULT_ABORTED data s)"

definition feedback :: "bytes \<Rightarrow> nat \<Rightarrow> action_client \<Rightarrow> action_client" where
  "feedback data r s = answer r ACTION_TO_SERVER_FEEDBACK data s"

text \<open>When rclcpp_action calls them.\<close>

definition goal_response :: "bool \<Rightarrow> nat \<Rightarrow> action_client \<Rightarrow> action_client option" where
  "goal_response accepted r s =
     (if r \<notin> set (goal_pending s) then None
      else let s = s\<lparr>goal_pending := remove1 r (goal_pending s)\<rparr> in
        Some (if accepted then goalAccepted r (s\<lparr>active := active s @ [r]\<rparr>) else goalRejected r s))"

definition goal_feedback :: "bytes \<Rightarrow> nat \<Rightarrow> action_client \<Rightarrow> action_client option" where
  "goal_feedback data r s = (if r \<in> set (active s) then Some (feedback data r s) else None)"

datatype result_code = Succeeded | Canceled | Aborted

definition goal_result :: "result_code \<Rightarrow> bytes \<Rightarrow> nat \<Rightarrow> action_client \<Rightarrow> action_client option" where
  "goal_result code data r s =
     (if r \<notin> set (active s) then None
      else let s = s\<lparr>active := remove1 r (active s)\<rparr> in
        Some (case code of
            Succeeded \<Rightarrow> resultSucceeded data r s
          | Canceled \<Rightarrow> resultCanceled data r s
          | Aborted \<Rightarrow> resultAborted data r s))"

definition cancel_response :: "bool \<Rightarrow> nat \<Rightarrow> action_client \<Rightarrow> action_client option" where
  "cancel_response accepted r s =
     (if r \<notin> set (cancel_pending s) then None
      else let s = s\<lparr>cancel_pending := remove1 r (cancel_pending s)\<rparr> in
        Some (if accepted then cancelAccepted r s else cancelRejected r s))"

section \<open>executeHandle\<close>

text \<open>\<open>asyncCancelGoal\<close> sends a cancel request only when there is a stored goal handle.\<close>

definition executeCancel :: "nat \<Rightarrow> action_client \<Rightarrow> action_client" where
  "executeCancel r s =
     (let s = upd r (\<lambda>h. h\<lparr>handlingCancel := True\<rparr>) s in
      if clientGoalHandle (heap s ! r) then s\<lparr>cancel_pending := cancel_pending s @ [r]\<rparr> else s)"

definition thread_leave :: "nat \<Rightarrow> action_client \<Rightarrow> action_client" where
  "thread_leave r s = set_thread r A_left (removeHandle r s)"

definition ac_loop :: "nat \<Rightarrow> action_client \<Rightarrow> action_client option" where
  "ac_loop r s =
     (case thread_of r s of
        Some A_loop \<Rightarrow> Some (set_thread r (if p_stopping s then A_left else A_wait) s)
      | _ \<Rightarrow> None)"

text \<open>The end of the wait; \<open>None\<close> while there is no reason to wake up.\<close>

definition ac_wake :: "nat \<Rightarrow> action_client \<Rightarrow> action_client option" where
  "ac_wake r s =
     (case thread_of r s of
        Some A_wait \<Rightarrow>
          if p_stopping s then Some (thread_leave r (executeCancel r s))
          else if h_done (heap s ! r) then Some (thread_leave r s)
          else (case waitQueue (heap s ! r) of
            [] \<Rightarrow> None
          | m # ms \<Rightarrow> Some (set_thread r (A_handling m) (upd r (\<lambda>h. h\<lparr>waitQueue := ms\<rparr>) s)))
      | _ \<Rightarrow> None)"

text \<open>A goal is refused in three places of \<open>executeGoal\<close>, with the same three actions.\<close>

definition refuse_goal :: "nat \<Rightarrow> action_client \<Rightarrow> action_client" where
  "refuse_goal r s = set_thread r A_loop
     (upd r (\<lambda>h. h\<lparr>handlingGoal := False, h_done := True\<rparr>) (answer r ACTION_TO_SERVER_GOAL_REJECT [] s))"

text \<open>The beginning of \<open>executeGoal\<close>; \<open>None\<close> is an access outside the message.\<close>

definition goal_read :: "copy_fun \<Rightarrow> codecs \<Rightarrow> sa_message \<Rightarrow> nat \<Rightarrow> action_client \<Rightarrow> action_client option" where
  "goal_read mcpy c m r s = do {
     let s = upd r (\<lambda>h. h\<lparr>handlingGoal := True\<rparr>) s;
     (readable, m) \<leftarrow> unpack mcpy c m;
     data \<leftarrow> getData m;
     Some (if \<not> readable then refuse_goal r s
           else if \<not> ac_dynamicSize s \<and> length data \<noteq> ac_expectedSize s then refuse_goal r s
           else set_thread r (A_await m) s)
   }"

definition ac_process :: "copy_fun \<Rightarrow> codecs \<Rightarrow> nat \<Rightarrow> action_client \<Rightarrow> action_client option" where
  "ac_process mcpy c r s =
     (case thread_of r s of
        Some (A_handling m) \<Rightarrow>
          (let h = heap s ! r; go = set_thread r A_loop in
           if sa_opcode m = ACTION_TO_CLIENT_GOAL
           then (if handlingGoal h \<or> handlingCancel h then Some (go s) else goal_read mcpy c m r s)
           else if sa_opcode m = ACTION_TO_CLIENT_CANCEL
           then Some (if handlingGoal h then go (upd r (\<lambda>h. h\<lparr>waitQueue := waitQueue h @ [m]\<rparr>) s)
                      else if handlingCancel h then go s
                      else go (executeCancel r s))
           else Some (go s))
      | _ \<Rightarrow> None)"

text \<open>\<open>avail\<close> is the result of \<open>waitForAction\<close>.\<close>

definition ac_await :: "bool \<Rightarrow> nat \<Rightarrow> action_client \<Rightarrow> action_client option" where
  "ac_await avail r s =
     (case thread_of r s of
        Some (A_await m) \<Rightarrow> Some (if avail then set_thread r (A_check m) s else refuse_goal r s)
      | _ \<Rightarrow> None)"

definition ac_check :: "nat \<Rightarrow> action_client \<Rightarrow> action_client option" where
  "ac_check r s =
     (case thread_of r s of
        Some (A_check m) \<Rightarrow>
          Some (if p_stopping s
                then set_thread r A_loop (upd r (\<lambda>h. h\<lparr>handlingGoal := False, h_done := True\<rparr>) s)
                else set_thread r (A_send m) s)
      | _ \<Rightarrow> None)"

definition ac_send_goal :: "nat \<Rightarrow> action_client \<Rightarrow> action_client option" where
  "ac_send_goal r s =
     (case thread_of r s of
        Some (A_send m) \<Rightarrow> Some (set_thread r A_loop (s\<lparr>goal_pending := goal_pending s @ [r]\<rparr>))
      | _ \<Rightarrow> None)"

definition thread_ended :: "action_client \<Rightarrow> nat \<Rightarrow> bool" where
  "thread_ended s r \<longleftrightarrow> thread_of r s = Some A_left"

section \<open>The system\<close>

inductive ac_step :: "copy_fun \<Rightarrow> codecs \<Rightarrow> action_client \<Rightarrow> action_client \<Rightarrow> bool"
    for mcpy :: copy_fun and c :: codecs where
  receive: "fromMessage rcl_ops x = Some (Some m) \<Longrightarrow> ac_handle m s = Some s' \<Longrightarrow> ac_step mcpy c s s'"
| loop: "ac_loop r s = Some s' \<Longrightarrow> ac_step mcpy c s s'"
| wake: "ac_wake r s = Some s' \<Longrightarrow> ac_step mcpy c s s'"
| execute: "ac_process mcpy c r s = Some s' \<Longrightarrow> ac_step mcpy c s s'"
| await: "ac_await avail r s = Some s' \<Longrightarrow> ac_step mcpy c s s'"
| check: "ac_check r s = Some s' \<Longrightarrow> ac_step mcpy c s s'"
| send_goal: "ac_send_goal r s = Some s' \<Longrightarrow> ac_step mcpy c s s'"
| goal_response: "goal_response accepted r s = Some s' \<Longrightarrow> ac_step mcpy c s s'"
| goal_feedback: "goal_feedback data r s = Some s' \<Longrightarrow> ac_step mcpy c s s'"
| goal_result: "goal_result code data r s = Some s' \<Longrightarrow> ac_step mcpy c s s'"
| cancel_response: "cancel_response accepted r s = Some s' \<Longrightarrow> ac_step mcpy c s s'"
| remove: "executeRemove (thread_ended s) s = Some s' \<Longrightarrow> ac_step mcpy c s s'"
| stop: "ac_step mcpy c s (stop_begin s)"
| join: "stop_join (thread_ended s) s = Some s' \<Longrightarrow> ac_step mcpy c s s'"

section \<open>The invariant\<close>

definition goal_codes :: "ServiceActionOpCode set" where
  "goal_codes = {ACTION_TO_SERVER_GOAL_ACCEPT, ACTION_TO_SERVER_GOAL_REJECT}"

definition client_result_codes :: "ServiceActionOpCode set" where
  "client_result_codes =
     {ACTION_TO_SERVER_RESULT_SUCCEEDED, ACTION_TO_SERVER_RESULT_CANCELED, ACTION_TO_SERVER_RESULT_ABORTED}"

text \<open>How many messages of a kind were sent on behalf of a handle.\<close>

definition sent_for :: "ServiceActionOpCode set \<Rightarrow> nat \<Rightarrow> action_client \<Rightarrow> nat" where
  "sent_for ops r s = length (filter (\<lambda>e. fst e = Some r \<and> fst (snd e) \<in> ops) (sent s))"

text \<open>What the invariant says of one handle speaks of these values.\<close>

record handle_view =
  v_handle :: handle
  v_pc :: thread_pc
  v_goal :: nat
  v_result :: nat
  v_pending :: nat
  v_active :: nat
  v_cancel :: nat

definition view :: "nat \<Rightarrow> action_client \<Rightarrow> handle_view" where
  "view r s = \<lparr>v_handle = heap s ! r, v_pc = threads s ! r, v_goal = sent_for goal_codes r s,
     v_result = sent_for client_result_codes r s, v_pending = count_list (goal_pending s) r,
     v_active = count_list (active s) r, v_cancel = count_list (cancel_pending s) r\<rparr>"

fun pc_message :: "thread_pc \<Rightarrow> sa_message option" where
  "pc_message (A_handling m) = Some m"
| "pc_message (A_await m) = Some m"
| "pc_message (A_check m) = Some m"
| "pc_message (A_send m) = Some m"
| "pc_message _ = None"

definition is_goal :: "sa_message \<Rightarrow> bool" where
  "is_goal m \<longleftrightarrow> sa_opcode m = ACTION_TO_CLIENT_GOAL"

fun goal_in_hand :: "thread_pc \<Rightarrow> nat" where
  "goal_in_hand (A_handling m) = (if is_goal m then 1 else 0)"
| "goal_in_hand (A_await m) = 1"
| "goal_in_hand (A_check m) = 1"
| "goal_in_hand (A_send m) = 1"
| "goal_in_hand _ = 0"

text \<open>
  The goal is in one place only: in the queue, in hand, with rclcpp_action, or answered. A result
  belongs to an accepted goal. A thread leaves an unanswered goal only when the plugin stops.
\<close>

definition client_ok :: "copy_fun \<Rightarrow> bool \<Rightarrow> handle_view \<Rightarrow> bool" where
  "client_ok mcpy stopped v \<longleftrightarrow>
     v_goal v + v_pending v + goal_in_hand (v_pc v) + length (filter is_goal (waitQueue (v_handle v))) \<le> 1
   \<and> v_result v + v_active v \<le> v_goal v
   \<and> list_all (sa_wf_for mcpy) (waitQueue (v_handle v)) \<and> (\<forall>m. pc_message (v_pc v) = Some m \<longrightarrow> sa_wf_for mcpy m)
   \<and> (h_done (v_handle v) \<or> v_pc v = A_left \<longrightarrow> v_goal v = 1 \<or> stopped)
   \<and> (clientGoalHandle (v_handle v) \<longrightarrow> v_goal v = 1) \<and> (0 < v_cancel v \<longrightarrow> clientGoalHandle (v_handle v))"

definition ac_inv :: "copy_fun \<Rightarrow> action_client \<Rightarrow> bool" where
  "ac_inv mcpy s \<longleftrightarrow> plugin_wf s \<and> length (threads s) = length (heap s)
     \<and> (\<forall>r < length (heap s). client_ok mcpy (p_stopping s) (view r s))
     \<and> set (goal_pending s) \<union> set (active s) \<union> set (cancel_pending s) \<subseteq> {..< length (heap s)}
     \<and> (\<forall>e \<in> set (sent s). \<forall>r. fst e = Some r \<longrightarrow> r < length (heap s))"

lemma ac_invD:
  assumes "ac_inv mcpy s"
  shows "plugin_wf s" "length (threads s) = length (heap s)"
    "r < length (heap s) \<Longrightarrow> client_ok mcpy (p_stopping s) (view r s)"
    "r \<in> set (goal_pending s) \<Longrightarrow> r < length (heap s)" "r \<in> set (active s) \<Longrightarrow> r < length (heap s)"
    "r \<in> set (cancel_pending s) \<Longrightarrow> r < length (heap s)"
    "e \<in> set (sent s) \<Longrightarrow> fst e = Some r \<Longrightarrow> r < length (heap s)"
  using assms by (auto simp: ac_inv_def)

lemma client_ok_stop: "client_ok mcpy st v \<Longrightarrow> (st \<Longrightarrow> st') \<Longrightarrow> client_ok mcpy st' v"
  by (auto simp: client_ok_def)

lemma ac_simps [simp]:
  "threads (p_send og op d g s) = threads s" "threads (upd r f s) = threads s" "threads (removeHandle r s) = threads s"
  "threads (register h s) = threads s" "threads (stop_begin s) = threads s"
  "goal_pending (p_send og op d g s) = goal_pending s" "goal_pending (upd r f s) = goal_pending s"
  "goal_pending (removeHandle r s) = goal_pending s" "goal_pending (register h s) = goal_pending s"
  "goal_pending (stop_begin s) = goal_pending s"
  "active (p_send og op d g s) = active s" "active (upd r f s) = active s" "active (removeHandle r s) = active s"
  "active (register h s) = active s" "active (stop_begin s) = active s"
  "cancel_pending (p_send og op d g s) = cancel_pending s" "cancel_pending (upd r f s) = cancel_pending s"
  "cancel_pending (removeHandle r s) = cancel_pending s" "cancel_pending (register h s) = cancel_pending s"
  "cancel_pending (stop_begin s) = cancel_pending s"
  by (simp_all add: p_send_def upd_def removeHandle_def register_def stop_begin_def)

lemma set_thread_simps [simp]:
  "heap (set_thread r pc s) = heap s" "handles (set_thread r pc s) = handles s"
  "toRemove (set_thread r pc s) = toRemove s" "p_stopping (set_thread r pc s) = p_stopping s"
  "sent (set_thread r pc s) = sent s" "threads (set_thread r pc s) = (threads s)[r := pc]"
  "goal_pending (set_thread r pc s) = goal_pending s" "active (set_thread r pc s) = active s"
  "cancel_pending (set_thread r pc s) = cancel_pending s"
  by (simp_all add: set_thread_def)

lemma answer_simps [simp]:
  "heap (answer r op d s) = heap s" "handles (answer r op d s) = handles s"
  "toRemove (answer r op d s) = toRemove s" "p_stopping (answer r op d s) = p_stopping s"
  "sent (answer r op d s) = sent s @ [(Some r, op, d, gID (heap s ! r))]" "threads (answer r op d s) = threads s"
  "goal_pending (answer r op d s) = goal_pending s" "active (answer r op d s) = active s"
  "cancel_pending (answer r op d s) = cancel_pending s"
  by (simp_all add: answer_def)

lemma evolve_action_client [evolves]:
  "evolve p q \<Longrightarrow> evolve p (set_thread r pc q)" "evolve p q \<Longrightarrow> evolve p (answer r op d q)"
  "evolve p q \<Longrightarrow> evolve p (q\<lparr>goal_pending := xs\<rparr>)" "evolve p q \<Longrightarrow> evolve p (q\<lparr>active := xs\<rparr>)"
  "evolve p q \<Longrightarrow> evolve p (q\<lparr>cancel_pending := xs\<rparr>)" "evolve p q \<Longrightarrow> evolve p (q\<lparr>threads := pcs\<rparr>)"
  by (simp_all add: evolve_def set_thread_def answer_def)

lemma thread_of_Some: "thread_of r s = Some pc \<longleftrightarrow> r < length (threads s) \<and> threads s ! r = pc"
  by (auto simp: thread_of_def)

text \<open>A step on behalf of one handle.\<close>

definition on_handle :: "nat \<Rightarrow> action_client \<Rightarrow> action_client \<Rightarrow> bool" where
  "on_handle r s t \<longleftrightarrow> evolve s t \<and> length (heap t) = length (heap s) \<and> length (threads t) = length (threads s)
     \<and> (\<forall>q. q \<noteq> r \<longrightarrow> view q t = view q s)
     \<and> set (goal_pending t) \<union> set (active t) \<union> set (cancel_pending t)
         \<subseteq> insert r (set (goal_pending s) \<union> set (active s) \<union> set (cancel_pending s))
     \<and> (\<forall>e \<in> set (sent t). e \<in> set (sent s) \<or> fst e = Some r \<or> fst e = None)"

lemma on_handle_inv:
  assumes inv: "ac_inv mcpy s" and on: "on_handle r s t" and r: "r < length (heap s)"
    and ok: "client_ok mcpy (p_stopping t) (view r t)"
  shows "ac_inv mcpy t"
proof -
  note D = ac_invD [OF inv]
  have ev: "evolve s t" and len: "length (heap t) = length (heap s)" using on by (auto simp: on_handle_def)
  have "client_ok mcpy (p_stopping t) (view q t)" if "q < length (heap t)" for q
    using that D(3) [of q] on ok ev client_ok_stop [of mcpy "p_stopping s" "view q s" "p_stopping t"]
    by (cases "q = r") (auto simp: on_handle_def evolve_def)
  moreover have "plugin_wf t" using evolve_wf [OF ev D(1)] .
  moreover have "fst e = Some q \<Longrightarrow> q < length (heap s)" if "e \<in> set (sent t)" for e q
    using that on D(7) [of e q] r by (auto simp: on_handle_def)
  moreover have "set (goal_pending t) \<union> set (active t) \<union> set (cancel_pending t) \<subseteq> {..< length (heap s)}"
    using on inv r by (fastforce simp: on_handle_def ac_inv_def)
  ultimately show ?thesis using D(2) on by (auto simp: ac_inv_def on_handle_def)
qed

lemma on_handle_refl: "on_handle r s s"
  by (auto simp: on_handle_def evolve_refl)

named_theorems on_frames

lemma on_handle_frames [on_frames]:
  "on_handle r s t \<Longrightarrow> on_handle r s (set_thread r pc t)"
  "on_handle r s t \<Longrightarrow> on_handle r s (answer r op d t)"
  "on_handle r s t \<Longrightarrow> (\<And>h. gID (f h) = gID h) \<Longrightarrow> on_handle r s (upd r f t)"
  "on_handle r s t \<Longrightarrow> r < length (heap t) \<Longrightarrow> on_handle r s (removeHandle r t)"
  "on_handle r s t \<Longrightarrow> on_handle r s (t\<lparr>goal_pending := goal_pending t @ [r]\<rparr>)"
  "on_handle r s t \<Longrightarrow> on_handle r s (t\<lparr>active := active t @ [r]\<rparr>)"
  "on_handle r s t \<Longrightarrow> on_handle r s (t\<lparr>cancel_pending := cancel_pending t @ [r]\<rparr>)"
  by (auto simp: on_handle_def view_def sent_for_def heap_upd intro: evolves)

lemma on_handle_remove1 [on_frames]:
  assumes "on_handle r s t"
  shows "on_handle r s (t\<lparr>goal_pending := remove1 r (goal_pending t)\<rparr>)" "on_handle r s (t\<lparr>active := remove1 r (active t)\<rparr>)"
    "on_handle r s (t\<lparr>cancel_pending := remove1 r (cancel_pending t)\<rparr>)"
  using assms set_remove1_subset [of r "goal_pending t"] set_remove1_subset [of r "active t"]
    set_remove1_subset [of r "cancel_pending t"]
  by (auto simp: on_handle_def view_def sent_for_def intro!: evolves)

lemma view_upd: "r < length (heap s) \<Longrightarrow> view r (upd r f s) = (view r s)\<lparr>v_handle := f (v_handle (view r s))\<rparr>"
  by (simp add: view_def heap_upd sent_for_def)

lemma view_simps:
  "r < length (threads s) \<Longrightarrow> view r (set_thread r pc s) = (view r s)\<lparr>v_pc := pc\<rparr>"
  "view r (removeHandle q s) = view r s"
  "view r (answer r op d s) = (view r s)\<lparr>v_goal := v_goal (view r s) + (if op \<in> goal_codes then 1 else 0),
     v_result := v_result (view r s) + (if op \<in> client_result_codes then 1 else 0)\<rparr>"
  "view r (s\<lparr>goal_pending := goal_pending s @ [r]\<rparr>) = (view r s)\<lparr>v_pending := v_pending (view r s) + 1\<rparr>"
  "view r (s\<lparr>active := active s @ [r]\<rparr>) = (view r s)\<lparr>v_active := v_active (view r s) + 1\<rparr>"
  "view r (s\<lparr>cancel_pending := cancel_pending s @ [r]\<rparr>) = (view r s)\<lparr>v_cancel := v_cancel (view r s) + 1\<rparr>"
  "view r (s\<lparr>goal_pending := remove1 r (goal_pending s)\<rparr>) = (view r s)\<lparr>v_pending := v_pending (view r s) - 1\<rparr>"
  "view r (s\<lparr>active := remove1 r (active s)\<rparr>) = (view r s)\<lparr>v_active := v_active (view r s) - 1\<rparr>"
  "view r (s\<lparr>cancel_pending := remove1 r (cancel_pending s)\<rparr>) = (view r s)\<lparr>v_cancel := v_cancel (view r s) - 1\<rparr>"
  by (simp_all add: view_def sent_for_def set_thread_def)

lemma view_sel:
  "heap s ! r = v_handle (view r s)" "threads s ! r = v_pc (view r s)"
  "r \<in> set (goal_pending s) \<longleftrightarrow> 0 < v_pending (view r s)" "r \<in> set (active s) \<longleftrightarrow> 0 < v_active (view r s)"
  "r \<in> set (cancel_pending s) \<longleftrightarrow> 0 < v_cancel (view r s)"
  by (simp_all add: view_def count_list_0_iff flip: neq0_conv)

lemmas ac_codes = goal_codes_def client_result_codes_def

text \<open>The callbacks.\<close>

lemma callbacks_on [on_frames]:
  assumes "on_handle r s t"
  shows "on_handle r s (cancelAccepted r t)" "on_handle r s (cancelRejected r t)" "on_handle r s (goalAccepted r t)"
    "on_handle r s (goalRejected r t)" "on_handle r s (resultSucceeded d r t)" "on_handle r s (resultCanceled d r t)"
    "on_handle r s (resultAborted d r t)" "on_handle r s (feedback d r t)"
  using assms
  by (simp_all add: on_frames cancelAccepted_def cancelRejected_def goalAccepted_def goalRejected_def
      resultSucceeded_def resultCanceled_def resultAborted_def feedback_def)

lemma callbacks_view:
  assumes "r < length (heap s)"
  shows "view r (cancelAccepted r s) = (view r s)\<lparr>v_handle := (v_handle (view r s))\<lparr>h_done := True, handlingCancel := False\<rparr>\<rparr>"
    "view r (cancelRejected r s) = (view r s)\<lparr>v_handle := (v_handle (view r s))\<lparr>handlingCancel := False\<rparr>\<rparr>"
    "view r (goalAccepted r s) = (view r s)\<lparr>v_handle := (v_handle (view r s))\<lparr>clientGoalHandle := True, handlingGoal := False\<rparr>,
       v_goal := v_goal (view r s) + 1\<rparr>"
    "view r (goalRejected r s) = (view r s)\<lparr>v_handle := (v_handle (view r s))\<lparr>h_done := True, handlingGoal := False\<rparr>,
       v_goal := v_goal (view r s) + 1\<rparr>"
    "view r (resultSucceeded d r s) = (view r s)\<lparr>v_handle := (v_handle (view r s))\<lparr>h_done := True\<rparr>, v_result := v_result (view r s) + 1\<rparr>"
    "view r (resultCanceled d r s) = (view r s)\<lparr>v_handle := (v_handle (view r s))\<lparr>h_done := True\<rparr>, v_result := v_result (view r s) + 1\<rparr>"
    "view r (resultAborted d r s) = (view r s)\<lparr>v_handle := (v_handle (view r s))\<lparr>h_done := True\<rparr>, v_result := v_result (view r s) + 1\<rparr>"
    "view r (feedback d r s) = view r s"
  using assms
  by (simp_all add: cancelAccepted_def cancelRejected_def goalAccepted_def goalRejected_def
      resultSucceeded_def resultCanceled_def resultAborted_def feedback_def view_upd view_simps ac_codes)

lemma callbacks_stopping [simp]:
  "p_stopping (cancelAccepted r s) = p_stopping s" "p_stopping (cancelRejected r s) = p_stopping s"
  "p_stopping (goalAccepted r s) = p_stopping s" "p_stopping (goalRejected r s) = p_stopping s"
  "p_stopping (resultSucceeded d r s) = p_stopping s" "p_stopping (resultCanceled d r s) = p_stopping s"
  "p_stopping (resultAborted d r s) = p_stopping s" "p_stopping (feedback d r s) = p_stopping s"
  by (simp_all add: cancelAccepted_def cancelRejected_def goalAccepted_def goalRejected_def
      resultSucceeded_def resultCanceled_def resultAborted_def feedback_def)

lemma on_handle_step:
  "ac_inv mcpy s \<Longrightarrow> on_handle r s t \<Longrightarrow> r < length (heap s) \<Longrightarrow> client_ok mcpy (p_stopping t) (view r t) \<Longrightarrow>
     ac_inv mcpy t \<and> evolve s t"
  using on_handle_inv by (auto simp: on_handle_def)

lemma client_ok_changes:
  assumes "client_ok mcpy st v"
  shows "0 < v_pending v \<Longrightarrow> client_ok mcpy st (v\<lparr>v_pending := v_pending v - 1, v_active := v_active v + 1,
      v_handle := (v_handle v)\<lparr>clientGoalHandle := True, handlingGoal := False\<rparr>, v_goal := v_goal v + 1\<rparr>)"
    "0 < v_pending v \<Longrightarrow> client_ok mcpy st (v\<lparr>v_pending := v_pending v - 1,
      v_handle := (v_handle v)\<lparr>h_done := True, handlingGoal := False\<rparr>, v_goal := v_goal v + 1\<rparr>)"
    "0 < v_active v \<Longrightarrow> client_ok mcpy st (v\<lparr>v_active := v_active v - 1,
      v_handle := (v_handle v)\<lparr>h_done := True\<rparr>, v_result := v_result v + 1\<rparr>)"
    "0 < v_cancel v \<Longrightarrow> client_ok mcpy st (v\<lparr>v_cancel := v_cancel v - 1,
      v_handle := (v_handle v)\<lparr>h_done := True, handlingCancel := False\<rparr>\<rparr>)"
    "client_ok mcpy st (v\<lparr>v_cancel := v_cancel v - 1, v_handle := (v_handle v)\<lparr>handlingCancel := False\<rparr>\<rparr>)"
proof -
  have "v_goal v + v_pending v + goal_in_hand (v_pc v) + length (filter is_goal (waitQueue (v_handle v))) \<le> 1"
    "v_result v + v_active v \<le> v_goal v" "0 < v_cancel v \<Longrightarrow> v_goal v = 1"
    "h_done (v_handle v) \<or> v_pc v = A_left \<Longrightarrow> v_goal v = 1 \<or> st"
    "0 < v_pending v \<Longrightarrow> v_goal v = 0 \<and> v_pending v = 1 \<and> goal_in_hand (v_pc v) = 0 \<and> filter is_goal (waitQueue (v_handle v)) = []
       \<and> \<not> clientGoalHandle (v_handle v)"
    using assms by (auto simp: client_ok_def simp flip: length_0_conv)
  note A = this assms [unfolded client_ok_def]
  show "0 < v_pending v \<Longrightarrow> client_ok mcpy st (v\<lparr>v_pending := v_pending v - 1, v_active := v_active v + 1,
      v_handle := (v_handle v)\<lparr>clientGoalHandle := True, handlingGoal := False\<rparr>, v_goal := v_goal v + 1\<rparr>)"
    using A by (simp add: client_ok_def)
  show "0 < v_pending v \<Longrightarrow> client_ok mcpy st (v\<lparr>v_pending := v_pending v - 1,
      v_handle := (v_handle v)\<lparr>h_done := True, handlingGoal := False\<rparr>, v_goal := v_goal v + 1\<rparr>)"
    using A by (simp add: client_ok_def)
  show "0 < v_active v \<Longrightarrow> client_ok mcpy st (v\<lparr>v_active := v_active v - 1,
      v_handle := (v_handle v)\<lparr>h_done := True\<rparr>, v_result := v_result v + 1\<rparr>)"
    using A by (simp add: client_ok_def)
  show "0 < v_cancel v \<Longrightarrow> client_ok mcpy st (v\<lparr>v_cancel := v_cancel v - 1,
      v_handle := (v_handle v)\<lparr>h_done := True, handlingCancel := False\<rparr>\<rparr>)"
    using A by (simp add: client_ok_def)
  show "client_ok mcpy st (v\<lparr>v_cancel := v_cancel v - 1, v_handle := (v_handle v)\<lparr>handlingCancel := False\<rparr>\<rparr>)"
    using A by (simp add: client_ok_def)
qed

lemma goal_response_step:
  assumes inv: "ac_inv mcpy s" and st: "goal_response accepted r s = Some t"
  shows "ac_inv mcpy t \<and> evolve s t"
proof -
  have r: "r \<in> set (goal_pending s)" using st by (auto simp: goal_response_def split: if_splits)
  note rl = ac_invD(4) [OF inv r] and ok = ac_invD(3) [OF inv, OF ac_invD(4) [OF inv r]]
  let ?u = "s\<lparr>goal_pending := remove1 r (goal_pending s)\<rparr>"
  let ?w = "?u\<lparr>active := active s @ [r]\<rparr>"
  have t: "t = (if accepted then goalAccepted r ?w else goalRejected r ?u)"
    using st r by (auto simp: goal_response_def Let_def)
  have u: "on_handle r s ?u" by (intro on_frames on_handle_refl)
  have "on_handle r s ?w" using on_handle_frames(6) [OF u] by simp
  then have on: "on_handle r s t" using u by (simp add: t on_frames)
  have vu: "view r ?u = (view r s)\<lparr>v_pending := v_pending (view r s) - 1\<rparr>" by (rule view_simps)
  have vw: "view r ?w = (view r s)\<lparr>v_pending := v_pending (view r s) - 1, v_active := v_active (view r s) + 1\<rparr>"
    using view_simps(5) [of r ?u] vu by simp
  have "0 < v_pending (view r s)" using r by (simp add: view_sel)
  then have "client_ok mcpy (p_stopping t) (view r t)"
    using client_ok_changes(1,2) [OF ok] rl by (simp add: t callbacks_view vu vw)
  from on_handle_step [OF inv on rl this] show ?thesis .
qed

lemma goal_feedback_step:
  assumes inv: "ac_inv mcpy s" and st: "goal_feedback data r s = Some t"
  shows "ac_inv mcpy t \<and> evolve s t"
proof -
  have r: "r \<in> set (active s)" and t: "t = feedback data r s"
    using st by (auto simp: goal_feedback_def split: if_splits)
  note rl = ac_invD(5) [OF inv r] and ok = ac_invD(3) [OF inv, OF ac_invD(5) [OF inv r]]
  have "on_handle r s t" using on_handle_refl by (simp add: t on_frames)
  from on_handle_step [OF inv this rl] show ?thesis using ok rl by (simp add: t callbacks_view)
qed

lemma goal_result_step:
  assumes inv: "ac_inv mcpy s" and st: "goal_result code data r s = Some t"
  shows "ac_inv mcpy t \<and> evolve s t"
proof -
  have r: "r \<in> set (active s)" using st by (auto simp: goal_result_def split: if_splits)
  note rl = ac_invD(5) [OF inv r] and ok = ac_invD(3) [OF inv, OF ac_invD(5) [OF inv r]]
  let ?u = "s\<lparr>active := remove1 r (active s)\<rparr>"
  have t: "t = (case code of Succeeded \<Rightarrow> resultSucceeded data r ?u | Canceled \<Rightarrow> resultCanceled data r ?u
      | Aborted \<Rightarrow> resultAborted data r ?u)"
    using st r by (auto simp: goal_result_def Let_def)
  have "on_handle r s ?u" by (intro on_frames on_handle_refl)
  then have on: "on_handle r s t" by (simp add: t on_frames split: result_code.split)
  have vu: "view r ?u = (view r s)\<lparr>v_active := v_active (view r s) - 1\<rparr>" by (rule view_simps)
  have "0 < v_active (view r s)" using r by (simp add: view_sel)
  then have "client_ok mcpy (p_stopping t) (view r t)"
    using client_ok_changes(3) [OF ok] rl by (simp add: t callbacks_view vu split: result_code.split)
  from on_handle_step [OF inv on rl this] show ?thesis .
qed

lemma cancel_response_step:
  assumes inv: "ac_inv mcpy s" and st: "cancel_response accepted r s = Some t"
  shows "ac_inv mcpy t \<and> evolve s t"
proof -
  have r: "r \<in> set (cancel_pending s)" using st by (auto simp: cancel_response_def split: if_splits)
  note rl = ac_invD(6) [OF inv r] and ok = ac_invD(3) [OF inv, OF ac_invD(6) [OF inv r]]
  let ?u = "s\<lparr>cancel_pending := remove1 r (cancel_pending s)\<rparr>"
  have t: "t = (if accepted then cancelAccepted r ?u else cancelRejected r ?u)"
    using st r by (auto simp: cancel_response_def Let_def)
  have "on_handle r s ?u" by (intro on_frames on_handle_refl)
  then have on: "on_handle r s t" by (simp add: t on_frames)
  have vu: "view r ?u = (view r s)\<lparr>v_cancel := v_cancel (view r s) - 1\<rparr>" by (rule view_simps)
  have "0 < v_cancel (view r s)" using r by (simp add: view_sel)
  then have "client_ok mcpy (p_stopping t) (view r t)"
    using client_ok_changes(4,5) [OF ok] rl by (simp add: t callbacks_view vu)
  from on_handle_step [OF inv on rl this] show ?thesis .
qed

text \<open>The changes that the thread of a handle makes.\<close>

lemma client_ok_thread:
  assumes ok: "client_ok mcpy st v"
  shows "goal_in_hand pc \<le> goal_in_hand (v_pc v) \<Longrightarrow> (\<And>m. pc_message pc = Some m \<Longrightarrow> sa_wf_for mcpy m) \<Longrightarrow>
      (pc = A_left \<Longrightarrow> st \<or> h_done (v_handle v)) \<Longrightarrow> client_ok mcpy st (v\<lparr>v_pc := pc\<rparr>)"
    "waitQueue h = waitQueue (v_handle v) \<Longrightarrow> h_done h = h_done (v_handle v) \<Longrightarrow>
      clientGoalHandle h = clientGoalHandle (v_handle v) \<Longrightarrow> client_ok mcpy st (v\<lparr>v_handle := h\<rparr>)"
    "v_pc v = A_wait \<Longrightarrow> waitQueue (v_handle v) = m # ms \<Longrightarrow>
      client_ok mcpy st (v\<lparr>v_handle := (v_handle v)\<lparr>waitQueue := ms\<rparr>, v_pc := A_handling m\<rparr>)"
    "v_pc v = A_handling m \<Longrightarrow> \<not> is_goal m \<Longrightarrow>
      client_ok mcpy st (v\<lparr>v_handle := (v_handle v)\<lparr>waitQueue := waitQueue (v_handle v) @ [m]\<rparr>, v_pc := A_loop\<rparr>)"
    "goal_in_hand (v_pc v) = 1 \<Longrightarrow> client_ok mcpy st (v\<lparr>v_goal := v_goal v + 1,
      v_handle := (v_handle v)\<lparr>handlingGoal := False, h_done := True\<rparr>, v_pc := A_loop\<rparr>)"
    "st \<Longrightarrow> client_ok mcpy st (v\<lparr>v_handle := (v_handle v)\<lparr>handlingGoal := False, h_done := True\<rparr>, v_pc := A_loop\<rparr>)"
    "v_pc v = A_send m \<Longrightarrow> client_ok mcpy st (v\<lparr>v_pending := v_pending v + 1, v_pc := A_loop\<rparr>)"
    "clientGoalHandle (v_handle v) \<Longrightarrow> client_ok mcpy st (v\<lparr>v_cancel := v_cancel v + 1\<rparr>)"
proof -
  have S: "v_goal v + v_pending v + goal_in_hand (v_pc v) + length (filter is_goal (waitQueue (v_handle v))) \<le> 1"
    "v_result v + v_active v \<le> v_goal v"
    using ok by (auto simp: client_ok_def)
  have wf: "list_all (sa_wf_for mcpy) (waitQueue (v_handle v))" "\<And>m. pc_message (v_pc v) = Some m \<Longrightarrow> sa_wf_for mcpy m"
    using ok by (auto simp: client_ok_def)
  have B: "h_done (v_handle v) \<Longrightarrow> v_goal v = 1 \<or> st" "v_pc v = A_left \<Longrightarrow> v_goal v = 1 \<or> st"
    "clientGoalHandle (v_handle v) \<Longrightarrow> v_goal v = 1" "0 < v_cancel v \<Longrightarrow> clientGoalHandle (v_handle v)"
    using ok by (auto simp: client_ok_def)
  have G: "goal_in_hand (v_pc v) = 1 \<Longrightarrow> v_goal v = 0 \<and> v_pending v = 0 \<and> v_result v = 0 \<and> v_active v = 0
      \<and> filter is_goal (waitQueue (v_handle v)) = []"
    using S by (auto simp flip: length_0_conv)
  show "goal_in_hand pc \<le> goal_in_hand (v_pc v) \<Longrightarrow> (\<And>m. pc_message pc = Some m \<Longrightarrow> sa_wf_for mcpy m) \<Longrightarrow>
      (pc = A_left \<Longrightarrow> st \<or> h_done (v_handle v)) \<Longrightarrow> client_ok mcpy st (v\<lparr>v_pc := pc\<rparr>)"
    unfolding client_ok_def using S wf B by simp blast
  show "waitQueue h = waitQueue (v_handle v) \<Longrightarrow> h_done h = h_done (v_handle v) \<Longrightarrow>
      clientGoalHandle h = clientGoalHandle (v_handle v) \<Longrightarrow> client_ok mcpy st (v\<lparr>v_handle := h\<rparr>)"
    using ok by (simp add: client_ok_def)
  show "v_pc v = A_wait \<Longrightarrow> waitQueue (v_handle v) = m # ms \<Longrightarrow>
      client_ok mcpy st (v\<lparr>v_handle := (v_handle v)\<lparr>waitQueue := ms\<rparr>, v_pc := A_handling m\<rparr>)"
    using ok by (simp add: client_ok_def split: if_splits)
  show "v_pc v = A_handling m \<Longrightarrow> \<not> is_goal m \<Longrightarrow>
      client_ok mcpy st (v\<lparr>v_handle := (v_handle v)\<lparr>waitQueue := waitQueue (v_handle v) @ [m]\<rparr>, v_pc := A_loop\<rparr>)"
    using ok by (simp add: client_ok_def)
  show "goal_in_hand (v_pc v) = 1 \<Longrightarrow> client_ok mcpy st (v\<lparr>v_goal := v_goal v + 1,
      v_handle := (v_handle v)\<lparr>handlingGoal := False, h_done := True\<rparr>, v_pc := A_loop\<rparr>)"
    using G wf B(3,4) by (simp add: client_ok_def)
  show "st \<Longrightarrow> client_ok mcpy st (v\<lparr>v_handle := (v_handle v)\<lparr>handlingGoal := False, h_done := True\<rparr>, v_pc := A_loop\<rparr>)"
    using ok by (simp add: client_ok_def)
  show "v_pc v = A_send m \<Longrightarrow> client_ok mcpy st (v\<lparr>v_pending := v_pending v + 1, v_pc := A_loop\<rparr>)"
    using ok by (auto simp: client_ok_def)
  show "clientGoalHandle (v_handle v) \<Longrightarrow> client_ok mcpy st (v\<lparr>v_cancel := v_cancel v + 1\<rparr>)"
    using ok by (auto simp: client_ok_def)
qed

lemma thread_facts:
  assumes "ac_inv mcpy s" and "thread_of r s = Some pc"
  shows "r < length (heap s)" "r < length (threads s)" "v_pc (view r s) = pc" "client_ok mcpy (p_stopping s) (view r s)"
  using assms ac_invD(2,3) [OF assms(1)] by (auto simp: thread_of_Some view_def)

lemma set_thread_step:
  assumes inv: "ac_inv mcpy s" and r: "thread_of r s = Some pc0" and "goal_in_hand pc \<le> goal_in_hand pc0"
    and "\<And>m. pc_message pc = Some m \<Longrightarrow> sa_wf_for mcpy m" and "pc = A_left \<Longrightarrow> p_stopping s \<or> h_done (heap s ! r)"
  shows "ac_inv mcpy (set_thread r pc s) \<and> evolve s (set_thread r pc s)"
proof -
  note F = thread_facts [OF inv r]
  have "client_ok mcpy (p_stopping s) (view r (set_thread r pc s))"
    using client_ok_thread(1) [OF F(4), of pc] assms(3-5) F by (simp add: view_simps view_sel)
  then show ?thesis
    using on_handle_step [OF inv on_handle_frames(1) [OF on_handle_refl] F(1)] by simp
qed

lemma executeCancel_on [on_frames]: "on_handle r s t \<Longrightarrow> on_handle r s (executeCancel r t)"
  using on_handle_frames(7) [OF on_handle_frames(3), of r s t "\<lambda>h. h\<lparr>handlingCancel := True\<rparr>"]
    on_handle_frames(3) [of r s t "\<lambda>h. h\<lparr>handlingCancel := True\<rparr>"]
  by (simp add: executeCancel_def Let_def)

lemma executeCancel_simps [simp]:
  "length (heap (executeCancel r s)) = length (heap s)" "threads (executeCancel r s) = threads s"
  "p_stopping (executeCancel r s) = p_stopping s"
  by (simp_all add: executeCancel_def Let_def)

lemma executeCancel_ok:
  assumes ok: "client_ok mcpy st (view r s)" and r: "r < length (heap s)"
  shows "client_ok mcpy st (view r (executeCancel r s))" "v_pc (view r (executeCancel r s)) = v_pc (view r s)"
proof -
  let ?s = "upd r (\<lambda>h. h\<lparr>handlingCancel := True\<rparr>) s"
  have v: "view r ?s = (view r s)\<lparr>v_handle := (v_handle (view r s))\<lparr>handlingCancel := True\<rparr>\<rparr>"
    by (rule view_upd [OF r])
  have ok': "client_ok mcpy st (view r ?s)" unfolding v by (rule client_ok_thread(2) [OF ok]) simp_all
  have cpc: "view r (?s\<lparr>cancel_pending := cancel_pending ?s @ [r]\<rparr>) = (view r ?s)\<lparr>v_cancel := v_cancel (view r ?s) + 1\<rparr>"
    by (rule view_simps)
  have "heap ?s ! r = v_handle (view r ?s)" by (simp add: view_def)
  then show "client_ok mcpy st (view r (executeCancel r s))"
    using client_ok_thread(8) [OF ok'] ok' cpc by (simp add: executeCancel_def Let_def)
  show "v_pc (view r (executeCancel r s)) = v_pc (view r s)"
    using v cpc by (simp add: executeCancel_def Let_def)
qed

lemma ac_loop_step:
  assumes inv: "ac_inv mcpy s" and st: "ac_loop r s = Some t"
  shows "ac_inv mcpy t \<and> evolve s t"
proof -
  have r: "thread_of r s = Some A_loop" and t: "t = set_thread r (if p_stopping s then A_left else A_wait) s"
    using st by (auto simp: ac_loop_def split: option.splits thread_pc.splits)
  show ?thesis unfolding t by (rule set_thread_step [OF inv r]) (auto split: if_splits)
qed

lemma thread_leave_step:
  assumes inv: "ac_inv mcpy s" and on: "on_handle r s t" and r: "r < length (heap s)"
    and ok: "client_ok mcpy (p_stopping t) (view r t)" and "p_stopping t \<or> h_done (heap t ! r)"
  shows "ac_inv mcpy (thread_leave r t) \<and> evolve s (thread_leave r t)"
proof -
  have len: "length (heap t) = length (heap s)" "length (threads t) = length (heap s)"
    using on ac_invD(2) [OF inv] by (simp_all add: on_handle_def)
  have "on_handle r s (thread_leave r t)" using on r len by (simp add: thread_leave_def on_frames)
  moreover have "client_ok mcpy (p_stopping t) (view r (thread_leave r t))"
    using client_ok_thread(1) [OF ok, of A_left] assms(5) r len
    by (simp add: thread_leave_def view_simps view_sel)
  ultimately show ?thesis using on_handle_step [OF inv _ r] by (simp add: thread_leave_def)
qed

lemma ac_wake_step:
  assumes inv: "ac_inv mcpy s" and st: "ac_wake r s = Some t"
  shows "ac_inv mcpy t \<and> evolve s t"
proof -
  have r: "thread_of r s = Some A_wait" using st by (auto simp: ac_wake_def split: option.splits thread_pc.splits)
  note F = thread_facts [OF inv r]
  consider (stop) "p_stopping s" "t = thread_leave r (executeCancel r s)"
    | (ready) "h_done (heap s ! r)" "t = thread_leave r s"
    | (take) m ms where "waitQueue (heap s ! r) = m # ms"
        "t = set_thread r (A_handling m) (upd r (\<lambda>h. h\<lparr>waitQueue := ms\<rparr>) s)"
    using st r by (auto simp: ac_wake_def split: if_splits list.splits)
  then show ?thesis
  proof cases
    case stop
    then show ?thesis
      using thread_leave_step [OF inv executeCancel_on [OF on_handle_refl] F(1)] executeCancel_ok(1) [OF F(4,1)] by simp
  next
    case ready
    then show ?thesis using thread_leave_step [OF inv on_handle_refl F(1,4)] by simp
  next
    case take
    have "view r t = (view r s)\<lparr>v_handle := (v_handle (view r s))\<lparr>waitQueue := ms\<rparr>, v_pc := A_handling m\<rparr>"
      using F(1,2) by (simp add: take(2) view_simps view_upd)
    moreover have "on_handle r s t" using on_handle_refl by (simp add: take(2) on_frames)
    ultimately show ?thesis
      using on_handle_step [OF inv _ F(1)] client_ok_thread(3) [OF F(4,3), of m ms] take by (simp add: view_sel)
  qed
qed

lemma refuse_goal_step:
  assumes inv: "ac_inv mcpy s" and on: "on_handle r s t" and r: "r < length (heap s)"
    and ok: "client_ok mcpy (p_stopping t) (view r t)" and hand: "goal_in_hand (v_pc (view r t)) = 1"
  shows "ac_inv mcpy (refuse_goal r t) \<and> evolve s (refuse_goal r t)"
proof -
  have len: "length (heap t) = length (heap s)" "length (threads t) = length (heap s)"
    using on ac_invD(2) [OF inv] by (simp_all add: on_handle_def)
  have "view r (refuse_goal r t) = (view r t)\<lparr>v_goal := v_goal (view r t) + 1,
      v_handle := (v_handle (view r t))\<lparr>handlingGoal := False, h_done := True\<rparr>, v_pc := A_loop\<rparr>"
    using r len by (simp add: refuse_goal_def view_simps view_upd ac_codes)
  moreover have "on_handle r s (refuse_goal r t)" using on by (simp add: refuse_goal_def on_frames)
  ultimately show ?thesis
    using on_handle_step [OF inv _ r] client_ok_thread(5) [OF ok hand] by (simp add: refuse_goal_def)
qed

lemma goal_read_step:
  assumes inv: "ac_inv mcpy s" and r: "thread_of r s = Some (A_handling m)" and g: "is_goal m"
    and st: "goal_read mcpy c m r s = Some t"
  shows "ac_inv mcpy t \<and> evolve s t"
proof -
  note F = thread_facts [OF inv r]
  let ?s = "upd r (\<lambda>h. h\<lparr>handlingGoal := True\<rparr>) s"
  have v: "view r ?s = (view r s)\<lparr>v_handle := (v_handle (view r s))\<lparr>handlingGoal := True\<rparr>\<rparr>" by (rule view_upd [OF F(1)])
  have on: "on_handle r s ?s" using on_handle_refl by (simp add: on_frames)
  have ok: "client_ok mcpy (p_stopping ?s) (view r ?s)"
    unfolding v upd_simps by (rule client_ok_thread(2) [OF F(4)]) simp_all
  have hand: "goal_in_hand (v_pc (view r ?s)) = 1" using F(3) g by (simp add: v)
  have "sa_wf_for mcpy m" using F(3,4) by (simp add: client_ok_def)
  then obtain b m' d where u: "unpack mcpy c m = Some (b, m')" "sa_wf_for mcpy m'" "getData m' = Some d"
    using unpack_spec [of mcpy m c] by blast
  consider "t = refuse_goal r ?s" | "t = set_thread r (A_await m') ?s"
    using st u by (auto simp: goal_read_def Let_def split: if_splits)
  then show ?thesis
  proof cases
    case 1
    then show ?thesis using refuse_goal_step [OF inv on F(1) ok hand] by simp
  next
    case 2
    have "client_ok mcpy (p_stopping t) (view r t)"
      using client_ok_thread(1) [OF ok, of "A_await m'"] hand u(2) F(2) by (simp add: 2 view_simps)
    moreover have "on_handle r s t" using on by (simp add: 2 on_frames)
    ultimately show ?thesis using on_handle_step [OF inv _ F(1)] by blast
  qed
qed

lemma ac_process_step:
  assumes inv: "ac_inv mcpy s" and st: "ac_process mcpy c r s = Some t"
  shows "ac_inv mcpy t \<and> evolve s t"
proof -
  obtain m where r: "thread_of r s = Some (A_handling m)"
    using st by (auto simp: ac_process_def split: option.splits thread_pc.splits)
  note F = thread_facts [OF inv r]
  let ?req = "set_thread r A_loop (upd r (\<lambda>h. h\<lparr>waitQueue := waitQueue h @ [m]\<rparr>) s)"
  have "t = set_thread r A_loop s \<or> is_goal m \<and> goal_read mcpy c m r s = Some t
      \<or> \<not> is_goal m \<and> t = ?req \<or> t = set_thread r A_loop (executeCancel r s)"
    using st unfolding ac_process_def r by (auto simp: is_goal_def Let_def split: if_splits)
  then consider (skip) "t = set_thread r A_loop s" | (goal) "is_goal m" "goal_read mcpy c m r s = Some t"
    | (requeue) "\<not> is_goal m" "t = ?req" | (cancel) "t = set_thread r A_loop (executeCancel r s)"
    by blast
  then show ?thesis
  proof cases
    case skip
    then show ?thesis using set_thread_step [OF inv r, of A_loop] by simp
  next
    case goal
    then show ?thesis using goal_read_step [OF inv r] by blast
  next
    case requeue
    have "view r t = (view r s)\<lparr>v_handle := (v_handle (view r s))\<lparr>waitQueue := waitQueue (v_handle (view r s)) @ [m]\<rparr>, v_pc := A_loop\<rparr>"
      using F(1,2) by (simp add: requeue(2) view_simps view_upd)
    moreover have "on_handle r s t" using on_handle_refl by (simp add: requeue(2) on_frames)
    ultimately show ?thesis
      using on_handle_step [OF inv _ F(1)] client_ok_thread(4) [OF F(4,3) requeue(1)] requeue(2) by simp
  next
    case cancel
    have "client_ok mcpy (p_stopping t) (view r t)"
      using client_ok_thread(1) [OF executeCancel_ok(1) [OF F(4,1)], of A_loop] F(2) by (simp add: cancel view_simps)
    moreover have "on_handle r s t" using on_handle_refl by (simp add: cancel on_frames)
    ultimately show ?thesis using on_handle_step [OF inv _ F(1)] by blast
  qed
qed

lemma ac_await_step:
  assumes inv: "ac_inv mcpy s" and st: "ac_await avail r s = Some t"
  shows "ac_inv mcpy t \<and> evolve s t"
proof -
  obtain m where r: "thread_of r s = Some (A_await m)" and t: "t = (if avail then set_thread r (A_check m) s else refuse_goal r s)"
    using st by (auto simp: ac_await_def split: option.splits thread_pc.splits)
  note F = thread_facts [OF inv r]
  have "sa_wf_for mcpy m" using F(3,4) by (simp add: client_ok_def)
  then show ?thesis
    using set_thread_step [OF inv r, of "A_check m"] refuse_goal_step [OF inv on_handle_refl F(1,4)] F(3) by (simp add: t)
qed

lemma ac_check_step:
  assumes inv: "ac_inv mcpy s" and st: "ac_check r s = Some t"
  shows "ac_inv mcpy t \<and> evolve s t"
proof -
  obtain m where r: "thread_of r s = Some (A_check m)" and t: "t = (if p_stopping s
      then set_thread r A_loop (upd r (\<lambda>h. h\<lparr>handlingGoal := False, h_done := True\<rparr>) s) else set_thread r (A_send m) s)"
    using st by (auto simp: ac_check_def split: option.splits thread_pc.splits)
  note F = thread_facts [OF inv r]
  have m: "sa_wf_for mcpy m" using F(3,4) by (simp add: client_ok_def)
  show ?thesis
  proof (cases "p_stopping s")
    case True
    have "view r t = (view r s)\<lparr>v_handle := (v_handle (view r s))\<lparr>handlingGoal := False, h_done := True\<rparr>, v_pc := A_loop\<rparr>"
      using F(1,2) True by (simp add: t view_simps view_upd)
    moreover have "on_handle r s t" using on_handle_refl by (simp add: t True on_frames)
    ultimately show ?thesis
      using on_handle_step [OF inv _ F(1)] client_ok_thread(6) [OF F(4)] True by (simp add: t)
  next
    case False
    then show ?thesis using set_thread_step [OF inv r, of "A_send m"] m by (simp add: t)
  qed
qed

lemma ac_send_goal_step:
  assumes inv: "ac_inv mcpy s" and st: "ac_send_goal r s = Some t"
  shows "ac_inv mcpy t \<and> evolve s t"
proof -
  let ?u = "s\<lparr>goal_pending := goal_pending s @ [r]\<rparr>"
  obtain m where r: "thread_of r s = Some (A_send m)" and t: "t = set_thread r A_loop ?u"
    using st by (auto simp: ac_send_goal_def split: option.splits thread_pc.splits)
  note F = thread_facts [OF inv r]
  have v: "view r ?u = (view r s)\<lparr>v_pending := v_pending (view r s) + 1\<rparr>" by (rule view_simps)
  have "on_handle r s ?u" by (intro on_handle_frames(5) on_handle_refl)
  then have on: "on_handle r s t" unfolding t by (rule on_frames)
  have "view r t = (view r ?u)\<lparr>v_pc := A_loop\<rparr>" unfolding t by (rule view_simps) (use F(2) in simp)
  then have "client_ok mcpy (p_stopping t) (view r t)" using client_ok_thread(7) [OF F(4,3)] v by (simp add: t)
  then show ?thesis using on_handle_step [OF inv on F(1)] by blast
qed

text \<open>The operations that leave the view of every handle alone.\<close>

lemma ac_inv_quiet:
  assumes inv: "ac_inv mcpy s" and ev: "evolve s t" and same: "length (heap t) = length (heap s)" "threads t = threads s"
      "goal_pending t = goal_pending s" "active t = active s" "cancel_pending t = cancel_pending s"
    and views: "\<And>r. r < length (heap s) \<Longrightarrow> view r t = view r s"
    and sent: "\<And>e. e \<in> set (sent t) \<Longrightarrow> e \<in> set (sent s) \<or> fst e = None"
  shows "ac_inv mcpy t \<and> evolve s t"
proof -
  note D = ac_invD [OF inv]
  have "client_ok mcpy (p_stopping t) (view q t)" if "q < length (heap t)" for q
    using D(3) [of q] that views [of q] ev client_ok_stop [of mcpy "p_stopping s" "view q s" "p_stopping t"] same(1)
    by (auto simp: evolve_def)
  moreover have "fst e = Some r \<Longrightarrow> r < length (heap s)" if "e \<in> set (sent t)" for e r
    using sent [OF that] D(7) [of e r] by auto
  moreover have "set (goal_pending s) \<union> set (active s) \<union> set (cancel_pending s) \<subseteq> {..< length (heap s)}"
    using inv by (simp add: ac_inv_def)
  ultimately show ?thesis using evolve_wf [OF ev D(1)] D(2) ev by (simp add: ac_inv_def same)
qed

lemma ac_removal:
  "executeRemove ended (s :: action_client) = Some t \<Longrightarrow> threads t = threads s \<and> goal_pending t = goal_pending s
     \<and> active t = active s \<and> cancel_pending t = cancel_pending s"
  "stop_join ended (s :: action_client) = Some t \<Longrightarrow> threads t = threads s \<and> goal_pending t = goal_pending s
     \<and> active t = active s \<and> cancel_pending t = cancel_pending s"
  by (auto simp: executeRemove_def stop_join_def split: if_splits list.splits prod.splits)

lemma ac_removal_step:
  assumes "ac_inv mcpy s"
  shows "executeRemove ended s = Some t \<Longrightarrow> ac_inv mcpy t \<and> evolve s t"
    "stop_join ended s = Some t \<Longrightarrow> ac_inv mcpy t \<and> evolve s t"
proof -
  have *: "ac_inv mcpy t \<and> evolve s t"
    if "evolve s t" and "heap t = heap s \<and> sent t = sent s \<and> p_stopping t = p_stopping s"
      and "threads t = threads s \<and> goal_pending t = goal_pending s \<and> active t = active s \<and> cancel_pending t = cancel_pending s"
    using that by (intro ac_inv_quiet [OF assms]) (simp_all add: view_def sent_for_def)
  show "executeRemove ended s = Some t \<Longrightarrow> ac_inv mcpy t \<and> evolve s t"
    by (rule * [OF evolve_executeRemove removal_frame(1) ac_removal(1)])
  show "stop_join ended s = Some t \<Longrightarrow> ac_inv mcpy t \<and> evolve s t"
    by (rule * [OF evolve_stop_join removal_frame(2) ac_removal(2)])
qed

text \<open>A goal of the peer: its handle starts with the goal in the queue.\<close>

lemma new_goal_step:
  assumes inv: "ac_inv mcpy s" and m: "sa_wf_for mcpy m" "is_goal m"
    and t: "t = (register ((new_handle gid 0)\<lparr>waitQueue := [m]\<rparr>) s)\<lparr>threads := threads s @ [A_loop]\<rparr>"
  shows "ac_inv mcpy t \<and> evolve s t"
proof -
  note D = ac_invD [OF inv]
  let ?n = "length (heap s)"
  have ev: "evolve s t" unfolding t by (intro evolves)
  have f: "heap t = heap s @ [(new_handle gid 0)\<lparr>waitQueue := [m]\<rparr>]" "threads t = threads s @ [A_loop]"
    "sent t = sent s" "goal_pending t = goal_pending s" "active t = active s" "cancel_pending t = cancel_pending s"
    "p_stopping t = p_stopping s"
    by (simp_all add: t)
  have "client_ok mcpy (p_stopping t) (view r t)" if "r < length (heap t)" for r
  proof (cases "r < ?n")
    case True
    then have "view r t = view r s" using D(2) by (simp add: view_def f nth_append sent_for_def)
    then show ?thesis using D(3) True f by simp
  next
    case False
    then have r: "r = ?n" using that by (simp add: f)
    have nil: "?n \<notin> set (goal_pending s)" "?n \<notin> set (active s)" "?n \<notin> set (cancel_pending s)"
      using D(4) [of ?n] D(5) [of ?n] D(6) [of ?n] by auto
    have "sent_for ops ?n s = 0" for ops using D(7) by (force simp: sent_for_def filter_empty_conv)
    then have "sent_for ops ?n t = 0" for ops by (simp add: sent_for_def f)
    with nil m show ?thesis
      using D(2) by (simp add: r view_def f nth_append client_ok_def)
  qed
  moreover have "set (goal_pending s) \<union> set (active s) \<union> set (cancel_pending s) \<subseteq> {..< Suc ?n}"
    using inv by (auto simp: ac_inv_def)
  moreover have "\<And>e r. e \<in> set (sent s) \<Longrightarrow> fst e = Some r \<Longrightarrow> r < Suc ?n" using D(7) less_SucI by blast
  ultimately show ?thesis
    using evolve_wf [OF ev D(1)] D(2) ev by (simp add: ac_inv_def f)
qed

lemma new_cancel_step:
  assumes inv: "ac_inv mcpy s" and m: "sa_wf_for mcpy m" "\<not> is_goal m" and r: "lookup gid s = Some r"
    and t: "t = upd r (\<lambda>h. h\<lparr>waitQueue := waitQueue h @ [m]\<rparr>) s"
  shows "ac_inv mcpy t \<and> evolve s t"
proof -
  have rl: "r < length (heap s)" using lookup_valid [OF ac_invD(1) [OF inv] r] by simp
  have "on_handle r s t" unfolding t by (intro on_handle_frames(3) on_handle_refl) simp
  moreover have "client_ok mcpy (p_stopping t) (view r t)"
    using ac_invD(3) [OF inv rl] m by (simp add: t view_upd [OF rl] client_ok_def)
  ultimately show ?thesis using on_handle_step [OF inv _ rl] by blast
qed

lemma ac_handle_step:
  assumes inv: "ac_inv mcpy s" and m: "sa_wf_for mcpy m" and st: "ac_handle m s = Some t"
  shows "ac_inv mcpy t \<and> evolve s t"
proof -
  obtain gid where gid: "getGID m = Some gid" using st by (auto simp: ac_handle_def bind_eq_Some_conv)
  let ?push = "\<lambda>r. upd r (\<lambda>h. h\<lparr>waitQueue := waitQueue h @ [m]\<rparr>) s"
  have "t = s \<or> t = p_send None ACTION_TO_SERVER_GOAL_REJECT [] gid s
      \<or> is_goal m \<and> t = (register ((new_handle gid 0)\<lparr>waitQueue := [m]\<rparr>) s)\<lparr>threads := threads s @ [A_loop]\<rparr>
      \<or> \<not> is_goal m \<and> (\<exists>r. lookup gid s = Some r \<and> t = ?push r)"
    using st unfolding ac_handle_def gid getGIDString_eq
    by (cases "lookup gid s")
      (simp_all add: lookup_def is_goal_def isServiceActionOpCode_def Let_def split: if_splits)
  then show ?thesis
  proof (elim disjE conjE exE)
    assume "t = s"
    then show ?thesis using inv evolve_refl by blast
  next
    assume "t = p_send None ACTION_TO_SERVER_GOAL_REJECT [] gid s"
    then show ?thesis
      by (intro ac_inv_quiet [OF inv]) (auto simp: view_def sent_for_def intro: evolves)
  next
    assume "is_goal m" "t = (register ((new_handle gid 0)\<lparr>waitQueue := [m]\<rparr>) s)\<lparr>threads := threads s @ [A_loop]\<rparr>"
    then show ?thesis by (rule new_goal_step [OF inv m])
  next
    fix r
    assume "\<not> is_goal m" "lookup gid s = Some r" "t = ?push r"
    then show ?thesis by (rule new_cancel_step [OF inv m])
  qed
qed

lemma ac_step_ok:
  assumes ok: "copy_ok mcpy" and st: "ac_step mcpy c s t" and inv: "ac_inv mcpy s"
  shows "ac_inv mcpy t \<and> evolve s t"
  using st inv
proof (induction rule: ac_step.induct)
  case (receive x m s t)
  then show ?case
    using ac_handle_step [OF _ sa_wf_for_copy_ok [OF ok fromMessage_wf [OF receive(1)]]] by blast
next
  case (stop s)
  then show ?case
    by (intro ac_inv_quiet) (auto simp: view_def sent_for_def intro: evolves)
qed (rule ac_loop_step ac_wake_step ac_process_step ac_await_step ac_check_step ac_send_goal_step
    goal_response_step goal_feedback_step goal_result_step cancel_response_step ac_removal_step; assumption)+

lemma ac_inv_init: "ac_inv mcpy (action_client_init d n dyn)"
  by (simp add: ac_inv_def action_client_init_def plugin_state.extend_def plugin_init_def plugin_wf_def map_ok_def)

interpretation acp: handle_plugin "ac_step mcpy c" "\<lambda>s. copy_ok mcpy \<and> ac_inv mcpy s" for mcpy c
  by unfold_locales (auto dest: ac_step_ok ac_invD(1))

lemma ac_reachable_inv:
  "(ac_step mcpy c)\<^sup>*\<^sup>* (action_client_init d n dyn) s \<Longrightarrow> copy_ok mcpy \<Longrightarrow> ac_inv mcpy s"
  using acp.reach_inv [of mcpy c "action_client_init d n dyn" s] ac_inv_init by blast

section \<open>Answers\<close>

lemma ac_answers:
  assumes inv: "ac_inv mcpy s" and r: "r < length (heap s)"
  shows "sent_for goal_codes r s \<le> 1 \<and> sent_for client_result_codes r s \<le> sent_for goal_codes r s
     \<and> (thread_of r s = Some A_left \<longrightarrow> sent_for goal_codes r s = 1 \<or> p_stopping s)"
  using ac_invD(3) [OF inv r] by (auto simp: client_ok_def view_def thread_of_Some)

section \<open>Stopping\<close>

text \<open>The next step of the thread of a handle, and how far it is from its end once the plugin stops.\<close>

definition ac_own :: "copy_fun \<Rightarrow> codecs \<Rightarrow> bool \<Rightarrow> nat \<Rightarrow> action_client \<Rightarrow> action_client option" where
  "ac_own mcpy c avail r s =
     (case thread_of r s of
        Some A_loop \<Rightarrow> ac_loop r s
      | Some A_wait \<Rightarrow> ac_wake r s
      | Some (A_handling m) \<Rightarrow> ac_process mcpy c r s
      | Some (A_await m) \<Rightarrow> ac_await avail r s
      | Some (A_check m) \<Rightarrow> ac_check r s
      | Some (A_send m) \<Rightarrow> ac_send_goal r s
      | _ \<Rightarrow> Some s)"

fun ac_rank :: "thread_pc \<Rightarrow> nat" where
  "ac_rank A_loop = 1"
| "ac_rank A_wait = 1"
| "ac_rank (A_handling m) = 4"
| "ac_rank (A_await m) = 3"
| "ac_rank (A_check m) = 2"
| "ac_rank (A_send m) = 2"
| "ac_rank A_left = 0"

primrec ac_run :: "copy_fun \<Rightarrow> codecs \<Rightarrow> bool \<Rightarrow> nat \<Rightarrow> nat \<Rightarrow> action_client \<Rightarrow> action_client option" where
  "ac_run mcpy c avail 0 r s = Some s"
| "ac_run mcpy c avail (Suc n) r s = ac_own mcpy c avail r s \<bind> ac_run mcpy c avail n r"

lemma ac_own_inv: "ac_inv mcpy s \<Longrightarrow> ac_own mcpy c avail r s = Some t \<Longrightarrow> ac_inv mcpy t"
  by (auto simp: ac_own_def split: option.splits thread_pc.splits
      dest: ac_loop_step ac_wake_step ac_process_step ac_await_step ac_check_step ac_send_goal_step)

lemma refuse_goal_simps [simp]:
  "threads (refuse_goal r s) = (threads s)[r := A_loop]" "p_stopping (refuse_goal r s) = p_stopping s"
  by (simp_all add: refuse_goal_def)

lemma ac_process_defined:
  assumes inv: "ac_inv mcpy s" and r: "thread_of r s = Some (A_handling m)"
  shows "\<exists>t. ac_process mcpy c r s = Some t \<and> p_stopping t = p_stopping s
    \<and> (thread_of r t = Some A_loop \<or> (\<exists>m'. thread_of r t = Some (A_await m')))"
proof -
  note F = thread_facts [OF inv r]
  have "sa_wf_for mcpy m" using F(3,4) by (simp add: client_ok_def)
  then obtain b m' d where u: "unpack mcpy c m = Some (b, m')" "getData m' = Some d"
    using unpack_spec [of mcpy m c] by blast
  have goal: "\<exists>t. goal_read mcpy c m r s = Some t \<and> p_stopping t = p_stopping s
    \<and> (thread_of r t = Some A_loop \<or> (\<exists>m'. thread_of r t = Some (A_await m')))"
    using u F(2) by (auto simp: goal_read_def Let_def thread_of_def)
  have go: "thread_of r (set_thread r A_loop t) = Some A_loop" if "threads t = threads s" for t
    using F(2) that by (simp add: thread_of_def)
  show ?thesis
    unfolding ac_process_def r Let_def using goal by (simp add: go)
qed

lemma ac_own_stopping:
  assumes inv: "ac_inv mcpy s" and stop: "p_stopping s" and pc: "thread_of r s = Some pc"
  shows "\<exists>t pc'. ac_own mcpy c avail r s = Some t \<and> p_stopping t \<and> ac_inv mcpy t \<and> thread_of r t = Some pc'
     \<and> ac_rank pc' \<le> ac_rank pc - 1"
proof -
  note F = thread_facts [OF inv pc]
  have "\<exists>t pc'. ac_own mcpy c avail r s = Some t \<and> p_stopping t \<and> thread_of r t = Some pc' \<and> ac_rank pc' \<le> ac_rank pc - 1"
  proof (cases pc)
    case (A_handling m)
    from ac_process_defined [OF inv pc [unfolded A_handling], of c] obtain t where
      t: "ac_process mcpy c r s = Some t" "p_stopping t = p_stopping s"
        "thread_of r t = Some A_loop \<or> (\<exists>m'. thread_of r t = Some (A_await m'))"
      by blast
    then show ?thesis using pc stop by (auto simp: ac_own_def A_handling)
  qed (use pc stop F(2) in \<open>auto simp: ac_own_def ac_loop_def ac_wake_def ac_await_def ac_check_def ac_send_goal_def
      thread_leave_def thread_of_def\<close>)
  then show ?thesis using ac_own_inv [OF inv] by blast
qed

lemma ac_stops:
  assumes "ac_inv mcpy s" and "p_stopping s" and "thread_of r s = Some pc" and "ac_rank pc \<le> n"
  shows "\<exists>t. ac_run mcpy c avail n r s = Some t \<and> thread_of r t = Some A_left"
  using assms
proof (induction n arbitrary: s pc)
  case 0
  then have "pc = A_left" by (cases pc) simp_all
  then show ?case using 0 by simp
next
  case (Suc n)
  from ac_own_stopping [OF Suc.prems(1-3), of c avail] obtain t pc' where
    t: "ac_own mcpy c avail r s = Some t" "p_stopping t" "ac_inv mcpy t" "thread_of r t = Some pc'"
      "ac_rank pc' \<le> ac_rank pc - 1"
    by blast
  then have "ac_rank pc' \<le> n" using Suc.prems(4) by simp
  from Suc.IH [OF t(3,2,4) this] show ?case by (simp add: t(1))
qed

lemma ac_rank_bound: "ac_rank pc \<le> 4"
  by (cases pc) simp_all

text \<open>
  A cancel request that arrives while the local goal has no answer yet is put back into the queue, so
  that the thread runs in a circle until the answer comes.
\<close>

lemma cancel_spins:
  assumes "thread_of r s = Some A_wait" and "\<not> p_stopping s" and "\<not> h_done (heap s ! r)" and "r < length (heap s)"
    and "waitQueue (heap s ! r) = [m]" and "sa_opcode m = ACTION_TO_CLIENT_CANCEL" and "handlingGoal (heap s ! r)"
  shows "ac_run mcpy c avail 3 r s = Some s"
proof -
  have "(heap s ! r)\<lparr>waitQueue := [m]\<rparr> = heap s ! r" using assms(5) by (cases "heap s ! r") simp
  then have heap: "(heap s)[r := (heap s ! r)\<lparr>waitQueue := [m]\<rparr>] = heap s" by simp
  have pc: "r < length (threads s)" "threads s ! r = A_wait" using assms(1) by (simp_all add: thread_of_Some)
  let ?s1 = "set_thread r (A_handling m) (upd r (\<lambda>h. h\<lparr>waitQueue := []\<rparr>) s)"
  let ?s2 = "set_thread r A_loop s"
  have 1: "ac_own mcpy c avail r s = Some ?s1" using assms by (simp add: ac_own_def ac_wake_def)
  have "ac_own mcpy c avail r ?s1 = Some (set_thread r A_loop (upd r (\<lambda>h. h\<lparr>waitQueue := waitQueue h @ [m]\<rparr>) ?s1))"
    using assms(4,6,7) pc by (simp add: ac_own_def ac_process_def thread_of_def heap_upd)
  also have "\<dots> = Some ?s2" using assms(4) by (simp add: set_thread_def upd_def heap)
  finally have 2: "ac_own mcpy c avail r ?s1 = Some ?s2" .
  have "(threads s)[r := A_wait] = threads s" using pc by (metis list_update_id)
  then have 3: "ac_own mcpy c avail r ?s2 = Some s"
    using pc assms(2) by (simp add: ac_own_def ac_loop_def thread_of_def) (simp add: set_thread_def)
  show ?thesis by (simp add: numeral_3_eq_3 1 2 3)
qed

end
