(* ===== verification/PluginFlow.thy ===== *)
theory PluginFlow
  imports ServiceServer ServiceClient ActionServer ActionClient
begin

text \<open>
  The two ends of a service and of an action together: what one plugin passes to \<open>send\<close> becomes a
  frame, which the peer parses and hands to the plugin of the same channel.
\<close>

section \<open>Frames between plugins\<close>

text \<open>\<open>m\<close> is what the peer makes of the frame of an event.\<close>

definition arrives ::
    "copy_fun \<Rightarrow> codecs \<Rightarrow> Service_Action_t \<Rightarrow> ServiceActionOpCode \<Rightarrow> bytes \<Rightarrow> bytes \<Rightarrow> sa_message \<Rightarrow> bool" where
  "arrives mcpy c d sop data gid m \<longleftrightarrow>
     (\<exists>frame x. plugin_frame mcpy c d sop data gid = Some frame \<and> fromFlatBuffer frame = Some x
        \<and> fromMessage rcl_ops x = Some (Some m))"

lemma plugin_frame_delivered:
  assumes "codecs_ok c" and "copy_ok mcpy" and "length gid < 256" and "gid \<noteq> []"
  shows "\<exists>m. arrives mcpy c d sop data gid m"
    and "arrives mcpy c d sop data gid m \<Longrightarrow> sa_wf_for mcpy m \<and> sa_opcode m = sop \<and> getGID m = Some gid
      \<and> received_data mcpy c m = Some data"
proof -
  obtain m0 where m0: "forServiceAction (sa_def_channel d) sop data gid = Some m0" "sa_layout m0 gid data"
    "compressor m0 = NONE" "sa_opcode m0 = sop"
    using forServiceAction_layout [OF assms(3), of "sa_def_channel d" sop data] by blast
  have "gid_copy_ok mcpy (length gid)" using assms(2,3) by (simp add: copy_ok_def)
  then obtain frame where f: "getCompressedCombinedVector (sa_ops mcpy) sa_compress_ops c m0 (sa_compression d) = Some frame"
    and del: "sa_delivered mcpy c frame m0 gid data"
    using sa_transfer [OF m0(2,3) _ assms(1), of mcpy] assms(4) by auto
  have "plugin_frame mcpy c d sop data gid = Some frame"
    using f by (simp add: plugin_frame_def m0(1)) (auto simp: getCompressedCombinedVector_def sa_ops_def)
  with del m0(4) show "\<exists>m. arrives mcpy c d sop data gid m"
    and "arrives mcpy c d sop data gid m \<Longrightarrow> sa_wf_for mcpy m \<and> sa_opcode m = sop \<and> getGID m = Some gid
      \<and> received_data mcpy c m = Some data"
    using sa_wf_for_copy_ok [OF assms(2) fromMessage_wf]
    by (auto simp: arrives_def sa_delivered_def)
qed

lemma arrives_sent:
  assumes "codecs_ok c" and "copy_ok mcpy" and "length gid < 256" and "gid \<noteq> []" and "arrives mcpy c d sop data gid m"
  shows "sa_opcode m = sop" "getGID m = Some gid" "sa_wf_for mcpy m" "received_data mcpy c m = Some data"
    "\<exists>m'. unpack mcpy c m = Some (True, m') \<and> sa_wf_for mcpy m' \<and> getGID m' = Some gid \<and> getData m' = Some data
       \<and> \<not> isCompressed m'"
proof -
  show A: "sa_opcode m = sop" "getGID m = Some gid" "sa_wf_for mcpy m" "received_data mcpy c m = Some data"
    using plugin_frame_delivered(2) [OF assms] by auto
  then obtain m' where "unpack mcpy c m = Some (True, m')" "getData m' = Some data"
    by (auto simp: received_data_unpack)
  with unpack_spec [OF A(3), of c] A(2)
  show "\<exists>m'. unpack mcpy c m = Some (True, m') \<and> sa_wf_for mcpy m' \<and> getGID m' = Some gid \<and> getData m' = Some data
       \<and> \<not> isCompressed m'"
    by auto
qed

section \<open>A service call\<close>

text \<open>What the client side does with a request that nothing interferes with.\<close>

definition client_serves ::
    "copy_fun \<Rightarrow> codecs \<Rightarrow> int \<Rightarrow> bytes \<Rightarrow> sa_message \<Rightarrow> service_client \<Rightarrow> service_client option" where
  "client_serves mcpy c i resp m t = do {
     let n = length (heap t);
     t \<leftarrow> sc_handle m t;
     t \<leftarrow> sc_read mcpy c n t;
     t \<leftarrow> sc_await True n t;
     t \<leftarrow> sc_check n t;
     t \<leftarrow> sc_request (Some i) n t;
     t \<leftarrow> sc_response (n, i) t;
     sendAndDone resp n t
   }"

lemma client_serves_answer:
  assumes net: "codecs_ok c" "copy_ok mcpy" "length gid < 256" "gid \<noteq> []"
    and inv: "sc_inv mcpy t" and idle: "lookup gid t = None" "\<not> p_stopping t"
    and m: "arrives mcpy c d SERVICE_TO_CLIENT data gid m"
    and fits: "sc_dynamicSize t \<or> length data = sc_expectedSize t"
  shows "\<exists>t'. client_serves mcpy c i resp m t = Some t'
    \<and> sent t' = sent t @ [(Some (length (heap t)), SERVICE_TO_SERVER, resp, gid)]"
proof -
  note A = arrives_sent [OF net m]
  obtain m' where u: "unpack mcpy c m = Some (True, m')" "getGID m' = Some gid" "getData m' = Some data"
    using A(5) by blast
  let ?n = "length (heap t)"
  let ?t1 = "(register (new_handle gid 0) t)\<lparr>exec := exec t @ [Start m]\<rparr>"
  have len: "length (exec t) = ?n" by (rule sc_invD(2) [OF inv])
  have h: "sc_handle m t = Some ?t1"
    using A(1,2) idle by (simp add: sc_handle_def getGIDString_eq isServiceActionOpCode_def lookup_def Let_def)
  have e1: "exec_of ?n ?t1 = Some (Start m)" using len by (simp add: exec_of_def nth_append)
  have r: "sc_read mcpy c ?n ?t1 = Some (set_exec ?n (Checked m') ?t1)"
    unfolding sc_read_def e1 using u fits by (auto simp: register_def)
  let ?t2 = "set_exec ?n (Checked m') ?t1"
  have a: "sc_await True ?n ?t2 = Some (set_exec ?n (Available m') ?t2)"
    using len u(2) by (simp add: sc_await_def exec_of_def)
  let ?t3 = "set_exec ?n (Available m') ?t2"
  have ch: "sc_check ?n ?t3 = Some (set_exec ?n (Requesting m') ?t3)"
    using len idle(2) by (simp add: sc_check_def exec_of_def)
  let ?t4 = "set_exec ?n (Requesting m') ?t3"
  have q: "sc_request (Some i) ?n ?t4 = Some (set_exec ?n (Requested i) (?t4\<lparr>pending := pending ?t4 @ [(?n, i)]\<rparr>))"
    using len by (simp add: sc_request_def exec_of_def)
  let ?t5 = "set_exec ?n (Requested i) (?t4\<lparr>pending := pending ?t4 @ [(?n, i)]\<rparr>)"
  have "(?n, i) \<in> set (pending ?t5)" by (simp add: set_exec_def)
  then have p: "sc_response (?n, i) ?t5 = Some (?t5\<lparr>pending := remove1 (?n, i) (pending ?t5), callbacks := callbacks ?t5 @ [?n]\<rparr>)"
    by (simp add: sc_response_def)
  show ?thesis
    unfolding client_serves_def Let_def h bind.bind_lunit r a ch q p
    by (simp add: sendAndDone_def nth_append)
qed

text \<open>What the server side does with the response: it waits, the response arrives, it wakes up.\<close>

definition server_receives ::
    "copy_fun \<Rightarrow> codecs \<Rightarrow> nat \<Rightarrow> sa_message \<Rightarrow> service_server \<Rightarrow> service_server option" where
  "server_receives mcpy c k m s = do {
     s \<leftarrow> ss_check k s;
     s \<leftarrow> ss_handle m s;
     ss_wake mcpy c True k s
   }"

lemma ss_post_sends:
  assumes "pc_of k s = Some (Prepared r)" and "gID (heap s ! r) = request_gid (calls s ! k)" and "r < length (heap s)"
    and "lookup (request_gid (calls s ! k)) s = Some r" and "\<not> p_stopping s"
  shows "\<exists>s'. ss_post k s = Some s' \<and> sent s' = sent s @ [(Some r, SERVICE_TO_CLIENT, request_data (calls s ! k), request_gid (calls s ! k))]
    \<and> pc_of k s' = Some (Posted r) \<and> lookup (request_gid (calls s ! k)) s' = Some r \<and> handlingGoal (heap s' ! r)
    \<and> r < length (heap s') \<and> \<not> p_stopping s' \<and> expected (calls s' ! k) = expected (calls s ! k)
    \<and> dynamic (calls s' ! k) = dynamic (calls s ! k)"
proof -
  have k: "k < length (calls s)" "call_pc (calls s ! k) = Prepared r" using assms(1) by (auto simp: pc_of_Some)
  let ?s = "set_pc k (Posted r) (p_send (Some r) SERVICE_TO_CLIENT (request_data (calls s ! k))
     (gID (heap s ! r)) (upd r (\<lambda>h. h\<lparr>goalResponse := None, handlingGoal := True\<rparr>) s))"
  have "ss_post k s = Some ?s" using assms(1) by (simp add: ss_post_def)
  moreover have "lookup gid (set_pc k pc u) = lookup gid u" for gid pc u by (simp add: lookup_def)
  then have "lookup (request_gid (calls s ! k)) ?s = Some r" using assms(4) by simp
  moreover have "expected (calls ?s ! k) = expected (calls s ! k)" "dynamic (calls ?s ! k) = dynamic (calls s ! k)"
    using k by (simp_all add: set_pc_def)
  ultimately show ?thesis
    using k assms by (intro exI [of _ ?s]) (simp add: pc_of_def heap_upd)
qed

lemma server_receives_response:
  assumes net: "codecs_ok c" "copy_ok mcpy" "length gid < 256" "gid \<noteq> []"
    and s: "pc_of k s = Some (Posted r)" "lookup gid s = Some r" "handlingGoal (heap s ! r)" "r < length (heap s)" "\<not> p_stopping s"
    and m: "arrives mcpy c d SERVICE_TO_SERVER resp gid m"
    and fits: "dynamic (calls s ! k) \<or> length resp = expected (calls s ! k)"
  shows "\<exists>s' m'. server_receives mcpy c k m s = Some s' \<and> pc_of k s' = Some (Returned r)
    \<and> goalResponse (heap s' ! r) = Some m' \<and> getData m' = Some resp"
proof -
  note A = arrives_sent [OF net m]
  obtain m' where u: "unpack mcpy c m = Some (True, m')" "getData m' = Some resp" using A(5) by blast
  have k: "k < length (calls s)" "call_pc (calls s ! k) = Posted r" using s(1) by (auto simp: pc_of_Some)
  let ?s1 = "set_pc k (Waiting r) s"
  have 1: "ss_check k s = Some ?s1" using s(1,5) by (simp add: ss_check_def)
  have "map_of (handles s) (gIDString gid) = Some r" using s(2) by (simp add: lookup_def)
  then have 2: "ss_handle m ?s1 = Some (upd r (\<lambda>h. h\<lparr>goalResponse := Some m\<rparr>) ?s1)"
    using A(1,2) s(3) by (simp add: ss_handle_def getGIDString_eq isServiceActionOpCode_def)
  let ?s2 = "upd r (\<lambda>h. h\<lparr>goalResponse := Some m\<rparr>) ?s1"
  let ?s3 = "upd r (\<lambda>h. h\<lparr>goalResponse := Some m'\<rparr>) ?s2"
  let ?s4 = "set_pc k (Returned r) (upd r (\<lambda>h. h\<lparr>handlingGoal := False\<rparr>) ?s3)"
  have "pc_of k ?s2 = Some (Waiting r)" using k by (simp add: pc_of_def)
  moreover have "dynamic (calls ?s2 ! k) = dynamic (calls s ! k)" "expected (calls ?s2 ! k) = expected (calls s ! k)"
    using k by (simp_all add: set_pc_def)
  ultimately have 3: "ss_wake mcpy c True k ?s2 = Some ?s4"
    using u fits s(4,5) by (auto simp: ss_wake_def Let_def heap_upd)
  have "server_receives mcpy c k m s = Some ?s4" by (simp add: server_receives_def 1 2 3)
  moreover have "pc_of k ?s4 = Some (Returned r)" "goalResponse (heap ?s4 ! r) = Some m'"
    using k s(4) by (simp_all add: pc_of_def)
  ultimately show ?thesis using u(2) by blast
qed

section \<open>A goal\<close>

text \<open>
  What the client side of an action does with a goal that nothing interferes with, up to the answer of
  the local action.
\<close>

definition client_asks ::
    "copy_fun \<Rightarrow> codecs \<Rightarrow> bool \<Rightarrow> sa_message \<Rightarrow> action_client \<Rightarrow> action_client option" where
  "client_asks mcpy c accepted m t = do {
     let n = length (heap t);
     t \<leftarrow> ac_handle m t;
     t \<leftarrow> ac_run mcpy c True 6 n t;
     goal_response accepted n t
   }"

definition server_learns :: "nat \<Rightarrow> sa_message \<Rightarrow> action_server \<Rightarrow> action_server option" where
  "server_learns k m s = do {
     s \<leftarrow> goal_check k s;
     s \<leftarrow> as_handle m s;
     goal_wake True False k s
   }"

lemma client_asks_answer:
  assumes net: "codecs_ok c" "copy_ok mcpy" "length gid < 256" "gid \<noteq> []"
    and inv: "ac_inv mcpy t" and idle: "lookup gid t = None" "\<not> p_stopping t"
    and m: "arrives mcpy c d ACTION_TO_CLIENT_GOAL data gid m"
    and fits: "ac_dynamicSize t \<or> length data = ac_expectedSize t"
  shows "\<exists>t'. client_asks mcpy c accepted m t = Some t'
    \<and> sent t' = sent t @ [(Some (length (heap t)), ACTION_TO_SERVER_GOAL_ACCEPT, [], gid)]"
proof -
  note A = arrives_sent [OF net m]
  obtain m' where u: "unpack mcpy c m = Some (True, m')" "getData m' = Some data" using A(5) by blast
  let ?n = "length (heap t)"
  let ?t1 = "(register ((new_handle gid 0)\<lparr>waitQueue := [m]\<rparr>) t)\<lparr>threads := threads t @ [A_loop]\<rparr>"
  have len: "length (threads t) = ?n" by (rule ac_invD(2) [OF inv])
  have 1: "ac_handle m t = Some ?t1"
    using A(1,2) idle by (simp add: ac_handle_def getGIDString_eq isServiceActionOpCode_def lookup_def Let_def)
  have 2: "ac_own mcpy c True ?n ?t1 = Some (set_thread ?n A_wait ?t1)"
    using len idle(2) by (simp add: ac_own_def ac_loop_def thread_of_def nth_append)
  let ?t2 = "set_thread ?n A_wait ?t1"
  let ?t3 = "set_thread ?n (A_handling m) (upd ?n (\<lambda>h. h\<lparr>waitQueue := []\<rparr>) ?t2)"
  have 3: "ac_own mcpy c True ?n ?t2 = Some ?t3"
    using len idle(2) by (simp add: ac_own_def ac_wake_def thread_of_def nth_append)
  let ?t4 = "set_thread ?n (A_await m') (upd ?n (\<lambda>h. h\<lparr>handlingGoal := True\<rparr>) ?t3)"
  have "goal_read mcpy c m ?n ?t3 = Some ?t4"
    using u fits by (auto simp: goal_read_def Let_def set_thread_def upd_def register_def)
  moreover have "thread_of ?n ?t3 = Some (A_handling m)" using len by (simp add: thread_of_def)
  moreover have "\<not> handlingGoal (heap ?t3 ! ?n)" "\<not> handlingCancel (heap ?t3 ! ?n)"
    by (simp_all add: heap_upd nth_append)
  ultimately have 4: "ac_own mcpy c True ?n ?t3 = Some ?t4"
    using A(1) by (simp add: ac_own_def ac_process_def Let_def)
  let ?t5 = "set_thread ?n (A_check m') ?t4"
  have 5: "ac_own mcpy c True ?n ?t4 = Some ?t5" using len by (simp add: ac_own_def ac_await_def thread_of_def)
  let ?t6 = "set_thread ?n (A_send m') ?t5"
  have 6: "ac_own mcpy c True ?n ?t5 = Some ?t6"
    using len idle(2) by (simp add: ac_own_def ac_check_def thread_of_def)
  let ?t7 = "set_thread ?n A_loop (?t6\<lparr>goal_pending := goal_pending ?t6 @ [?n]\<rparr>)"
  have 7: "ac_own mcpy c True ?n ?t6 = Some ?t7" using len by (simp add: ac_own_def ac_send_goal_def thread_of_def)
  have run: "ac_run mcpy c True 6 ?n ?t1 = Some ?t7"
    by (simp add: numeral_eq_Suc 2 3 4 5 6 7 del: set_thread_simps)
  have "?n \<in> set (goal_pending ?t7)" by simp
  then show ?thesis
    unfolding client_asks_def Let_def 1 bind.bind_lunit run
    by (cases accepted) (simp_all add: goal_response_def Let_def goalAccepted_def goalRejected_def heap_upd nth_append)
qed

lemma server_learns_accept:
  assumes net: "codecs_ok c" "copy_ok mcpy" "length gid < 256" "gid \<noteq> []"
    and s: "goal_of k s = Some (G_posted r)" "lookup gid s = Some r" "handlingGoal (heap s ! r)" "r < length (heap s)" "\<not> p_stopping s"
    and m: "arrives mcpy c d ACTION_TO_SERVER_GOAL_ACCEPT [] gid m"
  shows "\<exists>s'. server_learns k m s = Some s' \<and> goal_of k s' = Some G_accepted"
proof -
  note A = arrives_sent [OF net m]
  have k: "k < length (goals s)" using s(1) by (auto simp: goal_of_def split: if_splits)
  let ?s1 = "set_goal k (G_waiting r) s"
  let ?s2 = "upd r (\<lambda>h. h\<lparr>goalResponse := Some m\<rparr>) ?s1"
  have 1: "goal_check k s = Some ?s1" using s by (simp add: goal_check_def)
  have "map_of (handles s) (gIDString gid) = Some r" using s(2) by (simp add: lookup_def)
  then have 2: "as_handle m ?s1 = Some ?s2"
    using A(1,2) s(3) by (simp add: as_handle_def getGIDString_eq isServiceActionOpCode_def)
  have "goal_of k ?s2 = Some (G_waiting r)" using k by (simp add: goal_of_def) (simp add: set_goal_def)
  then have 3: "goal_wake True False k ?s2 = Some (set_goal k G_accepted (upd r (\<lambda>h. h\<lparr>handlingGoal := False\<rparr>) ?s2))"
    using A(1) s(4,5) by (simp add: goal_wake_def heap_upd isServiceActionOpCode_def)
  have "goal_of k (set_goal k G_accepted (upd r (\<lambda>h. h\<lparr>handlingGoal := False\<rparr>) ?s2)) = Some G_accepted"
    using k by (simp add: goal_of_def set_goal_def)
  then show ?thesis by (simp add: server_learns_def 1 2 3)
qed

section \<open>Feedback and results\<close>

text \<open>What the peer does to its goal handle when a message of the callbacks arrives.\<close>

fun outcome_of :: "ServiceActionOpCode \<Rightarrow> bytes \<Rightarrow> outcome option" where
  "outcome_of ACTION_TO_SERVER_FEEDBACK d = Some (Feedback d)"
| "outcome_of ACTION_TO_SERVER_RESULT_SUCCEEDED d = Some (Succeed d)"
| "outcome_of ACTION_TO_SERVER_RESULT_CANCELED d = Some (Cancel d)"
| "outcome_of ACTION_TO_SERVER_RESULT_ABORTED d = Some (Abort d)"
| "outcome_of ACTION_TO_SERVER_RESULT_UNKNOWN d = Some (Abort d)"
| "outcome_of sop d = None"

lemma reaction_arrives:
  assumes "codecs_ok c" "copy_ok mcpy" "length gid < 256" "gid \<noteq> []" and "arrives mcpy c d sop data gid m"
  shows "reaction mcpy c m = outcome_of sop data"
  using arrives_sent(1,4) [OF assms] by (cases sop) (simp_all add: reaction_def result_codes_def)

lemma deliver_arrives:
  assumes net: "codecs_ok c" "copy_ok mcpy" "length gid < 256" "gid \<noteq> []"
    and fs: "list_all2 (\<lambda>x m. arrives mcpy c d ACTION_TO_SERVER_FEEDBACK x gid m) data ms"
    and res: "arrives mcpy c d sop result gid m" "outcome_of sop result = Some x" "final x"
  shows "deliver mcpy c (ms @ m # late) = map Feedback data @ [x]"
  using fs
proof (induction rule: list_all2_induct)
  case Nil
  then show ?case using reaction_arrives [OF net res(1)] res(2,3) by simp
next
  case (Cons x xs m ms)
  then show ?case using reaction_arrives [OF net Cons(1)] by simp
qed

text \<open>A cancel request for an unknown goal is answered with an op-code that no cancel request waits for.\<close>

lemma unknown_cancel_ignored:
  assumes "lookup gid t = None" and "sa_opcode m = ACTION_TO_CLIENT_CANCEL" and "getGID m = Some gid"
  shows "ac_handle m t = Some (p_send None ACTION_TO_SERVER_GOAL_REJECT [] gid t)"
    and "sa_opcode m' = ACTION_TO_SERVER_GOAL_REJECT \<Longrightarrow> as_handle m' s = Some s' \<Longrightarrow>
      cancelResponse (heap s' ! r) = cancelResponse (heap s ! r)"
  using assms
  by (auto simp: ac_handle_def as_handle_def getGIDString_eq lookup_def isServiceActionOpCode_def heap_upd Let_def
      bind_eq_Some_conv split: option.splits if_splits)

section \<open>The flows are runs of the plugins\<close>

lemma three_steps: "R a b \<Longrightarrow> R b x \<Longrightarrow> R x y \<Longrightarrow> R\<^sup>*\<^sup>* a y"
  by (blast intro: converse_rtranclp_into_rtranclp)

lemma two_steps: "R a b \<Longrightarrow> R b x \<Longrightarrow> R\<^sup>*\<^sup>* a x"
  by (blast intro: converse_rtranclp_into_rtranclp)

lemma server_receives_steps:
  assumes "arrives mcpy c d sop data gid m" and "server_receives mcpy c k m s = Some s'"
  shows "(ss_step mcpy c)\<^sup>*\<^sup>* s s'"
proof -
  obtain s1 s2 where s: "ss_check k s = Some s1" "ss_handle m s1 = Some s2" "ss_wake mcpy c True k s2 = Some s'"
    using assms(2) by (auto simp: server_receives_def bind_eq_Some_conv)
  obtain x where "fromMessage rcl_ops x = Some (Some m)" using assms(1) by (auto simp: arrives_def)
  with s have 12: "ss_step mcpy c s s1" "ss_step mcpy c s1 s2" by (blast intro: ss_step.intros)+
  have "ss_awake True k s2"
    using s(3) by (auto simp: ss_wake_def ss_awake_def split: option.splits call_pc.splits)
  then have "ss_step mcpy c s2 s'" using s(3) by (blast intro: ss_step.intros)
  with 12 show ?thesis by (rule three_steps [where R = "ss_step mcpy c"])
qed

lemma client_serves_steps:
  assumes "arrives mcpy c d sop data gid m" and "client_serves mcpy c i resp m t = Some t'"
  shows "(sc_step mcpy c)\<^sup>*\<^sup>* t t'"
proof -
  obtain t1 t2 t3 t4 t5 t6 where t: "sc_handle m t = Some t1" "sc_read mcpy c (length (heap t)) t1 = Some t2"
    "sc_await True (length (heap t)) t2 = Some t3" "sc_check (length (heap t)) t3 = Some t4"
    "sc_request (Some i) (length (heap t)) t4 = Some t5" "sc_response (length (heap t), i) t5 = Some t6"
    "sendAndDone resp (length (heap t)) t6 = Some t'"
    using assms(2) by (auto simp: client_serves_def bind_eq_Some_conv Let_def)
  obtain x where "fromMessage rcl_ops x = Some (Some m)" using assms(1) by (auto simp: arrives_def)
  then have "sc_step mcpy c t t1" using t(1) by (blast intro: sc_step.intros)
  then have 1: "(sc_step mcpy c)\<^sup>*\<^sup>* t t1" by (rule r_into_rtranclp [where r = "sc_step mcpy c"])
  note three = three_steps [where R = "sc_step mcpy c"]
  have s: "sc_step mcpy c t1 t2" "sc_step mcpy c t2 t3" "sc_step mcpy c t3 t4" "sc_step mcpy c t4 t5"
    "sc_step mcpy c t5 t6" "sc_step mcpy c t6 t'"
    using t(2-7) by (blast intro: sc_step.intros)+
  show ?thesis by (rule rtranclp_trans [OF 1 rtranclp_trans [OF three [OF s(1-3)] three [OF s(4-6)]]])
qed

lemma ac_own_steps: "ac_own mcpy c avail r s = Some t \<Longrightarrow> (ac_step mcpy c)\<^sup>*\<^sup>* s t"
  by (auto simp: ac_own_def split: option.splits thread_pc.splits intro: ac_step.intros r_into_rtranclp)

lemma ac_run_steps: "ac_run mcpy c avail n r s = Some t \<Longrightarrow> (ac_step mcpy c)\<^sup>*\<^sup>* s t"
  by (induction n arbitrary: s) (auto simp: bind_eq_Some_conv dest!: ac_own_steps intro: rtranclp_trans)

lemma client_asks_steps:
  assumes "arrives mcpy c d sop data gid m" and "client_asks mcpy c accepted m t = Some t'"
  shows "(ac_step mcpy c)\<^sup>*\<^sup>* t t'"
proof -
  obtain t1 t2 where t: "ac_handle m t = Some t1" "ac_run mcpy c True 6 (length (heap t)) t1 = Some t2"
    "goal_response accepted (length (heap t)) t2 = Some t'"
    using assms(2) by (auto simp: client_asks_def bind_eq_Some_conv Let_def)
  obtain x where "fromMessage rcl_ops x = Some (Some m)" using assms(1) by (auto simp: arrives_def)
  then have "ac_step mcpy c t t1" using t(1) by (blast intro: ac_step.intros)
  then have 1: "(ac_step mcpy c)\<^sup>*\<^sup>* t t1" by (rule r_into_rtranclp [where r = "ac_step mcpy c"])
  have "ac_step mcpy c t2 t'" using t(3) by (blast intro: ac_step.intros)
  then have 3: "(ac_step mcpy c)\<^sup>*\<^sup>* t2 t'" by (rule r_into_rtranclp [where r = "ac_step mcpy c"])
  show ?thesis by (rule rtranclp_trans [OF 1 rtranclp_trans [OF ac_run_steps [OF t(2)] 3]])
qed

lemma server_learns_steps:
  assumes "arrives mcpy c d sop data gid m" and "server_learns k m s = Some s'"
  shows "(as_step mcpy c)\<^sup>*\<^sup>* s s'"
proof -
  obtain s1 s2 where s: "goal_check k s = Some s1" "as_handle m s1 = Some s2" "goal_wake True False k s2 = Some s'"
    using assms(2) by (auto simp: server_learns_def bind_eq_Some_conv)
  obtain x where "fromMessage rcl_ops x = Some (Some m)" using assms(1) by (auto simp: arrives_def)
  with s have 123: "as_step mcpy c s s1" "as_step mcpy c s1 s2" "as_step mcpy c s2 s'"
    by (blast intro: as_step.intros)+
  then show ?thesis by (rule three_steps [where R = "as_step mcpy c"])
qed

text \<open>A call as a whole, from the callback of the local request to the response.\<close>

lemma service_call:
  assumes net: "codecs_ok c" "copy_ok mcpy" "length gid < 256" "gid \<noteq> []"
    and s: "ss_inv mcpy s" "lookup gid s = None" "\<not> p_stopping s"
    and t: "sc_inv mcpy t" "lookup gid t = None" "\<not> p_stopping t"
    and fits: "sc_dynamicSize t \<or> length data = sc_expectedSize t" "dyn \<or> length resp = n"
  shows "\<exists>s1 m t' m' s' x. ss_post (length (calls s)) (ss_begin gid seq data n dyn s) = Some s1
    \<and> last (sent s1) = (Some (length (heap s)), SERVICE_TO_CLIENT, data, gid)
    \<and> arrives mcpy c d SERVICE_TO_CLIENT data gid m
    \<and> client_serves mcpy c i resp m t = Some t'
    \<and> sent t' = sent t @ [(Some (length (heap t)), SERVICE_TO_SERVER, resp, gid)]
    \<and> arrives mcpy c d' SERVICE_TO_SERVER resp gid m'
    \<and> server_receives mcpy c (length (calls s)) m' s1 = Some s'
    \<and> pc_of (length (calls s)) s' = Some (Returned (length (heap s)))
    \<and> goalResponse (heap s' ! length (heap s)) = Some x \<and> getData x = Some resp"
proof -
  let ?k = "length (calls s)" and ?r = "length (heap s)"
  let ?b = "ss_begin gid seq data n dyn s"
  have b: "pc_of ?k ?b = Some (Prepared ?r)" "gID (heap ?b ! ?r) = gid" "request_gid (calls ?b ! ?k) = gid"
    "request_data (calls ?b ! ?k) = data" "?r < length (heap ?b)" "\<not> p_stopping ?b"
    "expected (calls ?b ! ?k) = n" "dynamic (calls ?b ! ?k) = dyn"
    using s(3) by (simp_all add: ss_begin_def Let_def pc_of_def)
  have "lookup gid ?b = Some ?r"
    using s lookup_register [of gid "new_handle gid seq" s] by (simp add: ss_begin_def Let_def lookup_def)
  then obtain s1 where s1: "ss_post ?k ?b = Some s1" "sent s1 = sent ?b @ [(Some ?r, SERVICE_TO_CLIENT, data, gid)]"
    "pc_of ?k s1 = Some (Posted ?r)" "lookup gid s1 = Some ?r" "handlingGoal (heap s1 ! ?r)" "?r < length (heap s1)"
    "\<not> p_stopping s1" "expected (calls s1 ! ?k) = n" "dynamic (calls s1 ! ?k) = dyn"
    using ss_post_sends [OF b(1)] b by auto
  obtain m where m: "arrives mcpy c d SERVICE_TO_CLIENT data gid m"
    using plugin_frame_delivered(1) [OF net] by blast
  obtain t' where t': "client_serves mcpy c i resp m t = Some t'"
    "sent t' = sent t @ [(Some (length (heap t)), SERVICE_TO_SERVER, resp, gid)]"
    using client_serves_answer [OF net t m fits(1)] by blast
  obtain m' where m': "arrives mcpy c d' SERVICE_TO_SERVER resp gid m'"
    using plugin_frame_delivered(1) [OF net] by blast
  obtain s' x where "server_receives mcpy c ?k m' s1 = Some s'" "pc_of ?k s' = Some (Returned ?r)"
    "goalResponse (heap s' ! ?r) = Some x" "getData x = Some resp"
    using server_receives_response [OF net s1(3-7) m'] s1(8,9) fits(2) by auto
  with s1 m t' m' show ?thesis
    by (intro exI [of _ s1] exI [of _ m] exI [of _ t'] exI [of _ m'] exI [of _ s'] exI [of _ x] conjI) simp_all
qed

text \<open>A goal, from the local request to the answer that the goal got from the local action of the peer.\<close>

lemma goal_answer:
  assumes net: "codecs_ok c" "copy_ok mcpy" "length gid < 256" "gid \<noteq> []"
    and s: "as_inv mcpy c s" "lookup gid s = None" "\<not> p_stopping s"
    and t: "ac_inv mcpy t" "lookup gid t = None" "\<not> p_stopping t"
    and fits: "ac_dynamicSize t \<or> length data = ac_expectedSize t"
  shows "\<exists>s1 m t' m' s'. goal_post (length (goals s)) (goal_begin gid data s) = Some s1
    \<and> last (sent s1) = (Some (length (heap s)), ACTION_TO_CLIENT_GOAL, data, gid)
    \<and> arrives mcpy c d ACTION_TO_CLIENT_GOAL data gid m
    \<and> client_asks mcpy c accepted m t = Some t'
    \<and> sent t' = sent t @ [(Some (length (heap t)), ACTION_TO_SERVER_GOAL_ACCEPT, [], gid)]
    \<and> arrives mcpy c d' ACTION_TO_SERVER_GOAL_ACCEPT [] gid m'
    \<and> server_learns (length (goals s)) m' s1 = Some s' \<and> goal_of (length (goals s)) s' = Some G_accepted"
proof -
  let ?k = "length (goals s)" and ?r = "length (heap s)"
  let ?b = "goal_begin gid data s"
  let ?s1 = "set_goal ?k (G_posted ?r) (p_send (Some ?r) ACTION_TO_CLIENT_GOAL data gid
    (upd ?r (\<lambda>h. h\<lparr>goalResponse := None, handlingGoal := True\<rparr>) ?b))"
  have b: "goal_of ?k ?b = Some (G_prepared ?r)" "goal_data (goals ?b ! ?k) = data" "heap ?b = heap s @ [new_handle gid 0]"
    "\<not> p_stopping ?b" "length (goals ?b) = Suc ?k"
    using s(3) by (simp_all add: goal_begin_def Let_def goal_of_def)
  have 1: "goal_post ?k ?b = Some ?s1" using b by (simp add: goal_post_def nth_append)
  have "lookup gid ?b = Some ?r"
    using s lookup_register [of gid "new_handle gid 0" s] by (simp add: goal_begin_def Let_def lookup_def)
  then have look: "lookup gid ?s1 = Some ?r" by (simp add: lookup_def)
  have pc: "goal_of ?k ?s1 = Some (G_posted ?r)" using b(5) by (simp add: goal_of_def) (simp add: set_goal_def)
  have more: "handlingGoal (heap ?s1 ! ?r)" "?r < length (heap ?s1)" "\<not> p_stopping ?s1"
    using b(3,4) by (simp_all add: heap_upd)
  have sent: "last (sent ?s1) = (Some ?r, ACTION_TO_CLIENT_GOAL, data, gid)" by (simp add: set_goal_def p_send_def)
  obtain m where m: "arrives mcpy c d ACTION_TO_CLIENT_GOAL data gid m"
    using plugin_frame_delivered(1) [OF net] by blast
  obtain t' where t': "client_asks mcpy c accepted m t = Some t'"
    "sent t' = sent t @ [(Some (length (heap t)), ACTION_TO_SERVER_GOAL_ACCEPT, [], gid)]"
    using client_asks_answer [OF net t m fits] by blast
  obtain m' where m': "arrives mcpy c d' ACTION_TO_SERVER_GOAL_ACCEPT [] gid m'"
    using plugin_frame_delivered(1) [OF net] by blast
  obtain s' where "server_learns ?k m' ?s1 = Some s'" "goal_of ?k s' = Some G_accepted"
    using server_learns_accept [OF net pc look more m'] by blast
  with 1 sent m t' m' show ?thesis by blast
qed

end
