(* ===== verification/ConfigCorrect.thy ===== *)
theory ConfigCorrect
  imports Config
begin

text \<open>
  Correctness of the initialization. The six loops over topics, services and actions share the
  contract \<open>entity_loop\<close>: every accepted text adds one entity that passed its checks, on a channel
  no earlier entity of the loop and no entity of the opposite side uses, and whose own-thread flag
  is the one \<open>evalNrOfMultiThreadedExecutorThreads\<close> reads from the same text.
\<close>

section \<open>What the checks guarantee\<close>

definition user_topic :: "GlobalConfig \<Rightarrow> Topic_t \<Rightarrow> bool" where
  "user_topic cfg t \<longleftrightarrow>
     tp_channel t < OP_CODE_MIN \<and> tp_topic t \<notin> {''/tf'', ''/tf_static'', ''/clock''}
     \<and> tp_qos t \<in> Some ` ran (gc_qos cfg)
     \<and> tp_compression t \<in> insert DEFAULT_COMPRESSION_PROFILE (ran (gc_compression cfg))
     \<and> (compressor_of_profile (tp_compression t) \<noteq> NONE \<longrightarrow> tp_useOwnThread t)"

definition user_entity :: "GlobalConfig \<Rightarrow> Service_Action_t \<Rightarrow> bool" where
  "user_entity cfg e \<longleftrightarrow>
     (sa_allowSimultaneous e \<longrightarrow> sa_useOwnThread e)
     \<and> {sa_serviceQos e, sa_feedbackQos e, sa_statusQos e} \<subseteq> ran (gc_qos cfg)
     \<and> sa_compression e \<in> ran (gc_compression cfg)
     \<and> (compressor_of_profile (sa_compression e) \<noteq> NONE \<longrightarrow> sa_useOwnThread e)"

definition rates_ok :: "env \<Rightarrow> GlobalConfig \<Rightarrow> bool" where
  "rates_ok env cfg \<longleftrightarrow>
     (\<forall>c \<in> ran (gc_compression cfg). \<not> rate_out_of_range env (compressor_of_profile c) (uint (rate c)))"

lemma need_simps [simp]:
  "need_object v msg = Inr obj \<longleftrightarrow> v = JObject obj"
  "need_int obj key what = Inr i \<longleftrightarrow> jget obj key = JInt i"
  "need_string obj key what = Inr s \<longleftrightarrow> jget obj key = JString s"
  "need_bool obj key what = Inr b \<longleftrightarrow> jget obj key = JBool b"
  by (auto simp: need_object_def need_int_def need_string_def need_bool_def split: json.splits)

lemma find_profile_Inr:
  "find_profile m obj key what = Inr q \<longleftrightarrow> (\<exists>i. jget obj key = JInt i \<and> m (word_of_int i) = Some q)"
  by (auto simp: find_profile_def split: json.splits option.splits)

lemma find_profile_ran: "find_profile m obj key what = Inr q \<Longrightarrow> q \<in> ran m"
  by (auto simp: find_profile_Inr intro: ranI)

text \<open>A number that passed the range check is the value of its byte, so \<open>known\<close> is compared exactly.\<close>

lemma uint_byte: "0 \<le> i \<Longrightarrow> i \<le> 255 \<Longrightarrow> uint (word_of_int i :: byte) = i"
  by (simp add: uint_word_of_int)

lemma fresh_byte:
  assumes "\<not> list_ex (\<lambda>val. uint (f val) = i) xs" and "0 \<le> i" and "i \<le> 255"
  shows "(word_of_int i :: byte) \<notin> f ` set xs"
  using assms uint_byte [of i] by (auto simp: list_ex_iff)

lemma fresh_byte_ne:
  "\<not> list_ex (\<lambda>val. uint (f val) = i) xs \<Longrightarrow> 0 \<le> i \<Longrightarrow> i \<le> 255 \<Longrightarrow> x \<in> set xs \<Longrightarrow>
   (word_of_int i :: byte) \<noteq> f x"
  using fresh_byte [of f i xs] by auto

lemma uint_u32: "0 \<le> i \<Longrightarrow> i \<le> 2 ^ 32 - 1 \<Longrightarrow> uint (word_of_int i :: u32) = i"
  by (simp add: uint_word_of_int)

text \<open>When the checks throw nothing. The messages play no role in this.\<close>

lemma checks_pass [simp]:
  "no_throw (channel_range_check ch what) \<longleftrightarrow> 0 \<le> ch \<and> ch \<le> 255"
  "no_throw (known_channel_check known ch plural) \<longleftrightarrow> \<not> list_ex (\<lambda>val. uint val = ch) known"
  "no_throw (reserved_channel_check ch what) \<longleftrightarrow> \<not> (249 \<le> ch \<and> ch \<le> 255)"
  "no_throw (predefined_topic_checks topic what verb) \<longleftrightarrow> topic \<notin> {''/tf'', ''/tf_static'', ''/clock''}"
  "no_throw (id_checks known i what plural) \<longleftrightarrow> 0 \<le> i \<and> i \<le> 255 \<and> \<not> list_ex (\<lambda>val. uint val = i) known"
  by (auto simp: channel_range_check_def known_channel_check_def reserved_channel_check_def
      predefined_topic_checks_def id_checks_def OP_CODE_MIN_def Let_def simp del: append.simps)

lemma own_thread_member:
  "json_parse env text = Inr (JObject json) \<Longrightarrow> jget json ''useOwnThread'' = JBool own \<Longrightarrow>
   own_thread env par text = Inr own"
  by (simp add: own_thread_def)

lemma user_channel:
  "0 \<le> ch \<Longrightarrow> ch \<le> 255 \<Longrightarrow> \<not> 249 \<le> ch \<Longrightarrow> (word_of_int ch :: byte) < OP_CODE_MIN"
  by (simp add: word_less_def uint_byte OP_CODE_MIN_def)

lemma parse_subscriber_Inr:
  assumes "parse_subscriber env known cfg text = Inr t"
  shows "user_topic cfg t \<and> tp_channel t \<notin> set known \<and> own_thread env par text = Inr (tp_useOwnThread t)"
  using assms fresh_byte [of id _ known]
  by (auto simp: parse_subscriber_def Let_def own_thread_member user_topic_def user_channel
      simp del: append.simps dest: find_profile_ran)

lemma parse_publisher_Inr:
  assumes "parse_publisher env known cfg text = Inr t"
  shows "user_topic cfg t \<and> tp_channel t \<notin> set known \<and> tp_channel t \<notin> tp_channel ` set (gc_subscriber cfg)
    \<and> own_thread env par text = Inr (tp_useOwnThread t)"
  using assms fresh_byte [of id _ known] fresh_byte_ne [of tp_channel _ "gc_subscriber cfg"]
  by (auto simp: parse_publisher_def Let_def own_thread_member user_topic_def user_channel
      DEFAULT_COMPRESSION_PROFILE_def simp del: append.simps dest: find_profile_ran)

lemma parse_service_server_Inr:
  assumes "parse_service_server env known cfg text = Inr e"
  shows "user_entity cfg e \<and> sa_def_channel e \<notin> set known
    \<and> own_thread env par text = Inr (sa_useOwnThread e)"
  using assms fresh_byte [of id _ known]
  by (auto simp: parse_service_server_def Let_def own_thread_member user_entity_def
      simp del: append.simps dest: find_profile_ran)

lemma parse_service_client_Inr:
  assumes "parse_service_client env known cfg text = Inr e"
  shows "user_entity cfg e \<and> sa_def_channel e \<notin> set known \<and> sa_def_channel e \<notin> sa_def_channel ` set (gc_serviceServer cfg)
    \<and> own_thread env par text = Inr (sa_useOwnThread e)"
  using assms fresh_byte [of id _ known] fresh_byte_ne [of sa_def_channel _ "gc_serviceServer cfg"]
  by (auto simp: parse_service_client_def Let_def own_thread_member user_entity_def
      simp del: append.simps dest: find_profile_ran)

lemma parse_action_server_Inr:
  assumes "parse_action_server env known cfg text = Inr e"
  shows "user_entity cfg e \<and> sa_def_channel e \<notin> set known
    \<and> own_thread env par text = Inr (sa_useOwnThread e)"
  using assms fresh_byte [of id _ known]
  by (auto simp: parse_action_server_def Let_def own_thread_member user_entity_def
      simp del: append.simps dest: find_profile_ran)

lemma parse_action_client_Inr:
  assumes "parse_action_client env known cfg text = Inr e"
  shows "user_entity cfg e \<and> sa_def_channel e \<notin> set known \<and> sa_def_channel e \<notin> sa_def_channel ` set (gc_actionServer cfg)
    \<and> own_thread env par text = Inr (sa_useOwnThread e)"
  using assms fresh_byte [of id _ known] fresh_byte_ne [of sa_def_channel _ "gc_actionServer cfg"]
  by (auto simp: parse_action_client_def Let_def own_thread_member user_entity_def
      simp del: append.simps dest: find_profile_ran)

section \<open>The contract of the loops\<close>

locale entity_loop =
  fixes add :: "env \<Rightarrow> byte list \<times> GlobalConfig \<Rightarrow> string \<Rightarrow> (byte list \<times> GlobalConfig) throws"
    and items :: "GlobalConfig \<Rightarrow> 'x list"
    and upd :: "'x list \<Rightarrow> GlobalConfig \<Rightarrow> GlobalConfig"
    and ch :: "'x \<Rightarrow> byte"
    and own :: "'x \<Rightarrow> bool"
    and good :: "GlobalConfig \<Rightarrow> 'x \<Rightarrow> bool"
    and other :: "GlobalConfig \<Rightarrow> byte set"
  assumes step: "add env (known, cfg) text = Inr (known', cfg') \<Longrightarrow>
      \<exists>x. known' = known @ [ch x] \<and> cfg' = upd (items cfg @ [x]) cfg \<and> good cfg x
        \<and> ch x \<notin> set known \<and> ch x \<notin> other cfg \<and> own_thread env par text = Inr (own x)"
    and items_upd: "items (upd l cfg) = l"
    and upd_upd: "upd l (upd l' cfg) = upd l cfg"
    and upd_items: "upd (items cfg) cfg = cfg"
    and good_upd: "good (upd l cfg) = good cfg"
    and other_upd: "other (upd l cfg) = other cfg"
begin

text \<open>What a loop adds, and what the thread counter computes from the same texts.\<close>

definition added :: "GlobalConfig \<Rightarrow> 'x list \<Rightarrow> bool" where
  "added cfg xs \<longleftrightarrow> list_all (good cfg) xs \<and> distinct (map ch xs) \<and> ch ` set xs \<inter> other cfg = {}"

lemma loop:
  assumes "for_each (add env) texts (map ch (items cfg), cfg) = Inr (known', cfg')"
  shows "\<exists>xs. cfg' = upd (items cfg @ xs) cfg \<and> added cfg xs \<and> ch ` set xs \<inter> ch ` set (items cfg) = {}
    \<and> (\<forall>n. for_each (count_own_thread env par) texts n = Inr (n + int (length (filter own xs))))"
  using assms
proof (induction texts arbitrary: cfg)
  case Nil
  then show ?case by (intro exI [of _ "[]"]) (simp add: added_def upd_items)
next
  case (Cons s ss)
  then obtain k1 cfg1 where st: "add env (map ch (items cfg), cfg) s = Inr (k1, cfg1)"
    and rest: "for_each (add env) ss (k1, cfg1) = Inr (known', cfg')"
    by auto
  obtain x where x: "k1 = map ch (items cfg) @ [ch x]" "cfg1 = upd (items cfg @ [x]) cfg" "good cfg x"
    "ch x \<notin> ch ` set (items cfg)" "ch x \<notin> other cfg" "own_thread env par s = Inr (own x)"
    using step [OF st, of par] by auto
  have "k1 = map ch (items cfg1)" by (simp add: x items_upd)
  with rest have "for_each (add env) ss (map ch (items cfg1), cfg1) = Inr (known', cfg')" by simp
  from Cons.IH [OF this] obtain xs where xs: "cfg' = upd (items cfg1 @ xs) cfg1" "added cfg1 xs"
    "ch ` set xs \<inter> ch ` set (items cfg1) = {}"
    "\<And>n. for_each (count_own_thread env par) ss n = Inr (n + int (length (filter own xs)))"
    by blast
  have "count_own_thread env par n s = Inr (if own x then n + 1 else n)" for n
    using x(6) by (simp add: count_own_thread_def caught_def)
  then have "for_each (count_own_thread env par) (s # ss) n
      = Inr (n + int (length (filter own (x # xs))))" for n
    by (simp add: xs(4))
  moreover have "cfg' = upd (items cfg @ x # xs) cfg"
    by (simp add: xs(1) x(2) items_upd upd_upd)
  moreover have "added cfg (x # xs)" "ch ` set (x # xs) \<inter> ch ` set (items cfg) = {}"
    using xs(2,3) x(3,4,5) by (auto simp: added_def x(2) good_upd other_upd items_upd)
  ultimately show ?case by blast
qed

text \<open>A loop that starts with nothing leaves exactly the entities of its texts, on distinct channels.\<close>

lemma whole_loop:
  assumes "for_each (add env) texts ([], cfg) = Inr (known', cfg')" and "items cfg = []"
  shows "\<exists>xs. cfg' = upd xs cfg \<and> added cfg xs
    \<and> (\<forall>n. for_each (count_own_thread env par) texts n = Inr (n + int (length (filter own xs))))"
  using loop [of env texts cfg known' cfg' par] assms by auto

end

interpretation sub_loop: entity_loop add_subscriber gc_subscriber "\<lambda>l. gc_subscriber_update (\<lambda>_. l)" tp_channel tp_useOwnThread
  user_topic "\<lambda>_. {}"
proof (unfold_locales, goal_cases)
  case (1 env known cfg s known' cfg' par)
  then show ?case
    using parse_subscriber_Inr [of env known cfg s _ par]
    by (auto simp: add_subscriber_def split: prod.splits)
qed (simp_all add: user_topic_def fun_eq_iff)

interpretation pub_loop: entity_loop add_publisher gc_publisher "\<lambda>l. gc_publisher_update (\<lambda>_. l)" tp_channel tp_useOwnThread
  user_topic "\<lambda>cfg. tp_channel ` set (gc_subscriber cfg)"
proof (unfold_locales, goal_cases)
  case (1 env known cfg s known' cfg' par)
  then show ?case
    using parse_publisher_Inr [of env known cfg s _ par]
    by (auto simp: add_publisher_def split: prod.splits)
qed (simp_all add: user_topic_def fun_eq_iff)

interpretation ss_loop: entity_loop add_service_server gc_serviceServer "\<lambda>l. gc_serviceServer_update (\<lambda>_. l)" sa_def_channel sa_useOwnThread
  user_entity "\<lambda>_. {}"
proof (unfold_locales, goal_cases)
  case (1 env known cfg s known' cfg' par)
  then show ?case
    using parse_service_server_Inr [of env known cfg s _ par]
    by (auto simp: add_service_server_def split: prod.splits)
qed (simp_all add: user_entity_def fun_eq_iff)

interpretation sc_loop: entity_loop add_service_client gc_serviceClient "\<lambda>l. gc_serviceClient_update (\<lambda>_. l)" sa_def_channel sa_useOwnThread
  user_entity "\<lambda>cfg. sa_def_channel ` set (gc_serviceServer cfg)"
proof (unfold_locales, goal_cases)
  case (1 env known cfg s known' cfg' par)
  then show ?case
    using parse_service_client_Inr [of env known cfg s _ par]
    by (auto simp: add_service_client_def split: prod.splits)
qed (simp_all add: user_entity_def fun_eq_iff)

interpretation as_loop: entity_loop add_action_server gc_actionServer "\<lambda>l. gc_actionServer_update (\<lambda>_. l)" sa_def_channel sa_useOwnThread
  user_entity "\<lambda>_. {}"
proof (unfold_locales, goal_cases)
  case (1 env known cfg s known' cfg' par)
  then show ?case
    using parse_action_server_Inr [of env known cfg s _ par]
    by (auto simp: add_action_server_def split: prod.splits)
qed (simp_all add: user_entity_def fun_eq_iff)

interpretation ac_loop: entity_loop add_action_client gc_actionClient "\<lambda>l. gc_actionClient_update (\<lambda>_. l)" sa_def_channel sa_useOwnThread
  user_entity "\<lambda>cfg. sa_def_channel ` set (gc_actionServer cfg)"
proof (unfold_locales, goal_cases)
  case (1 env known cfg s known' cfg' par)
  then show ?case
    using parse_action_client_Inr [of env known cfg s _ par]
    by (auto simp: add_action_client_def split: prod.splits)
qed (simp_all add: user_entity_def fun_eq_iff)

section \<open>The loops over profiles\<close>

definition qos_ok :: "GlobalConfig \<Rightarrow> bool" where
  "qos_ok cfg \<longleftrightarrow> (\<forall>q \<in> ran (gc_qos cfg). depth q \<noteq> 0)"

lemma ran_map_insert: "ran (map_insert k v mp) \<subseteq> insert v (ran mp)"
  by (auto simp: map_insert_def ran_def split: option.splits if_splits)

lemma parse_qos_Inr: "parse_qos env known text = Inr (k, q) \<Longrightarrow> depth q \<noteq> 0"
  by (auto simp: parse_qos_def Let_def simp del: append.simps)

lemma parse_compression_Inr:
  assumes "parse_compression env known text = Inr (k, c)"
  shows "\<not> rate_out_of_range env (compressor_of_profile c) (uint (rate c))"
proof -
  obtain r where r: "\<not> rate_out_of_range env (compressor_of_profile c) r" "rate c = word_of_int r"
    using assms by (auto simp: parse_compression_def Let_def simp del: append.simps)
  then have "uint (rate c) = r" using uint_u32 [of r] by (simp add: rate_out_of_range_def not_less)
  with r show ?thesis by simp
qed

lemma qos_loop:
  assumes "for_each (add_qos env) texts ([], cfg) = Inr (known, cfg')" and "qos_ok cfg"
  shows "\<exists>m. cfg' = cfg\<lparr>gc_qos := m\<rparr> \<and> qos_ok cfg'"
proof -
  have "(\<exists>m. snd (known, cfg') = cfg\<lparr>gc_qos := m\<rparr>) \<and> qos_ok (snd (known, cfg'))"
  proof (rule for_each_invariant [OF assms(1)], goal_cases)
    case 1
    show ?case
      by (intro conjI exI [of _ "gc_qos cfg"]) (use assms(2) in simp_all)
  next
    case (2 st s st')
    obtain kn c where st: "st = (kn, c)" by fastforce
    from 2(2) obtain k q where q: "parse_qos env kn s = Inr (k, q)"
      and st': "st' = (kn @ [k], c\<lparr>gc_qos := map_insert k q (gc_qos c)\<rparr>)"
      by (auto simp: add_qos_def st)
    have "qos_ok (c\<lparr>gc_qos := map_insert k q (gc_qos c)\<rparr>)"
      using 2(1) ran_map_insert [of k q "gc_qos c"] parse_qos_Inr [OF q]
      unfolding qos_ok_def st by auto
    with 2(1) show ?case by (auto simp: st st')
  qed
  then show ?thesis by simp
qed

lemma compression_loop:
  assumes "for_each (add_compression env) texts ([], cfg) = Inr (known, cfg')" and "rates_ok env cfg"
  shows "\<exists>m. cfg' = cfg\<lparr>gc_compression := m\<rparr> \<and> rates_ok env cfg'"
proof -
  have "(\<exists>m. snd (known, cfg') = cfg\<lparr>gc_compression := m\<rparr>) \<and> rates_ok env (snd (known, cfg'))"
  proof (rule for_each_invariant [OF assms(1)], goal_cases)
    case 1
    show ?case
      by (intro conjI exI [of _ "gc_compression cfg"]) (use assms(2) in simp_all)
  next
    case (2 st s st')
    obtain kn c where st: "st = (kn, c)" by fastforce
    from 2(2) obtain k q where q: "parse_compression env kn s = Inr (k, q)"
      and st': "st' = (kn @ [k], c\<lparr>gc_compression := map_insert k q (gc_compression c)\<rparr>)"
      by (auto simp: add_compression_def st)
    have "rates_ok env (c\<lparr>gc_compression := map_insert k q (gc_compression c)\<rparr>)"
      using 2(1) ran_map_insert [of k q "gc_compression c"] parse_compression_Inr [OF q]
      unfolding rates_ok_def st by auto
    with 2(1) show ?case by (auto simp: st st')
  qed
  then show ?thesis by simp
qed

section \<open>The configuration after a successful initialization\<close>

definition predefined_topic :: "Topic_t \<Rightarrow> bool" where
  "predefined_topic t \<longleftrightarrow>
     t = predefined_publisher CLOCK ''/clock'' ''rosgraph_msgs/msg/Clock'' CLOCK_AND_TF_QOS
     \<or> t = predefined_publisher TF ''/tf'' ''tf2_msgs/msg/TFMessage'' CLOCK_AND_TF_QOS
     \<or> t = predefined_publisher TF_STATIC ''/tf_static'' ''tf2_msgs/msg/TFMessage'' TF_STATIC_QOS"

definition topics_ok :: "GlobalConfig \<Rightarrow> bool" where
  "topics_ok cfg \<longleftrightarrow>
     list_all (\<lambda>t. user_topic cfg t \<or> predefined_topic t) (gc_subscriber cfg @ gc_publisher cfg)
     \<and> distinct (map tp_channel (gc_subscriber cfg @ gc_publisher cfg))"

definition entities_ok :: "GlobalConfig \<Rightarrow> bool" where
  "entities_ok cfg \<longleftrightarrow>
     list_all (user_entity cfg) (gc_serviceServer cfg @ gc_serviceClient cfg
       @ gc_actionServer cfg @ gc_actionClient cfg)
     \<and> distinct (map sa_def_channel (gc_serviceServer cfg @ gc_serviceClient cfg))
     \<and> distinct (map sa_def_channel (gc_actionServer cfg @ gc_actionClient cfg))"

definition authentication_ok :: "env \<Rightarrow> GlobalConfig \<Rightarrow> bool" where
  "authentication_ok env cfg \<longleftrightarrow>
     authenticationTimeout cfg > 0
     \<and> (authenticationOmit cfg \<or> authenticationPlugin cfg \<noteq> [])
     \<and> (authenticationPlugin cfg \<noteq> [] \<longrightarrow> load_authentication env (authenticationPlugin cfg) = Inr ())"

definition config_ok :: "env \<Rightarrow> bool \<Rightarrow> GlobalConfig \<Rightarrow> bool" where
  "config_ok env authentication cfg \<longleftrightarrow>
     topics_ok cfg \<and> entities_ok cfg \<and> rates_ok env cfg \<and> qos_ok cfg
     \<and> \<not> (publishTf cfg \<and> subscribeTf cfg) \<and> \<not> (publishClock cfg \<and> subscribeClock cfg)
     \<and> 8 \<le> fragmentationSize cfg
     \<and> (authentication \<longrightarrow> authentication_ok env cfg)"

text \<open>The number of entities with an own thread that the user configured.\<close>

definition own_threads :: "GlobalConfig \<Rightarrow> nat" where
  "own_threads cfg =
     length (filter (\<lambda>t. tp_useOwnThread t \<and> tp_channel t < OP_CODE_MIN) (gc_subscriber cfg))
     + length (filter sa_useOwnThread (gc_serviceServer cfg @ gc_serviceClient cfg
         @ gc_actionServer cfg @ gc_actionClient cfg))"

lemma user_topic_upd [simp]:
  "user_topic (gc_subscriber_update f cfg) = user_topic cfg"
  "user_topic (gc_publisher_update f cfg) = user_topic cfg"
  "user_topic (gc_serviceServer_update g cfg) = user_topic cfg"
  "user_topic (gc_serviceClient_update g cfg) = user_topic cfg"
  "user_topic (gc_actionServer_update g cfg) = user_topic cfg"
  "user_topic (gc_actionClient_update g cfg) = user_topic cfg"
  by (simp_all add: user_topic_def fun_eq_iff)

lemma user_entity_upd [simp]:
  "user_entity (gc_subscriber_update f cfg) = user_entity cfg"
  "user_entity (gc_publisher_update f cfg) = user_entity cfg"
  "user_entity (gc_serviceServer_update g cfg) = user_entity cfg"
  "user_entity (gc_serviceClient_update g cfg) = user_entity cfg"
  "user_entity (gc_actionServer_update g cfg) = user_entity cfg"
  "user_entity (gc_actionClient_update g cfg) = user_entity cfg"
  by (simp_all add: user_entity_def fun_eq_iff)

lemma profiles_upd [simp]:
  "qos_ok (gc_subscriber_update f cfg) = qos_ok cfg" "rates_ok env (gc_subscriber_update f cfg) = rates_ok env cfg"
  "qos_ok (gc_publisher_update f cfg) = qos_ok cfg" "rates_ok env (gc_publisher_update f cfg) = rates_ok env cfg"
  "qos_ok (gc_serviceServer_update g cfg) = qos_ok cfg" "rates_ok env (gc_serviceServer_update g cfg) = rates_ok env cfg"
  "qos_ok (gc_serviceClient_update g cfg) = qos_ok cfg" "rates_ok env (gc_serviceClient_update g cfg) = rates_ok env cfg"
  "qos_ok (gc_actionServer_update g cfg) = qos_ok cfg" "rates_ok env (gc_actionServer_update g cfg) = rates_ok env cfg"
  "qos_ok (gc_actionClient_update g cfg) = qos_ok cfg" "rates_ok env (gc_actionClient_update g cfg) = rates_ok env cfg"
  "qos_ok (gc_compression_update h cfg) = qos_ok cfg"
  by (simp_all add: qos_ok_def rates_ok_def)

text \<open>The state in front of \<open>finish_initialization\<close>.\<close>

definition blank :: "GlobalConfig \<Rightarrow> bool" where
  "blank cfg \<longleftrightarrow>
     gc_qos cfg = (\<lambda>_. None) \<and> gc_compression cfg = (\<lambda>_. None) \<and> gc_subscriber cfg = []
     \<and> gc_publisher cfg = [] \<and> gc_serviceServer cfg = [] \<and> gc_serviceClient cfg = []
     \<and> gc_actionServer cfg = [] \<and> gc_actionClient cfg = []"

definition loops_ok :: "env \<Rightarrow> parameters \<Rightarrow> GlobalConfig \<Rightarrow> bool" where
  "loops_ok env p cfg \<longleftrightarrow>
     list_all (user_topic cfg) (gc_subscriber cfg @ gc_publisher cfg)
     \<and> distinct (map tp_channel (gc_subscriber cfg @ gc_publisher cfg))
     \<and> entities_ok cfg \<and> rates_ok env cfg \<and> qos_ok cfg
     \<and> evalNrOfMultiThreadedExecutorThreads env p
         = 4 + int (length (filter tp_useOwnThread (gc_subscriber cfg)))
           + int (length (filter sa_useOwnThread (gc_serviceServer cfg @ gc_serviceClient cfg
               @ gc_actionServer cfg @ gc_actionClient cfg)))
           + (if p_clock_publish p then 1 else 0) + (if p_tf_publish p then 1 else 0)
           + (if p_tf_subscribe p then 1 else 0)"

lemma initializeParameters_loops:
  assumes "initializeParameters env authentication p cfg0 = Inr cfg" and "blank cfg0"
  shows "\<exists>base. finish_initialization env authentication base = Inr cfg \<and> loops_ok env p base
    \<and> publishTf base = p_tf_publish p \<and> subscribeTf base = p_tf_subscribe p
    \<and> publishClock base = p_clock_publish p"
proof -
  let ?c0 = "retrieve_parameters p cfg0"
  have c0: "gc_subscriber ?c0 = []" "gc_publisher ?c0 = []" "gc_serviceServer ?c0 = []"
    "gc_serviceClient ?c0 = []" "gc_actionServer ?c0 = []" "gc_actionClient ?c0 = []"
    "qos_ok ?c0" "rates_ok env ?c0"
    using assms(2) by (simp_all add: blank_def retrieve_parameters_def qos_ok_def rates_ok_def)
  obtain k1 c1 k2 c2 k3 c3 k4 c4 k5 c5 k6 c6 k7 c7 k8 c8 where
      l: "for_each (add_qos env) (p_qos p) ([], ?c0) = Inr (k1, c1)"
        "for_each (add_compression env) (p_compression p) ([], c1) = Inr (k2, c2)"
        "for_each (add_subscriber env) (p_subscriber p) ([], c2) = Inr (k3, c3)"
        "for_each (add_publisher env) (p_publisher p) ([], c3) = Inr (k4, c4)"
        "for_each (add_service_server env) (p_service_server p) ([], c4) = Inr (k5, c5)"
        "for_each (add_service_client env) (p_service_client p) ([], c5) = Inr (k6, c6)"
        "for_each (add_action_server env) (p_action_server p) ([], c6) = Inr (k7, c7)"
        "for_each (add_action_client env) (p_action_client p) ([], c7) = Inr (k8, c8)"
    and fin: "finish_initialization env authentication c8 = Inr cfg"
    using assms(1) by (auto simp: initializeParameters_def Let_def)
  obtain q where c1: "c1 = ?c0\<lparr>gc_qos := q\<rparr>" and q: "qos_ok c1"
    using qos_loop [OF l(1) c0(7)] by blast
  have "rates_ok env c1" using c0(8) by (simp add: c1 rates_ok_def)
  from compression_loop [OF l(2) this] obtain m where c2: "c2 = c1\<lparr>gc_compression := m\<rparr>"
    and r: "rates_ok env c2" by blast
  note e = c0(1-6) c1 c2
  obtain sub where sub: "c3 = c2\<lparr>gc_subscriber := sub\<rparr>" "sub_loop.added c2 sub"
    and sub_n: "\<And>n. for_each (count_own_thread env ''subscriber'') (p_subscriber p) n
      = Inr (n + int (length (filter tp_useOwnThread sub)))"
    using sub_loop.whole_loop [OF l(3), of "''subscriber''"] by (auto simp: e)
  obtain pub where pub: "c4 = c3\<lparr>gc_publisher := pub\<rparr>" "pub_loop.added c3 pub"
    using pub_loop.whole_loop [OF l(4)] by (auto simp: e sub)
  obtain ss where ss: "c5 = c4\<lparr>gc_serviceServer := ss\<rparr>" "ss_loop.added c4 ss"
    and ss_n: "\<And>n. for_each (count_own_thread env ''service/server'') (p_service_server p) n
      = Inr (n + int (length (filter sa_useOwnThread ss)))"
    using ss_loop.whole_loop [OF l(5), of "''service/server''"] by (auto simp: e sub pub)
  obtain sc where sc: "c6 = c5\<lparr>gc_serviceClient := sc\<rparr>" "sc_loop.added c5 sc"
    and sc_n: "\<And>n. for_each (count_own_thread env ''service/client'') (p_service_client p) n
      = Inr (n + int (length (filter sa_useOwnThread sc)))"
    using sc_loop.whole_loop [OF l(6), of "''service/client''"] by (auto simp: e sub pub ss)
  obtain acs where acs: "c7 = c6\<lparr>gc_actionServer := acs\<rparr>" "as_loop.added c6 acs"
    and acs_n: "\<And>n. for_each (count_own_thread env ''action/server'') (p_action_server p) n
      = Inr (n + int (length (filter sa_useOwnThread acs)))"
    using as_loop.whole_loop [OF l(7), of "''action/server''"] by (auto simp: e sub pub ss sc)
  obtain acc where acc: "c8 = c7\<lparr>gc_actionClient := acc\<rparr>" "ac_loop.added c7 acc"
    and acc_n: "\<And>n. for_each (count_own_thread env ''action/client'') (p_action_client p) n
      = Inr (n + int (length (filter sa_useOwnThread acc)))"
    using ac_loop.whole_loop [OF l(8), of "''action/client''"] by (auto simp: e sub pub ss sc acs)
  note added = sub(2) [unfolded sub_loop.added_def] pub(2) [unfolded pub_loop.added_def]
    ss(2) [unfolded ss_loop.added_def] sc(2) [unfolded sc_loop.added_def]
    acs(2) [unfolded as_loop.added_def] acc(2) [unfolded ac_loop.added_def]
  have "evalNrOfMultiThreadedExecutorThreads env p
      = 4 + int (length (filter tp_useOwnThread sub))
        + int (length (filter sa_useOwnThread (ss @ sc @ acs @ acc)))
        + (if p_clock_publish p then 1 else 0) + (if p_tf_publish p then 1 else 0)
        + (if p_tf_subscribe p then 1 else 0)"
    by (simp add: evalNrOfMultiThreadedExecutorThreads_def sub_n ss_n sc_n acs_n acc_n)
  moreover have "entities_ok c8"
    using added by (auto simp: entities_ok_def e sub(1) pub(1) ss(1) sc(1) acs(1) acc(1))
  ultimately have "loops_ok env p c8"
    using added q r by (auto simp: loops_ok_def e sub(1) pub(1) ss(1) sc(1) acs(1) acc(1))
  moreover have "publishTf c8 = p_tf_publish p" "subscribeTf c8 = p_tf_subscribe p"
    "publishClock c8 = p_clock_publish p"
    by (simp_all add: c1 c2 sub(1) pub(1) ss(1) sc(1) acs(1) acc(1) retrieve_parameters_def)
  ultimately show ?thesis using fin by blast
qed

section \<open>Pre-defined topics and final checks\<close>

lemma predefined_simps [simp]:
  "tp_channel (predefined_publisher op topic type q) = opcode op"
  "tp_useOwnThread (predefined_publisher op topic type q)"
  by (simp_all add: predefined_publisher_def)

lemma add_predefined_frame:
  "gc_qos (add_predefined cfg) = gc_qos cfg" "gc_compression (add_predefined cfg) = gc_compression cfg"
  "gc_serviceServer (add_predefined cfg) = gc_serviceServer cfg"
  "gc_serviceClient (add_predefined cfg) = gc_serviceClient cfg"
  "gc_actionServer (add_predefined cfg) = gc_actionServer cfg"
  "gc_actionClient (add_predefined cfg) = gc_actionClient cfg"
  "publishTf (add_predefined cfg) = publishTf cfg" "subscribeTf (add_predefined cfg) = subscribeTf cfg"
  "publishClock (add_predefined cfg) = publishClock cfg"
  "subscribeClock (add_predefined cfg) = subscribeClock cfg"
  "fragmentationSize (add_predefined cfg) = fragmentationSize cfg"
  "authenticationTimeout (add_predefined cfg) = authenticationTimeout cfg"
  "authenticationOmit (add_predefined cfg) = authenticationOmit cfg"
  "authenticationPlugin (add_predefined cfg) = authenticationPlugin cfg"
  by (simp_all add: add_predefined_def Let_def)

lemma add_predefined_profiles [simp]:
  "user_topic (add_predefined cfg) = user_topic cfg"
  "user_entity (add_predefined cfg) = user_entity cfg"
  "qos_ok (add_predefined cfg) = qos_ok cfg"
  "rates_ok env (add_predefined cfg) = rates_ok env cfg"
  by (simp_all add: user_topic_def user_entity_def qos_ok_def rates_ok_def
      fun_eq_iff add_predefined_frame)

lemma entities_ok_add_predefined [simp]: "entities_ok (add_predefined cfg) = entities_ok cfg"
  unfolding entities_ok_def add_predefined_profiles add_predefined_frame ..

lemma add_predefined_topics:
  "gc_subscriber (add_predefined cfg) = gc_subscriber cfg @
     (if subscribeTf cfg
      then [predefined_publisher TF ''/tf'' ''tf2_msgs/msg/TFMessage'' CLOCK_AND_TF_QOS,
            predefined_publisher TF_STATIC ''/tf_static'' ''tf2_msgs/msg/TFMessage'' TF_STATIC_QOS]
      else [])"
  "gc_publisher (add_predefined cfg) = gc_publisher cfg @
     (if publishClock cfg
      then [predefined_publisher CLOCK ''/clock'' ''rosgraph_msgs/msg/Clock'' CLOCK_AND_TF_QOS] else [])
     @ (if publishTf cfg
      then [predefined_publisher TF ''/tf'' ''tf2_msgs/msg/TFMessage'' CLOCK_AND_TF_QOS,
            predefined_publisher TF_STATIC ''/tf_static'' ''tf2_msgs/msg/TFMessage'' TF_STATIC_QOS]
      else [])"
  by (simp_all add: add_predefined_def Let_def)

lemma user_topic_channel: "user_topic cfg t \<Longrightarrow> tp_channel t \<noteq> opcode op"
  using opcode_reserved [of op] by (auto simp: user_topic_def)

lemma topics_ok_add_predefined:
  assumes "list_all (user_topic cfg) (gc_subscriber cfg @ gc_publisher cfg)"
    and "distinct (map tp_channel (gc_subscriber cfg @ gc_publisher cfg))"
    and "\<not> (publishTf cfg \<and> subscribeTf cfg)"
  shows "topics_ok (add_predefined cfg)"
proof -
  have user: "user_topic cfg t" if "t \<in> set (gc_subscriber cfg) \<or> t \<in> set (gc_publisher cfg)" for t
    using that assms(1) by (auto simp: list_all_iff)
  have ne: "t \<in> set (gc_subscriber cfg) \<Longrightarrow> tp_channel t \<noteq> opcode op \<and> opcode op \<noteq> tp_channel t"
    "t \<in> set (gc_publisher cfg) \<Longrightarrow> tp_channel t \<noteq> opcode op \<and> opcode op \<noteq> tp_channel t" for t op
    using user user_topic_channel [of cfg t op] by metis+
  have "distinct (map tp_channel (gc_subscriber (add_predefined cfg) @ gc_publisher (add_predefined cfg)))"
    using assms(2,3) by (auto simp: add_predefined_topics simp del: opcode.simps dest: ne)
  moreover have "list_all (\<lambda>t. user_topic cfg t \<or> predefined_topic t)
      (gc_subscriber (add_predefined cfg) @ gc_publisher (add_predefined cfg))"
    using assms(1) by (auto simp: add_predefined_topics list_all_iff predefined_topic_def)
  ultimately show ?thesis by (simp add: topics_ok_def)
qed

lemma check_authentication_Inr:
  "check_authentication env cfg = Inr cfg' \<longleftrightarrow> cfg' = cfg \<and> authentication_ok env cfg"
  by (auto simp: check_authentication_def authentication_ok_def word_neq_0_conv split: if_splits)

lemma finish_initialization_Inr:
  "finish_initialization env authentication cfg = Inr cfg' \<longleftrightarrow>
     cfg' = add_predefined cfg \<and> \<not> (publishTf cfg \<and> subscribeTf cfg)
     \<and> \<not> (publishClock cfg \<and> subscribeClock cfg) \<and> 8 \<le> fragmentationSize cfg
     \<and> (authentication \<longrightarrow> authentication_ok env (add_predefined cfg))"
  by (auto simp: finish_initialization_def Let_def check_authentication_Inr add_predefined_frame not_less
      simp del: append.simps)

lemma own_threads_add_predefined:
  assumes "list_all (user_topic cfg) (gc_subscriber cfg)"
  shows "own_threads (add_predefined cfg) =
    length (filter tp_useOwnThread (gc_subscriber cfg))
    + length (filter sa_useOwnThread (gc_serviceServer cfg @ gc_serviceClient cfg
        @ gc_actionServer cfg @ gc_actionClient cfg))"
proof -
  have "filter (\<lambda>t. tp_useOwnThread t \<and> tp_channel t < OP_CODE_MIN) (gc_subscriber cfg)
      = filter tp_useOwnThread (gc_subscriber cfg)"
    using assms by (auto intro!: filter_cong simp: list_all_iff user_topic_def)
  moreover have "\<not> opcode op < OP_CODE_MIN" for op
    using opcode_reserved [of op] by (simp add: not_less)
  ultimately show ?thesis
    by (simp add: own_threads_def add_predefined_frame add_predefined_topics del: opcode.simps)
qed

lemma init_cases:
  assumes "init env name namespace authentication p initial_config = Some cfg"
  shows "\<exists>base. finish_initialization env authentication base = Inr cfg \<and> loops_ok env p base
    \<and> publishTf base = p_tf_publish p \<and> subscribeTf base = p_tf_subscribe p
    \<and> publishClock base = p_clock_publish p"
proof -
  obtain cfg0 where "initializeParameters env authentication p cfg0 = Inr cfg" and "blank cfg0"
    using assms
    by (auto simp: init_def resolveDomain_def blank_def initial_config_def
        split: option.splits sum.splits)
  then show ?thesis by (rule initializeParameters_loops)
qed

lemma for_each_omit:
  assumes "for_each f xs (k, c) = Inr (k', c')"
    and "\<And>k c s k' c'. f (k, c) s = Inr (k', c') \<Longrightarrow> authenticationOmit c' = authenticationOmit c"
  shows "authenticationOmit c' = authenticationOmit c"
  using assms(1)
proof (induction xs arbitrary: k c)
  case (Cons x xs)
  then obtain k1 c1 where "f (k, c) x = Inr (k1, c1)" "for_each f xs (k1, c1) = Inr (k', c')"
    by auto
  with Cons.IH assms(2) show ?case by metis
qed simp

lemma add_keeps_omit:
  "add_qos env (k, c) s = Inr (k', c') \<Longrightarrow> authenticationOmit c' = authenticationOmit c"
  "add_compression env (k, c) s = Inr (k', c') \<Longrightarrow> authenticationOmit c' = authenticationOmit c"
  "add_subscriber env (k, c) s = Inr (k', c') \<Longrightarrow> authenticationOmit c' = authenticationOmit c"
  "add_publisher env (k, c) s = Inr (k', c') \<Longrightarrow> authenticationOmit c' = authenticationOmit c"
  "add_service_server env (k, c) s = Inr (k', c') \<Longrightarrow> authenticationOmit c' = authenticationOmit c"
  "add_service_client env (k, c) s = Inr (k', c') \<Longrightarrow> authenticationOmit c' = authenticationOmit c"
  "add_action_server env (k, c) s = Inr (k', c') \<Longrightarrow> authenticationOmit c' = authenticationOmit c"
  "add_action_client env (k, c) s = Inr (k', c') \<Longrightarrow> authenticationOmit c' = authenticationOmit c"
  by (auto simp: add_qos_def add_compression_def add_subscriber_def add_publisher_def
      add_service_server_def add_service_client_def add_action_server_def add_action_client_def)

lemma init_omit:
  assumes "init env name namespace authentication p initial_config = Some cfg"
  shows "authenticationOmit cfg = p_authentication_omit p"
proof -
  obtain cfg0 where "initializeParameters env authentication p cfg0 = Inr cfg"
    using assms by (auto simp: init_def split: option.splits sum.splits)
  then obtain k1 c1 k2 c2 k3 c3 k4 c4 k5 c5 k6 c6 k7 c7 k8 c8 where
      l: "for_each (add_qos env) (p_qos p) ([], retrieve_parameters p cfg0) = Inr (k1, c1)"
        "for_each (add_compression env) (p_compression p) ([], c1) = Inr (k2, c2)"
        "for_each (add_subscriber env) (p_subscriber p) ([], c2) = Inr (k3, c3)"
        "for_each (add_publisher env) (p_publisher p) ([], c3) = Inr (k4, c4)"
        "for_each (add_service_server env) (p_service_server p) ([], c4) = Inr (k5, c5)"
        "for_each (add_service_client env) (p_service_client p) ([], c5) = Inr (k6, c6)"
        "for_each (add_action_server env) (p_action_server p) ([], c6) = Inr (k7, c7)"
        "for_each (add_action_client env) (p_action_client p) ([], c7) = Inr (k8, c8)"
    and fin: "finish_initialization env authentication c8 = Inr cfg"
    by (auto simp: initializeParameters_def Let_def)
  have "authenticationOmit c8 = authenticationOmit (retrieve_parameters p cfg0)"
    by (simp only: for_each_omit [OF l(1) add_keeps_omit(1)]
        for_each_omit [OF l(2) add_keeps_omit(2)]
        for_each_omit [OF l(3) add_keeps_omit(3)]
        for_each_omit [OF l(4) add_keeps_omit(4)]
        for_each_omit [OF l(5) add_keeps_omit(5)]
        for_each_omit [OF l(6) add_keeps_omit(6)]
        for_each_omit [OF l(7) add_keeps_omit(7)]
        for_each_omit [OF l(8) add_keeps_omit(8)])
  then show ?thesis
    using fin by (auto simp: finish_initialization_Inr add_predefined_frame retrieve_parameters_def)
qed

end
