(* ===== verification/ConfigExample.thy ===== *)
theory ConfigExample
  imports ConfigCorrect
begin

text \<open>
  A concrete environment and a concrete parameter set on which the theorems of the initialization
  are applied: one quality-of-service definition, two compression profiles, two subscribers (one
  compressed with its own thread), one publisher, a service on each side and the tf subscription.
\<close>

definition example_json :: "string \<Rightarrow> json throws" where
  "example_json s =
     (if s = ''qos 1''
      then Inr (JObject [(''id'', JInt 1), (''history'', JString ''RMW_QOS_POLICY_HISTORY_KEEP_LAST''),
        (''depth'', JInt 10), (''reliability'', JString ''RMW_QOS_POLICY_RELIABILITY_RELIABLE''),
        (''durability'', JString ''RMW_QOS_POLICY_DURABILITY_VOLATILE''),
        (''deadline'', JString ''{ 1u, 500UL }'')])
      else if s = ''none''
      then Inr (JObject [(''id'', JInt 0), (''compressor'', JString ''NONE''), (''rate'', JInt 0)])
      else if s = ''zlib''
      then Inr (JObject [(''id'', JInt 3), (''compressor'', JString ''ZLIB''), (''rate'', JInt 9)])
      else if s = ''sub 10''
      then Inr (JObject [(''channel'', JInt 10), (''topic'', JString ''/scan''), (''type'', JString ''LaserScan''),
        (''useOwnThread'', JBool True), (''permanent'', JBool False), (''qos'', JInt 1), (''compression'', JInt 3)])
      else if s = ''sub 11''
      then Inr (JObject [(''channel'', JInt 11), (''topic'', JString ''/odom''), (''type'', JString ''Odometry''),
        (''useOwnThread'', JBool False), (''permanent'', JBool True), (''qos'', JInt 257), (''compression'', JInt 0)])
      else if s = ''pub 12''
      then Inr (JObject [(''channel'', JInt 12), (''topic'', JString ''/cmd''), (''type'', JString ''Twist''),
        (''useOwnThread'', JBool True), (''qos'', JInt 1)])
      else if s = ''server 5''
      then Inr (JObject [(''channel'', JInt 5), (''type'', JString ''AddTwoInts''), (''maxExecTime'', JInt 500),
        (''useOwnThread'', JBool True), (''allowSimultaneous'', JBool True), (''service-qos'', JInt 1),
        (''compression'', JInt 3)])
      else if s = ''client 6''
      then Inr (JObject [(''channel'', JInt 6), (''type'', JString ''AddTwoInts''),
        (''useOwnThread'', JBool False), (''allowSimultaneous'', JBool False), (''service-qos'', JInt 1),
        (''compression'', JInt 0)])
      else Inl ''syntax error'')"

definition example_env :: env where
  "example_env =
     \<lparr>json_parse = example_json, create_generic_subscription = (\<lambda>_. Inr ()),
      create_generic_publisher = (\<lambda>_. Inr ()), test_service_server = (\<lambda>_. Inr ()),
      test_service_client = (\<lambda>_. Inr ()), test_action_server = (\<lambda>_. Inr ()),
      test_action_client = (\<lambda>_. Inr ()), load_authentication = (\<lambda>_. Inr ()),
      get_domain_id = Some 0, LZ4HC_CLEVEL_MAX = 12, Z_BEST_SPEED = 1, Z_BEST_COMPRESSION = 9\<rparr>"

definition example_parameters :: parameters where
  "example_parameters =
     \<lparr>p_host = ''127.0.0.1'', p_port = ''9090'', p_path = ''/'', p_ssl = False,
      p_authentication_host = ''127.0.0.1'', p_authentication_port = ''8080'',
      p_authentication_ssl = False, p_authentication_plugin = ''connect::Backend'',
      p_authentication_endpoint = ''/'', p_authentication_omit = False,
      p_authentication_timeout = 10, p_fragmentation_enable = True, p_fragmentation_size = 4096,
      p_max_message_size = 16777216, p_publish_status = False, p_user_key = [],
      p_clock_subscribe = False, p_clock_publish = True, p_tf_subscribe = True, p_tf_publish = False,
      p_subscriber = [''sub 10'', ''sub 11''], p_publisher = [''pub 12''],
      p_service_server = [''server 5''], p_service_client = [''client 6''],
      p_action_server = [], p_action_client = [], p_qos = [''qos 1''],
      p_compression = [''none'', ''zlib'']\<rparr>"

text \<open>The texts of the example, parsed one by one.\<close>

lemmas example_eval =
  example_env_def example_json_def Let_def need_object_def jget_def need_int_def need_string_def
  need_bool_def find_profile_def throw_first.simps
  channel_range_check_def reserved_channel_check_def known_channel_check_def
  predefined_topic_checks_def OP_CODE_MIN_def

lemma example_time: "match_rmw_time ''{ 1u, 500UL }'' = Some (''1'', ''500'')"
  by code_simp

lemma example_deadline: "deadlinePolicy ''{ 1u, 500UL }'' = Inr (RMW_TIME 1 500)"
  by (simp add: deadlinePolicy_def parseRmwTime_def example_time stoll_def stoull_def nat_of_digits_def
      expect_def)

definition example_qos :: rmw_qos_profile where
  "example_qos = \<lparr>history = HISTORY_KEEP_LAST, depth = 10, reliability = RELIABILITY_RELIABLE,
     durability = DURABILITY_VOLATILE, deadline = RMW_TIME 1 500, lifespan = RMW_TIME_DEFAULT,
     liveliness = LIVELINESS_SYSTEM_DEFAULT, liveliness_lease_duration = RMW_TIME_DEFAULT,
     avoid_ros_namespace_conventions = False\<rparr>"

lemma example_parse_qos: "parse_qos example_env [] ''qos 1'' = Inr (1, example_qos)"
  by (simp add: parse_qos_def example_eval historyPolicy_def reliabilityPolicy_def durabilityPolicy_def
      optional_policy_def example_deadline id_checks_def example_qos_def)

definition example_none :: compression_t where
  "example_none = \<lparr>compressor_of_profile = NONE, rate = 0\<rparr>"

definition example_zlib :: compression_t where
  "example_zlib = \<lparr>compressor_of_profile = ZLIB, rate = 9\<rparr>"

lemma example_parse_compression:
  "parse_compression example_env [] ''none'' = Inr (0, example_none)"
  "parse_compression example_env [0] ''zlib'' = Inr (3, example_zlib)"
  by (simp_all add: parse_compression_def example_eval compressor_parse_def rate_out_of_range_def
      id_checks_def example_none_def example_zlib_def)

lemma byte_257: "(257 :: byte) = 1"
  by simp

lemma example_parse_subscriber:
  assumes "gc_qos cfg 1 = Some q" "gc_compression cfg 0 = Some example_none"
    "gc_compression cfg 3 = Some example_zlib"
  shows "parse_subscriber example_env [] cfg ''sub 10'' = Inr
      \<lparr>tp_channel = 10, tp_topic = ''/scan'', tp_type = ''LaserScan'', tp_useOwnThread = True,
       tp_permanent = False, tp_qos = Some q, tp_compression = example_zlib\<rparr>"
    and "parse_subscriber example_env [10] cfg ''sub 11'' = Inr
      \<lparr>tp_channel = 11, tp_topic = ''/odom'', tp_type = ''Odometry'', tp_useOwnThread = False,
       tp_permanent = True, tp_qos = Some q, tp_compression = example_none\<rparr>"
  using assms
  by (simp_all add: parse_subscriber_def example_eval example_none_def byte_257)

lemma example_parse_publisher:
  assumes "gc_qos cfg 1 = Some q" and "map tp_channel (gc_subscriber cfg) = [10, 11]"
  shows "parse_publisher example_env [] cfg ''pub 12'' = Inr
      \<lparr>tp_channel = 12, tp_topic = ''/cmd'', tp_type = ''Twist'', tp_useOwnThread = True,
       tp_permanent = True, tp_qos = Some q, tp_compression = DEFAULT_COMPRESSION_PROFILE\<rparr>"
proof -
  have "\<not> list_ex (\<lambda>sub. uint (tp_channel sub) = 12) (gc_subscriber cfg)"
    using assms(2) by (cases "gc_subscriber cfg"; cases "tl (gc_subscriber cfg)") auto
  then show ?thesis using assms(1) by (simp add: parse_publisher_def example_eval)
qed

lemma example_parse_services:
  assumes "gc_qos cfg 1 = Some q" "gc_compression cfg 0 = Some example_none"
    "gc_compression cfg 3 = Some example_zlib"
  shows "parse_service_server example_env [] cfg ''server 5'' = Inr
      \<lparr>sa_def_channel = 5, sa_def_type = ''AddTwoInts'', sa_useOwnThread = True, sa_allowSimultaneous = True,
       sa_serviceQos = q, sa_feedbackQos = q, sa_statusQos = q, sa_resultTimeout = 0,
       sa_maxExecTime = 500, sa_compression = example_zlib\<rparr>"
    and "map sa_def_channel (gc_serviceServer cfg) = [5] \<Longrightarrow>
      parse_service_client example_env [] cfg ''client 6'' = Inr
      \<lparr>sa_def_channel = 6, sa_def_type = ''AddTwoInts'', sa_useOwnThread = False, sa_allowSimultaneous = False,
       sa_serviceQos = q, sa_feedbackQos = q, sa_statusQos = q, sa_resultTimeout = 0,
       sa_maxExecTime = 0, sa_compression = example_none\<rparr>"
  using assms
  by (auto simp: parse_service_server_def parse_service_client_def example_eval example_none_def)

lemmas example_steps =
  add_qos_def add_compression_def add_subscriber_def add_publisher_def add_service_server_def
  add_service_client_def caught_def map_insert_def example_parse_qos example_parse_compression
  example_parse_subscriber example_parse_publisher example_parse_services

lemma example_initialize:
  assumes "blank cfg"
  shows "\<exists>cfg'. initializeParameters example_env a example_parameters cfg = Inr cfg'"
  using assms
  by (cases a)
    (simp_all add: initializeParameters_def retrieve_parameters_def example_parameters_def blank_def
      example_steps finish_initialization_Inr authentication_ok_def add_predefined_frame
      word_le_def word_less_def Let_def, simp_all add: example_env_def)

lemma example_init_node:
  "\<exists>cfg. init example_env name namespace a example_parameters initial_config = Some cfg"
proof -
  have "blank (initial_config\<lparr>nodeName := name, nodeNamespace := namespace, nodeDomainId := 0\<rparr>)"
    by (simp add: blank_def initial_config_def)
  from example_initialize [OF this, of a] show ?thesis
    by (fastforce simp: init_def resolveDomain_def example_env_def split: sum.split)
qed

lemma example_init:
  "\<exists>cfg. init example_env ''connect_server'' ''/'' True example_parameters initial_config = Some cfg"
  by (rule example_init_node)

lemma example_threads: "evalNrOfMultiThreadedExecutorThreads example_env example_parameters = 8"
  by code_simp

end
