(* ===== verification/PluginExample.thy ===== *)
theory PluginExample
  imports PluginFlow ConfigExample
begin

text \<open>
  Runs of the plugins from their initial states: a call of a service that gets its response, a goal
  that gets its result.
\<close>

section \<open>Initial states\<close>

definition example_service :: Service_Action_t where
  "example_service = \<lparr>sa_def_channel = 5, sa_def_type = ''std_srvs/Trigger'', sa_useOwnThread = True,
     sa_allowSimultaneous = True, sa_serviceQos = example_qos, sa_feedbackQos = example_qos,
     sa_statusQos = example_qos, sa_resultTimeout = 10, sa_maxExecTime = 5, sa_compression = example_zlib\<rparr>"

lemma init_lookup [simp]:
  "lookup gid (service_server_init d) = None" "lookup gid (service_client_init d err n dyn) = None"
  "lookup gid (action_server_init d) = None" "lookup gid (action_client_init d n dyn) = None"
  by (simp_all add: lookup_def service_server_init_def service_client_init_def action_server_init_def
      action_client_init_def plugin_state.extend_def plugin_init_def)

lemma init_simps [simp]:
  "\<not> p_stopping (service_server_init d)" "\<not> p_stopping (service_client_init d err n dyn)"
  "\<not> p_stopping (action_server_init d)" "\<not> p_stopping (action_client_init d n dyn)"
  "heap (service_server_init d) = []" "heap (service_client_init d err n dyn) = []"
  "heap (action_server_init d) = []" "heap (action_client_init d n dyn) = []"
  "calls (service_server_init d) = []" "goals (action_server_init d) = []"
  "sc_dynamicSize (service_client_init d err n dyn) = dyn" "ac_dynamicSize (action_client_init d n dyn) = dyn"
  "sent (service_client_init d err n dyn) = []" "sent (action_client_init d n dyn) = []"
  by (simp_all add: service_server_init_def service_client_init_def action_server_init_def
      action_client_init_def plugin_state.extend_def plugin_init_def)

section \<open>A service call\<close>

lemma example_call:
  assumes "codecs_ok c" and "copy_ok mcpy"
  shows "\<exists>s. (ss_step mcpy c)\<^sup>*\<^sup>* (service_server_init d) s \<and> pc_of 0 s = Some (Returned 0)"
    and "\<exists>t. (sc_step mcpy c)\<^sup>*\<^sup>* (service_client_init d err n True) t
      \<and> sent t = [(Some 0, SERVICE_TO_SERVER, [7], [1])] \<and> 0 < length (heap t)"
proof -
  have gid: "length [1 :: byte] < 256" "[1 :: byte] \<noteq> []" by simp_all
  let ?s = "service_server_init d" and ?t = "service_client_init d err n True"
  from service_call [OF assms gid, where s = ?s and t = ?t and data = "[]" and resp = "[7]" and n = 0 and dyn = True
      and seq = 0 and i = 1 and d = d and d' = d] ss_inv_init sc_inv_init
  obtain s1 m t m' s where s1: "ss_post 0 (ss_begin [1] 0 [] 0 True (service_server_init d)) = Some s1"
    and m: "arrives mcpy c d SERVICE_TO_CLIENT [] [1] m"
      "client_serves mcpy c 1 [7] m (service_client_init d err n True) = Some t"
      "sent t = [(Some 0, SERVICE_TO_SERVER, [7], [1])]"
    and m': "arrives mcpy c d SERVICE_TO_SERVER [7] [1] m'" "server_receives mcpy c 0 m' s1 = Some s"
      "pc_of 0 s = Some (Returned 0)"
    by auto
  have "(ss_step mcpy c)\<^sup>*\<^sup>* (service_server_init d) s1"
    using ss_step.request ss_step.post [OF s1] by (rule two_steps [where R = "ss_step mcpy c"])
  then show "\<exists>s. (ss_step mcpy c)\<^sup>*\<^sup>* (service_server_init d) s \<and> pc_of 0 s = Some (Returned 0)"
    using server_receives_steps [OF m'(1,2)] m'(3) by (blast intro: rtranclp_trans)
  have run: "(sc_step mcpy c)\<^sup>*\<^sup>* (service_client_init d err n True) t" by (rule client_serves_steps [OF m(1,2)])
  have "sc_inv mcpy t" by (rule sc_reachable_inv [OF run assms(2)])
  have "0 < length (heap t)"
    using sc_invD(3) [OF \<open>sc_inv mcpy t\<close>] m(3) by (auto simp: sent_ok_def)
  with run m(3) show "\<exists>t. (sc_step mcpy c)\<^sup>*\<^sup>* (service_client_init d err n True) t
      \<and> sent t = [(Some 0, SERVICE_TO_SERVER, [7], [1])] \<and> 0 < length (heap t)" by blast
qed

section \<open>A goal\<close>

text \<open>The run of the server side from the local request up to the message with the result.\<close>

definition example_goal :: "sa_message \<Rightarrow> sa_message \<Rightarrow> action_server \<Rightarrow> action_server option" where
  "example_goal accept result s = do {
     s \<leftarrow> goal_post 0 (goal_begin [1] [] s);
     s \<leftarrow> server_learns 0 accept s;
     s \<leftarrow> handleAccepted 0 s;
     s \<leftarrow> run_loop 0 s;
     s \<leftarrow> as_handle result s;
     run_wake True 0 s
   }"

lemma example_goal_runs:
  assumes "getGID m1 = Some [1]" "sa_opcode m1 = ACTION_TO_SERVER_GOAL_ACCEPT"
    and "getGID m2 = Some [1]" "sa_opcode m2 = ACTION_TO_SERVER_RESULT_SUCCEEDED"
  shows "\<exists>s. example_goal m1 m2 (action_server_init d) = Some s \<and> run_of 0 s = Some (Handling m2)
    \<and> queued_for 0 s = [m2] \<and> outcomes_of 0 s = [] \<and> \<not> p_stopping s"
  using assms
  by (simp add: example_goal_def server_learns_def goal_begin_def goal_post_def goal_of_def goal_check_def
      goal_wake_def handleAccepted_def run_loop_def run_of_def as_handle_def run_wake_def Let_def
      isServiceActionOpCode_def getGIDString_eq lookup_def register_def map_insert_new_def upd_def p_send_def
      set_goal_def set_run_def action_server_init_def plugin_state.extend_def plugin_init_def
      queued_for_def outcomes_of_def)

lemmas example_defs = server_learns_def goal_begin_def goal_post_def goal_of_def goal_check_def
  goal_wake_def handleAccepted_def run_loop_def run_of_def as_handle_def run_wake_def Let_def
  isServiceActionOpCode_def getGIDString_eq lookup_def register_def map_insert_new_def upd_def p_send_def
  set_goal_def set_run_def action_server_init_def plugin_state.extend_def plugin_init_def
  queued_for_def outcomes_of_def

lemma example_goal_steps:
  assumes "arrives mcpy c d1 sop1 data1 gid1 m1" and "arrives mcpy c d2 sop2 data2 gid2 m2"
    and "example_goal m1 m2 s = Some t"
  shows "(as_step mcpy c)\<^sup>*\<^sup>* s t"
proof -
  obtain s1 s2 s3 s4 s5 where s: "goal_post 0 (goal_begin [1] [] s) = Some s1" "server_learns 0 m1 s1 = Some s2"
    "handleAccepted 0 s2 = Some s3" "run_loop 0 s3 = Some s4" "as_handle m2 s4 = Some s5" "run_wake True 0 s5 = Some t"
    using assms(3) by (auto simp: example_goal_def bind_eq_Some_conv)
  obtain x where "fromMessage rcl_ops x = Some (Some m2)" using assms(2) by (auto simp: arrives_def)
  then have 5: "as_step mcpy c s4 s5" using s(5) by (blast intro: as_step.intros)
  have "as_step mcpy c s (goal_begin [1] [] s)" "as_step mcpy c (goal_begin [1] [] s) s1"
    using s(1) by (blast intro: as_step.intros)+
  then have 1: "(as_step mcpy c)\<^sup>*\<^sup>* s s1"
    by (rule two_steps [where R = "as_step mcpy c"])
  have 3: "(as_step mcpy c)\<^sup>*\<^sup>* s2 s5"
    using as_step.accepted [OF s(3)] as_step.loop [OF s(4)] 5 by (rule three_steps [where R = "as_step mcpy c"])
  have "as_step mcpy c s5 t" using s(6) by (blast intro: as_step.intros)
  with rtranclp_trans [OF 1 rtranclp_trans [OF server_learns_steps [OF assms(1) s(2)] 3]]
  show ?thesis by (rule rtranclp.rtrancl_into_rtrancl)
qed

lemma example_result:
  assumes net: "codecs_ok c" "copy_ok mcpy"
  shows "\<exists>s m. arrives mcpy c d ACTION_TO_SERVER_RESULT_SUCCEEDED [9] [1] m
    \<and> (as_step mcpy c)\<^sup>*\<^sup>* (action_server_init d) s \<and> run_of 0 s = Some Joined \<and> queued_for 0 s = [m]
    \<and> \<not> p_stopping s"
proof -
  have gid: "length [1 :: byte] < 256" "[1 :: byte] \<noteq> []" by simp_all
  note net' = net gid
  obtain m1 where m1: "arrives mcpy c d ACTION_TO_SERVER_GOAL_ACCEPT [] [1] m1"
    using plugin_frame_delivered(1) [OF net'] by blast
  obtain m2 where m2: "arrives mcpy c d ACTION_TO_SERVER_RESULT_SUCCEEDED [9] [1] m2"
    using plugin_frame_delivered(1) [OF net'] by blast
  note A1 = arrives_sent(1,2) [OF net' m1] and A2 = arrives_sent(1,2,3) [OF net' m2]
  obtain s where s: "example_goal m1 m2 (action_server_init d) = Some s" "run_of 0 s = Some (Handling m2)"
    "queued_for 0 s = [m2]" "outcomes_of 0 s = []" "\<not> p_stopping s"
    using example_goal_runs [OF A1(2,1) A2(2,1), of d] by blast
  let ?t = "run_result 0 (Succeed [9]) s"
  have t: "run_process mcpy c 0 s = Some ?t"
    using run_process_reaction [OF A2(3) s(2), of c] reaction_arrives [OF net' m2] by simp
  have "(as_step mcpy c)\<^sup>*\<^sup>* (action_server_init d) ?t"
    using example_goal_steps [OF m1 m2 s(1)] as_step.execute [OF t] by (rule rtranclp.rtrancl_into_rtrancl)
  moreover have "run_of 0 ?t = Some Joined" "queued_for 0 ?t = [m2]" "\<not> p_stopping ?t"
    using s by (auto simp: run_of_def queued_for_def split: if_splits)
  ultimately show ?thesis using m2 by blast
qed

text \<open>
  A cancel request whose answer arrives together with the result: when \<open>sendCancelAndWait\<close> wakes up,
  the handle it refers to has been erased from the map.
\<close>

definition example_cancel ::
    "copy_fun \<Rightarrow> codecs \<Rightarrow> sa_message \<Rightarrow> sa_message \<Rightarrow> sa_message \<Rightarrow> action_server \<Rightarrow> action_server option" where
  "example_cancel mcpy c accept cancel result s = do {
     s \<leftarrow> goal_post 0 (goal_begin [1] [] s);
     s \<leftarrow> server_learns 0 accept s;
     s \<leftarrow> handleAccepted 0 s;
     s \<leftarrow> run_loop 0 s;
     s \<leftarrow> cancel_post 0 (cancel_begin [1] s);
     s \<leftarrow> cancel_check 0 s;
     s \<leftarrow> as_handle cancel s;
     s \<leftarrow> as_handle result s;
     s \<leftarrow> run_wake True 0 s;
     s \<leftarrow> run_process mcpy c 0 s;
     executeRemove (run_ended s) s
   }"

lemma cancel_after_erase:
  assumes "getGID m1 = Some [1]" "sa_opcode m1 = ACTION_TO_SERVER_GOAL_ACCEPT"
    and "getGID m2 = Some [1]" "sa_opcode m2 = ACTION_TO_SERVER_CANCEL_ACCEPT"
    and "getGID m3 = Some [1]" "sa_opcode m3 = ACTION_TO_SERVER_RESULT_CANCELED"
    and "\<not> isCompressed m3" "getData m3 = Some data"
  shows "\<exists>s. example_cancel mcpy c m1 m2 m3 (action_server_init d) = Some s
    \<and> cancel_awake False 0 s \<and> cancel_wake True 0 s = None"
  using assms
  by (simp add: example_cancel_def example_defs cancel_begin_def cancel_post_def cancel_check_def cancel_of_def
      run_process_def unpack_def executeRemove_def run_ended_def run_result_def run_finish_def emit_def
      removeHandle_def set_cancel_def cancel_awake_def cancel_wake_def map_erase_def)

end
