(* ===== verification/PluginSpec.thy ===== *)
theory PluginSpec
  imports PluginExample
begin

text \<open>
  The properties of the service and action plugins, each over the runs of a plugin from its initial
  state, in which every other thread may act between any two steps.
\<close>

section \<open>Handles\<close>



section \<open>Services\<close>



text \<open>
  C37. A second request of a writer whose handle is still registered is never answered: its handle is
  not inserted into the map, so in every later state its call still waits or has failed.
\<close>

theorem overlapping_request_unanswered:
  assumes "(ss_step mcpy c)\<^sup>*\<^sup>* (service_server_init d) s" and "copy_ok mcpy"
    and "lookup gid s = Some r0" and "\<not> p_stopping s"
    and "(ss_step mcpy c)\<^sup>*\<^sup>* (ss_begin gid seq data n dyn s) t"
  shows "\<exists>pc \<in> {Prepared (length (heap s)), Posted (length (heap s)), Waiting (length (heap s)), Failed}.
    pc_of (length (calls s)) t = Some pc \<and> goalResponse (heap t ! length (heap s)) = None"
proof -
  let ?b = "ss_begin gid seq data n dyn s" and ?k = "length (calls s)" and ?r = "length (heap s)"
  have inv: "ss_inv mcpy s" by (rule ss_reachable_inv [OF assms(1,2)])
  have "orphan ?k ?r ?b" using assms(4) by (simp add: orphan_def ss_begin_def Let_def)
  moreover have "r0 < ?r" using lookup_valid [OF ss_invD(1) [OF inv] assms(3)] by simp
  then have "lookup (gID (heap ?b ! ?r)) ?b \<noteq> Some ?r"
    using assms(3,4) lookup_register [of gid "new_handle gid seq" s] by (simp add: ss_begin_def Let_def lookup_def)
  ultimately have "orphan ?k ?r t"
    using orphan_forever [OF assms(2,5) ss_inv_begin [OF inv]] by blast
  then show ?thesis by (auto simp: orphan_def pc_of_def)
qed

theorem overlapping_request_unanswered_witness:
  "\<exists>pc \<in> {Prepared 1, Posted 1, Waiting 1, Failed}.
    pc_of 1 (ss_begin [1, 2] 8 [] 4 True (ss_begin [1, 2] 7 [] 4 True (service_server_init example_service))) = Some pc"
proof -
  let ?s = "ss_begin [1, 2] 7 [] 4 True (service_server_init example_service)"
  have run: "(ss_step memmove stored_codecs)\<^sup>*\<^sup>* (service_server_init example_service) ?s"
    by (rule r_into_rtranclp [where r = "ss_step memmove stored_codecs"]) (rule ss_step.request)
  have s: "lookup [1, 2] ?s = Some 0" "\<not> p_stopping ?s" "length (heap ?s) = 1" "length (calls ?s) = 1"
    by (simp_all add: ss_begin_def Let_def lookup_def register_def map_insert_new_def service_server_init_def
        plugin_state.extend_def plugin_init_def)
  from overlapping_request_unanswered [OF run copy_ok_memmove s(1,2) rtranclp.rtrancl_refl, of 8 "[]" 4 True]
  show ?thesis unfolding s(3,4) by blast
qed

text \<open>
  C16. The client side answers every request of the peer at most once, with the op-code of a response and
  the id of the request, whatever the interleaving of its thread with the callback of the response;
  and when the thread of a request has ended, the request was answered, cancelled by the peer, or the
  plugin is stopping.
\<close>

theorem service_client_answers_once:
  assumes "(sc_step mcpy c)\<^sup>*\<^sup>* (service_client_init d err n dyn) s" and "copy_ok mcpy" and "r < length (heap s)"
  shows "answers r s \<le> 1
    \<and> (\<forall>e \<in> set (sent s). fst e = Some r \<longrightarrow> fst (snd e) = SERVICE_TO_SERVER \<and> snd (snd (snd e)) = gID (heap s ! r))
    \<and> (exec_of r s = Some Ended \<longrightarrow> answers r s = 1 \<or> waitQueue (heap s ! r) \<noteq> [] \<or> p_stopping s)"
  by (rule sc_answers [OF sc_reachable_inv [OF assms(1,2)] assms(3)])

theorem service_client_answers_once_witness:
  "\<exists>s. sent s = [(Some 0, SERVICE_TO_SERVER, [7], [1])] \<and> answers 0 (s :: service_client) \<le> 1 \<and> gID (heap s ! 0) = [1]"
proof -
  obtain s where s: "(sc_step memmove stored_codecs)\<^sup>*\<^sup>* (service_client_init example_service [] 0 True) s"
    "sent s = [(Some 0, SERVICE_TO_SERVER, [7], [1])]" "0 < length (heap s)"
    using example_call(2) [OF stored_codecs_ok copy_ok_memmove] by blast
  from service_client_answers_once [OF s(1) copy_ok_memmove s(3)] s(2) show ?thesis by auto
qed





section \<open>Actions\<close>

text \<open>
  C7. What happens to the goal handle of a local action client is what the messages of the peer amount
  to: in every interleaving the calls on the handle are \<open>deliver\<close> of a prefix of the messages that
  were queued for it (feedback in order up to and including the first result), except that stopping
  may end it with one abort; at most one call ends the goal, and it is the last one; and a thread
  that has ended has ended its goal, unless the plugin is stopping.
\<close>

theorem action_goal_outcomes:
  assumes "(as_step mcpy c)\<^sup>*\<^sup>* (action_server_init d) s" and "copy_ok mcpy" and "r < length (heap s)"
  shows "(\<exists>seen rest. queued_for r s = seen @ rest \<and> (outcomes_of r s = deliver mcpy c seen
       \<or> p_stopping s \<and> list_all (\<lambda>x. \<not> final x) (deliver mcpy c seen) \<and> outcomes_of r s = deliver mcpy c seen @ [Abort []]))
    \<and> list_all (\<lambda>x. \<not> final x) (butlast (outcomes_of r s))
    \<and> (run_of r s = Some Joined \<longrightarrow> list_ex final (outcomes_of r s) \<or> p_stopping s)"
proof -
  have inv: "as_inv mcpy c s" by (rule as_reachable_inv [OF assms(1,2)])
  show ?thesis
    using as_outcomes [OF inv assms(3)] as_single_result [OF inv] as_result_when_ended [OF inv, of r] by blast
qed

theorem action_goal_outcomes_witness:
  "\<exists>s. run_of 0 s = Some Joined \<and> \<not> p_stopping s \<and> list_ex final (outcomes_of 0 s)"
proof -
  obtain s where s: "(as_step memmove stored_codecs)\<^sup>*\<^sup>* (action_server_init example_service) s"
    "run_of 0 s = Some Joined" "\<not> p_stopping s"
    using example_result [OF stored_codecs_ok copy_ok_memmove] by blast
  have "0 < length (heap s)"
    using as_invD(2) [OF as_reachable_inv [OF s(1) copy_ok_memmove]] s(2) by (simp add: run_of_Some)
  from action_goal_outcomes [OF s(1) copy_ok_memmove this] s(2,3) show ?thesis by blast
qed

text \<open>
  C3. An action from end to end: when the peer's callbacks emit feedback and then a result for a goal,
  and these travel as frames (under any compression profile) into the queue of the goal in this
  order, possibly followed by anything else, then the goal handle of the local client gets exactly the
  feedback in order and then the result, once its thread has ended and unless the plugin stops.
\<close>

theorem action_result_end_to_end:
  assumes net: "codecs_ok c" "copy_ok mcpy" "length gid < 256" "gid \<noteq> []"
    and run: "(as_step mcpy c)\<^sup>*\<^sup>* (action_server_init d) s" "run_of r s = Some Joined" "\<not> p_stopping s"
    and feedback: "list_all2 (\<lambda>x m. arrives mcpy c d' ACTION_TO_SERVER_FEEDBACK x gid m) data ms"
    and result: "arrives mcpy c d' sop res gid m" "outcome_of sop res = Some x" "final x"
    and queued: "queued_for r s = ms @ m # late"
  shows "outcomes_of r s = map Feedback data @ [x]"
proof -
  obtain seen rest where s: "queued_for r s = seen @ rest" "outcomes_of r s = deliver mcpy c seen"
    "list_ex final (outcomes_of r s)"
    using as_result_when_ended [OF as_reachable_inv [OF run(1) net(2)] run(2,3)] by blast
  then have "outcomes_of r s = deliver mcpy c (queued_for r s)" by (simp add: deliver_prefix)
  also have "\<dots> = map Feedback data @ [x]"
    unfolding queued by (rule deliver_arrives [OF net feedback result])
  finally show ?thesis .
qed

theorem action_result_end_to_end_witness:
  "\<exists>s. (as_step memmove stored_codecs)\<^sup>*\<^sup>* (action_server_init example_service) s \<and> outcomes_of 0 s = [Succeed [9]]"
proof -
  obtain s m where m: "arrives memmove stored_codecs example_service ACTION_TO_SERVER_RESULT_SUCCEEDED [9] [1] m"
    and s: "(as_step memmove stored_codecs)\<^sup>*\<^sup>* (action_server_init example_service) s"
    "run_of 0 s = Some Joined" "queued_for 0 s = [m]" "\<not> p_stopping s"
    using example_result [OF stored_codecs_ok copy_ok_memmove] by blast
  have q: "queued_for 0 s = [] @ m # []" using s(3) by simp
  have f: "list_all2 (\<lambda>x m. arrives memmove stored_codecs example_service ACTION_TO_SERVER_FEEDBACK x [1] m) [] []" by simp
  have "outcomes_of 0 s = map Feedback [] @ [Succeed [9]]"
    by (rule action_result_end_to_end [OF stored_codecs_ok copy_ok_memmove _ _ s(1,2,4) f m _ _ q]) simp_all
  with s(1) show ?thesis by auto
qed



text \<open>
  C32. The answer to a goal from end to end: a goal of a local client travels as a frame to the peer,
  whose action client passes it to the local action; whether that accepts or rejects the goal, the
  answer that travels back is the same, and the local goal is accepted. (\<open>goalRejected\<close> sends
  the op-code of an acceptance.)
\<close>

theorem rejected_goal_is_accepted:
  assumes net: "codecs_ok c" "copy_ok mcpy" "length gid < 256" "gid \<noteq> []"
    and server: "(as_step mcpy c)\<^sup>*\<^sup>* (action_server_init d) s" "lookup gid s = None" "\<not> p_stopping s"
    and client: "(ac_step mcpy c)\<^sup>*\<^sup>* (action_client_init d' n dyn) t" "lookup gid t = None" "\<not> p_stopping t"
    and fits: "ac_dynamicSize t \<or> length data = ac_expectedSize t"
  shows "\<exists>s1 m t' m' s'. goal_post (length (goals s)) (goal_begin gid data s) = Some s1
    \<and> last (sent s1) = (Some (length (heap s)), ACTION_TO_CLIENT_GOAL, data, gid)
    \<and> arrives mcpy c d ACTION_TO_CLIENT_GOAL data gid m
    \<and> client_asks mcpy c accepted m t = Some t' \<and> (ac_step mcpy c)\<^sup>*\<^sup>* t t'
    \<and> sent t' = sent t @ [(Some (length (heap t)), ACTION_TO_SERVER_GOAL_ACCEPT, [], gid)]
    \<and> arrives mcpy c d' ACTION_TO_SERVER_GOAL_ACCEPT [] gid m'
    \<and> server_learns (length (goals s)) m' s1 = Some s' \<and> (as_step mcpy c)\<^sup>*\<^sup>* s1 s'
    \<and> goal_of (length (goals s)) s' = Some G_accepted"
  using goal_answer [OF net as_reachable_inv [OF server(1) net(2)] server(2,3) ac_reachable_inv [OF client(1) net(2)]
      client(2,3) fits, of d accepted d'] client_asks_steps server_learns_steps
  by meson

theorem rejected_goal_is_accepted_witness:
  "\<exists>m t'. client_asks memmove stored_codecs False m (action_client_init example_service 1 False) = Some t'
     \<and> sent t' = [(Some 0, ACTION_TO_SERVER_GOAL_ACCEPT, [], [1, 2])]"
proof -
  have gid: "length [1, 2 :: byte] < 256" "[1, 2 :: byte] \<noteq> []" by simp_all
  let ?t = "action_client_init example_service 1 False"
  have "ac_dynamicSize ?t \<or> length [5 :: byte] = ac_expectedSize ?t"
    by (simp add: action_client_init_def plugin_state.extend_def plugin_init_def)
  from rejected_goal_is_accepted [OF stored_codecs_ok copy_ok_memmove gid rtranclp.rtrancl_refl init_lookup(3) init_simps(3)
      rtranclp.rtrancl_refl init_lookup(4) init_simps(4) this, where accepted = False and d = example_service]
  show ?thesis by auto
qed



end
