(* ===== verification/Worker.thy ===== *)
theory Worker
  imports Thread
begin

text \<open>
  The run loop that \<^verbatim>\<open>publisherManager.cpp\<close>, \<^verbatim>\<open>subscriberManager.cpp\<close>, \<^verbatim>\<open>serviceActionManager.cpp\<close>,
  \<^verbatim>\<open>threadedSubscriber.cpp\<close> and \<open>executeRemove\<close> of the plugins have in common: a thread that takes
  messages from a queue under a mutex and sleeps on a condition variable while there are none. Here
  the loop is taken apart into the steps between which another thread can act, so that lost
  wake-ups can be told from harmless interleavings.
\<close>

section \<open>The steps of the loop\<close>

text \<open>
  \<open>Head\<close> is the loop condition, \<open>Acquire\<close> the constructor of the lock, \<open>Test\<close> the predicate of
  \<open>wait\<close> and \<open>Block\<close> the moment after it was false: the mutex is still held. \<open>Asleep\<close> has released
  the mutex, \<open>Woken\<close> has been notified and needs it again. \<open>Taking\<close> follows \<open>wait\<close>, \<open>Busy\<close> is
  the part of the loop after \<open>unlock\<close>, and \<open>Left\<close> the end of \<open>run\<close>.
\<close>

datatype 'm worker_pc = Head | Acquire | Test | Block | Asleep | Woken | Taking | Busy 'm | Left

record 'm worker =
  w_pc :: "'m worker_pc"
  w_locked :: bool
  w_queue :: "'m list"
  w_stopping :: bool
  w_handled :: "'m list"

definition new_worker :: "'m worker" where
  "new_worker = \<lparr>w_pc = Head, w_locked = False, w_queue = [], w_stopping = False, w_handled = []\<rparr>"

text \<open>The next step of the thread; \<open>None\<close> while it has to wait for the mutex or sleeps, and at its end.\<close>

definition worker_next :: "'m worker \<Rightarrow> 'm worker option" where
  "worker_next w =
     (case w_pc w of
        Head \<Rightarrow> Some (if w_stopping w then w\<lparr>w_pc := Left\<rparr> else w\<lparr>w_pc := Acquire\<rparr>)
      | Acquire \<Rightarrow> if w_locked w then None else Some (w\<lparr>w_pc := Test, w_locked := True\<rparr>)
      | Test \<Rightarrow> Some (if w_queue w \<noteq> [] \<or> w_stopping w then w\<lparr>w_pc := Taking\<rparr> else w\<lparr>w_pc := Block\<rparr>)
      | Block \<Rightarrow> Some (w\<lparr>w_pc := Asleep, w_locked := False\<rparr>)
      | Asleep \<Rightarrow> None
      | Woken \<Rightarrow> if w_locked w then None else Some (w\<lparr>w_pc := Test, w_locked := True\<rparr>)
      | Taking \<Rightarrow> Some
          (if w_stopping w then w\<lparr>w_pc := Left, w_locked := False\<rparr>
           else case w_queue w of
             [] \<Rightarrow> w\<lparr>w_pc := Head, w_locked := False\<rparr>
           | m # ms \<Rightarrow> w\<lparr>w_pc := Busy m, w_queue := ms, w_locked := False\<rparr>)
      | Busy m \<Rightarrow> Some (w\<lparr>w_pc := Head, w_handled := w_handled w @ [m]\<rparr>)
      | Left \<Rightarrow> None)"

text \<open>What \<open>notify_all\<close> does to the only thread that waits.\<close>

definition notify_all :: "'m worker \<Rightarrow> 'm worker" where
  "notify_all w = (if w_pc w = Asleep then w\<lparr>w_pc := Woken\<rparr> else w)"

text \<open>
  Queueing a message (\<open>publish\<close>, \<open>subscribe\<close>, \<open>handle\<close>, \<open>callback\<close>, \<open>removeHandle\<close>) notifies while
  it holds the mutex, so it is one step that needs the mutex.
\<close>

definition put :: "'m \<Rightarrow> 'm worker \<Rightarrow> 'm worker option" where
  "put m w = (if w_locked w then None else Some (notify_all (w\<lparr>w_queue := w_queue w @ [m]\<rparr>)))"

text \<open>\<open>stopThread\<close> takes no mutex: setting the flag and notifying are two steps.\<close>

definition set_stopping :: "'m worker \<Rightarrow> 'm worker" where
  "set_stopping w = w\<lparr>w_stopping := True\<rparr>"

datatype 'm worker_event = Work | Put 'm | Set_stopping | Notify | Spurious

fun worker_apply :: "'m worker_event \<Rightarrow> 'm worker \<Rightarrow> 'm worker option" where
  "worker_apply Work w = worker_next w"
| "worker_apply (Put m) w = put m w"
| "worker_apply Set_stopping w = Some (set_stopping w)"
| "worker_apply Notify w = (if w_stopping w then Some (notify_all w) else None)"
| "worker_apply Spurious w = Some (notify_all w)"

fun worker_run :: "'m worker_event list \<Rightarrow> 'm worker \<Rightarrow> 'm worker option" where
  "worker_run [] w = Some w"
| "worker_run (e # es) w = do { w \<leftarrow> worker_apply e w; worker_run es w }"

lemmas worker_defs = worker_next_def put_def set_stopping_def notify_all_def

section \<open>No message is lost\<close>

text \<open>The messages that were queued by a sequence of events.\<close>

fun puts :: "'m worker_event list \<Rightarrow> 'm list" where
  "puts [] = []"
| "puts (Put m # es) = m # puts es"
| "puts (_ # es) = puts es"

definition in_hand :: "'m worker \<Rightarrow> 'm list" where
  "in_hand w = (case w_pc w of Busy m \<Rightarrow> [m] | _ \<Rightarrow> [])"

definition worker_inv :: "'m worker \<Rightarrow> bool" where
  "worker_inv w \<longleftrightarrow> (w_locked w \<longleftrightarrow> w_pc w \<in> {Test, Block, Taking})
     \<and> (w_pc w \<in> {Block, Asleep} \<longrightarrow> w_queue w = []) \<and> (w_pc w = Left \<longrightarrow> w_stopping w)"

lemma worker_inv_new: "worker_inv new_worker"
  by (simp add: worker_inv_def new_worker_def)

lemma worker_inv_apply: "worker_apply e w = Some w' \<Longrightarrow> worker_inv w \<Longrightarrow> worker_inv w'"
  by (cases e; cases "w_pc w")
    (auto simp: worker_defs worker_inv_def split: if_splits list.splits)

lemma worker_inv_run: "worker_run es w = Some w' \<Longrightarrow> worker_inv w \<Longrightarrow> worker_inv w'"
  by (induction es arbitrary: w) (auto simp: bind_eq_Some_conv dest: worker_inv_apply)

lemma worker_fifo_apply:
  "worker_apply e w = Some w' \<Longrightarrow>
     w_handled w' @ in_hand w' @ w_queue w' = w_handled w @ in_hand w @ w_queue w @ puts [e]"
  by (cases e; cases "w_pc w")
    (auto simp: worker_defs in_hand_def split: if_splits list.splits)

lemma puts_Cons: "puts (e # es) = puts [e] @ puts es"
  by (cases e) simp_all

lemma worker_fifo_run:
  "worker_run es w = Some w' \<Longrightarrow>
     w_handled w' @ in_hand w' @ w_queue w' = w_handled w @ in_hand w @ w_queue w @ puts es"
proof (induction es arbitrary: w)
  case (Cons e es)
  then obtain v where v: "worker_apply e w = Some v" "worker_run es v = Some w'"
    by (auto simp: bind_eq_Some_conv)
  from Cons.IH [OF v(2)] worker_fifo_apply [OF v(1)] show ?case by (simp add: puts_Cons [of e es])
qed simp

section \<open>The thread runs while it has work, and ends when it is stopped in time\<close>

text \<open>\<open>n\<close> steps of the thread alone.\<close>

fun work :: "nat \<Rightarrow> 'm worker \<Rightarrow> 'm worker" where
  "work 0 w = w"
| "work (Suc n) w = (case worker_next w of None \<Rightarrow> w | Some w' \<Rightarrow> work n w')"

text \<open>How far the thread is from the end of the current iteration.\<close>

fun pc_rank :: "'m worker_pc \<Rightarrow> nat" where
  "pc_rank (Busy m) = 0"
| "pc_rank Taking = 1"
| "pc_rank Test = 2"
| "pc_rank Acquire = 3"
| "pc_rank Woken = 3"
| "pc_rank Head = 4"
| "pc_rank Block = 0"
| "pc_rank Asleep = 0"
| "pc_rank Left = 0"

lemma work_left: "w_pc w = Left \<Longrightarrow> work n w = w"
  by (cases n) (simp_all add: worker_next_def)

text \<open>A thread that is stopping and neither sleeps nor is about to ends within five steps.\<close>

lemma stop_leaves:
  assumes "worker_inv w" and "w_stopping w" and "w_pc w \<notin> {Block, Asleep}"
  shows "w_pc (work 5 w) = Left"
  using assms
  by (cases "w_pc w") (simp_all add: worker_inv_def worker_next_def numeral_eq_Suc)

text \<open>A thread with a message in its queue has handled the next one within five steps.\<close>

lemma work_handles:
  assumes "worker_inv w" and "\<not> w_stopping w" and "in_hand w @ w_queue w = m # ms"
  shows "\<exists>n \<le> 5. w_handled (work n w) = w_handled w @ [m]"
proof -
  define k where "k = pc_rank (w_pc w) + 1"
  have "w_handled (work k w) = w_handled w @ [m]"
    using assms unfolding k_def
    by (cases "w_pc w") (simp_all add: worker_inv_def worker_next_def in_hand_def numeral_eq_Suc)
  moreover have "k \<le> 5" unfolding k_def by (cases "w_pc w") simp_all
  ultimately show ?thesis by blast
qed

section \<open>A stop that is lost\<close>

text \<open>
  The schedule in which the flag is set and the notification sent after the thread has found its
  predicate false and before it sleeps.
\<close>

definition lost_stop :: "'m worker_event list" where
  "lost_stop = [Work, Work, Work, Set_stopping, Notify, Work]"

lemma lost_stop_asleep:
  "worker_run lost_stop new_worker = Some w \<Longrightarrow> w_pc w = Asleep \<and> w_stopping w \<and> worker_next w = None"
  by (auto simp: lost_stop_def new_worker_def worker_defs)

lemma lost_stop_runs: "\<exists>w. worker_run lost_stop new_worker = Some w"
  by (simp add: lost_stop_def new_worker_def worker_defs)

section \<open>The queue that the loop implements\<close>

text \<open>
  The abstract component: messages are accepted at one end and delivered at the other. Its state are
  the accepted messages that wait, and the delivered ones.
\<close>

datatype 'm fifo_op = Enqueue 'm | Deliver

type_synonym 'm fifo = "'m list \<times> 'm list"

fun fifo_apply :: "'m fifo_op \<Rightarrow> 'm fifo \<Rightarrow> 'm fifo option" where
  "fifo_apply (Enqueue m) (waiting, delivered) = Some (waiting @ [m], delivered)"
| "fifo_apply Deliver (m # waiting, delivered) = Some (waiting, delivered @ [m])"
| "fifo_apply Deliver ([], delivered) = None"

fun fifo_run :: "'m fifo_op list \<Rightarrow> 'm fifo \<Rightarrow> 'm fifo option" where
  "fifo_run [] q = Some q"
| "fifo_run (op # ops) q = do { q \<leftarrow> fifo_apply op q; fifo_run ops q }"

fun enqueued :: "'m fifo_op list \<Rightarrow> 'm list" where
  "enqueued [] = []"
| "enqueued (Enqueue m # ops) = m # enqueued ops"
| "enqueued (Deliver # ops) = enqueued ops"

definition abs_worker :: "'m worker \<Rightarrow> 'm fifo" where
  "abs_worker w = (in_hand w @ w_queue w, w_handled w)"

lemma fifo_run_append: "fifo_run (xs @ ys) q = fifo_run xs q \<bind> fifo_run ys"
  by (induction xs arbitrary: q) (simp_all split: bind_splits)

lemma enqueued_append [simp]: "enqueued (xs @ ys) = enqueued xs @ enqueued ys"
  by (induction xs rule: enqueued.induct) simp_all

text \<open>Every event is at most one operation of the abstract queue, and a message is enqueued by \<open>put\<close>.\<close>

lemma worker_step_refines:
  assumes "worker_apply e w = Some w'"
  shows "\<exists>ops. length ops \<le> 1 \<and> fifo_run ops (abs_worker w) = Some (abs_worker w') \<and> enqueued ops = puts [e]"
proof (cases e)
  case (Put m)
  then have "fifo_run [Enqueue m] (abs_worker w) = Some (abs_worker w')"
    using assms by (auto simp: put_def notify_all_def abs_worker_def in_hand_def split: if_splits worker_pc.splits)
  then show ?thesis by (intro exI [of _ "[Enqueue m]"]) (simp add: Put)
next
  case Work
  show ?thesis
  proof (cases "\<exists>m. w_pc w = Busy m")
    case True
    then have "fifo_run [Deliver] (abs_worker w) = Some (abs_worker w')"
      using assms Work by (auto simp: worker_next_def abs_worker_def in_hand_def)
    then show ?thesis by (intro exI [of _ "[Deliver]"]) (simp add: Work)
  next
    case False
    then have "abs_worker w' = abs_worker w"
      using assms Work
      by (cases "w_pc w") (auto simp: worker_next_def abs_worker_def in_hand_def split: if_splits list.splits)
    then show ?thesis by (intro exI [of _ "[]"]) (simp add: Work)
  qed
qed (use assms in \<open>auto simp: worker_defs abs_worker_def in_hand_def split: if_splits intro!: exI [of _ "[]"]\<close>)

lemma worker_run_refines:
  "worker_run es w = Some w' \<Longrightarrow>
     \<exists>ops. fifo_run ops (abs_worker w) = Some (abs_worker w') \<and> enqueued ops = puts es"
proof (induction es arbitrary: w)
  case Nil
  then show ?case by (intro exI [of _ "[]"]) simp
next
  case (Cons e es)
  then obtain v where v: "worker_apply e w = Some v" "worker_run es v = Some w'"
    by (auto simp: bind_eq_Some_conv)
  obtain xs where xs: "fifo_run xs (abs_worker w) = Some (abs_worker v)" "enqueued xs = puts [e]"
    using worker_step_refines [OF v(1)] by blast
  obtain ys where ys: "fifo_run ys (abs_worker v) = Some (abs_worker w')" "enqueued ys = puts es"
    using Cons.IH [OF v(2)] by blast
  show ?case
    using xs ys by (intro exI [of _ "xs @ ys"]) (simp add: fifo_run_append puts_Cons [of e es])
qed

end
