(* ===== verification/Endpoint.thy ===== *)
theory Endpoint
  imports EnumParser
begin

text \<open>
  How a server connection finds out whom it serves: \<open>std::regex_search\<close> with the expression
  \<^verbatim>\<open>\b\d{1,3}\.\d{1,3}\.\d{1,3}\.\d{1,3}\b\<close> of \<^verbatim>\<open>websocketServerConnection.hpp\<close> on the
  \<^verbatim>\<open>X-Forwarded-For\<close> header of a reverse proxy, and the names of the loggers (\<^verbatim>\<open>src/common/logger.cpp\<close>).
\<close>

section \<open>The scanner\<close>

text \<open>The characters of the class \<^verbatim>\<open>\w\<close>, between which there is no word boundary.\<close>

definition is_word :: "char \<Rightarrow> bool" where
  "is_word c \<longleftrightarrow> is_digit c \<or> c = CHR ''_'' \<or> (let n = of_char c :: nat in
     65 \<le> n \<and> n \<le> 90 \<or> 97 \<le> n \<and> n \<le> 122)"

text \<open>
  One to three digits, as many as there are. Giving a digit back never helps: a dot or a word
  boundary has to follow.
\<close>

definition octet :: "string \<Rightarrow> (string \<times> string) option" where
  "octet s = (let ds = takeWhile is_digit s in
     if 1 \<le> length ds \<and> length ds \<le> 3 then Some (ds, dropWhile is_digit s) else None)"

definition dot :: "string \<Rightarrow> string option" where
  "dot s = (case s of [] \<Rightarrow> None | c # r \<Rightarrow> if c = CHR ''.'' then Some r else None)"

text \<open>A match that starts here; the first argument is the character before.\<close>

definition ip_here :: "char option \<Rightarrow> string \<Rightarrow> string option" where
  "ip_here prev s =
     (if (case prev of None \<Rightarrow> False | Some c \<Rightarrow> is_word c) then None
      else do {
        (a, s) \<leftarrow> octet s;
        s \<leftarrow> dot s;
        (b, s) \<leftarrow> octet s;
        s \<leftarrow> dot s;
        (c, s) \<leftarrow> octet s;
        s \<leftarrow> dot s;
        (d, s) \<leftarrow> octet s;
        if s \<noteq> [] \<and> is_word (hd s) then None
        else Some (a @ ''.'' @ b @ ''.'' @ c @ ''.'' @ d)
      })"

fun search_ip_from :: "char option \<Rightarrow> string \<Rightarrow> string option" where
  "search_ip_from prev s =
     (case ip_here prev s of
        Some m \<Rightarrow> Some m
      | None \<Rightarrow> (case s of [] \<Rightarrow> None | c # cs \<Rightarrow> search_ip_from (Some c) cs))"

declare search_ip_from.simps [simp del]

definition search_ip :: "string \<Rightarrow> string option" where
  "search_ip s = search_ip_from None s"

section \<open>The language of the expression\<close>

definition octet_text :: "string \<Rightarrow> bool" where
  "octet_text ds \<longleftrightarrow> list_all is_digit ds \<and> 1 \<le> length ds \<and> length ds \<le> 3"

definition ip_text :: "string \<Rightarrow> bool" where
  "ip_text m \<longleftrightarrow> (\<exists>a b c d. m = a @ ''.'' @ b @ ''.'' @ c @ ''.'' @ d
     \<and> octet_text a \<and> octet_text b \<and> octet_text c \<and> octet_text d)"

text \<open>A match between a text before and a text after it: both ends are word boundaries.\<close>

definition ip_match :: "string \<Rightarrow> string \<Rightarrow> string \<Rightarrow> bool" where
  "ip_match pre m post \<longleftrightarrow> ip_text m \<and> (pre = [] \<or> \<not> is_word (last pre)) \<and> stops is_word post"

lemma digit_is_word: "is_digit c \<Longrightarrow> is_word c"
  by (simp add: is_word_def)

lemma dot_not_digit: "\<not> is_digit (CHR ''.'')"
  by (simp add: is_digit_def)

lemma octet_iff: "octet s = Some (ds, r) \<longleftrightarrow> s = ds @ r \<and> octet_text ds \<and> stops is_digit r"
proof
  assume "octet s = Some (ds, r)"
  then have ds: "ds = takeWhile is_digit s" "r = dropWhile is_digit s" "1 \<le> length ds" "length ds \<le> 3"
    by (auto simp: octet_def Let_def split: if_splits)
  moreover have "stops is_digit (dropWhile is_digit s)"
    by (induction s) (simp_all add: stops_def)
  ultimately show "s = ds @ r \<and> octet_text ds \<and> stops is_digit r"
    by (simp add: octet_text_def list_all_takeWhile)
next
  assume "s = ds @ r \<and> octet_text ds \<and> stops is_digit r"
  then show "octet s = Some (ds, r)"
    by (simp add: octet_def octet_text_def takeWhile_prefix dropWhile_prefix)
qed

lemma dot_iff: "dot s = Some r \<longleftrightarrow> s = CHR ''.'' # r"
  by (auto simp: dot_def split: list.splits)

lemma ip_here_iff:
  "ip_here prev s = Some m \<longleftrightarrow>
     (\<exists>post. s = m @ post \<and> ip_text m \<and> (\<forall>c. prev = Some c \<longrightarrow> \<not> is_word c) \<and> stops is_word post)"
proof
  assume "ip_here prev s = Some m"
  then obtain a b c d post where "s = a @ CHR ''.'' # b @ CHR ''.'' # c @ CHR ''.'' # d @ post"
    "m = a @ ''.'' @ b @ ''.'' @ c @ ''.'' @ d" "octet_text a" "octet_text b" "octet_text c" "octet_text d"
    "\<not> (post \<noteq> [] \<and> is_word (hd post))" "\<forall>c. prev = Some c \<longrightarrow> \<not> is_word c"
    by (auto simp: ip_here_def bind_eq_Some_conv octet_iff dot_iff split: if_splits option.splits)
  then show "\<exists>post. s = m @ post \<and> ip_text m \<and> (\<forall>c. prev = Some c \<longrightarrow> \<not> is_word c) \<and> stops is_word post"
    by (intro exI [of _ post]) (auto simp: ip_text_def stops_def split: list.split)
next
  assume "\<exists>post. s = m @ post \<and> ip_text m \<and> (\<forall>c. prev = Some c \<longrightarrow> \<not> is_word c) \<and> stops is_word post"
  then obtain a b c d post where s: "s = a @ CHR ''.'' # b @ CHR ''.'' # c @ CHR ''.'' # d @ post"
    and m: "m = a @ ''.'' @ b @ ''.'' @ c @ ''.'' @ d"
    and o: "octet_text a" "octet_text b" "octet_text c" "octet_text d"
    and p: "\<forall>c. prev = Some c \<longrightarrow> \<not> is_word c" "stops is_word post"
    by (auto simp: ip_text_def)
  have "stops is_digit post" "\<not> (post \<noteq> [] \<and> is_word (hd post))"
    using p(2) digit_is_word by (auto simp: stops_def split: list.splits)
  moreover have "octet (a @ CHR ''.'' # r) = Some (a, CHR ''.'' # r)"
    "octet (b @ CHR ''.'' # r) = Some (b, CHR ''.'' # r)" "octet (c @ CHR ''.'' # r) = Some (c, CHR ''.'' # r)" for r
    using o by (simp_all add: octet_iff dot_not_digit)
  moreover have "octet (d @ post) = Some (d, post)"
    using o \<open>stops is_digit post\<close> by (simp add: octet_iff)
  moreover have "dot (CHR ''.'' # r) = Some r" for r by (simp add: dot_iff)
  moreover have "\<not> (case prev of None \<Rightarrow> False | Some c \<Rightarrow> is_word c)" using p(1) by (cases prev) auto
  ultimately show "ip_here prev s = Some m"
    unfolding s m ip_here_def by simp
qed

text \<open>The matches at one position agree.\<close>

lemma ip_match_unique:
  assumes "ip_match pre m post" and "ip_match pre m' post'" and "m @ post = m' @ post'"
  shows "m = m'"
proof -
  have "ip_here None (m @ post) = Some m"
    unfolding ip_here_iff using assms(1) by (intro exI [of _ post]) (simp add: ip_match_def)
  moreover have "ip_here None (m @ post) = Some m'"
    unfolding ip_here_iff using assms(2,3) by (intro exI [of _ post']) (simp add: ip_match_def)
  ultimately show ?thesis by simp
qed

text \<open>The search from a position returns the first match.\<close>

definition first_match :: "char option \<Rightarrow> string \<Rightarrow> string \<Rightarrow> bool" where
  "first_match prev s m \<longleftrightarrow> (\<exists>pre post. s = pre @ m @ post \<and> ip_here (if pre = [] then prev else Some (last pre)) (m @ post) = Some m
     \<and> (\<forall>pre' rest. s = pre' @ rest \<and> length pre' < length pre
          \<longrightarrow> ip_here (if pre' = [] then prev else Some (last pre')) rest = None))"

lemma search_first: "search_ip_from prev s = Some m \<Longrightarrow> first_match prev s m"
proof (induction s arbitrary: prev)
  case Nil
  then have "ip_here prev [] = Some m" by (simp add: search_ip_from.simps split: option.splits)
  then show ?case by (auto simp: first_match_def ip_here_iff)
next
  case (Cons x xs)
  show ?case
  proof (cases "ip_here prev (x # xs)")
    case (Some m')
    then have h: "ip_here prev (x # xs) = Some m" using Cons.prems by (simp add: search_ip_from.simps)
    then obtain post where "x # xs = m @ post" by (auto simp: ip_here_iff)
    with h show ?thesis unfolding first_match_def by (intro exI [of _ "[]"] exI [of _ post]) simp
  next
    case None
    then have "search_ip_from (Some x) xs = Some m"
      using Cons.prems by (subst (asm) search_ip_from.simps) simp
    from Cons.IH [OF this] obtain pre post where f: "xs = pre @ m @ post"
      "ip_here (if pre = [] then Some x else Some (last pre)) (m @ post) = Some m"
      "\<forall>pre' rest. xs = pre' @ rest \<and> length pre' < length pre
          \<longrightarrow> ip_here (if pre' = [] then Some x else Some (last pre')) rest = None"
      by (auto simp: first_match_def)
    have "ip_here (if pre' = [] then prev else Some (last pre')) rest = None"
      if "x # xs = pre' @ rest" "length pre' < length (x # pre)" for pre' rest
      using that None f(3) by (cases pre') (auto split: if_splits)
    with f(1,2) show ?thesis
      unfolding first_match_def by (intro exI [of _ "x # pre"] exI [of _ post]) (auto split: if_splits)
  qed
qed

lemma search_none: "search_ip_from prev s = None \<Longrightarrow> s = pre @ rest
    \<Longrightarrow> ip_here (if pre = [] then prev else Some (last pre)) rest = None"
proof (induction pre arbitrary: prev s)
  case Nil
  then show ?case by (subst (asm) search_ip_from.simps) (simp split: option.splits)
next
  case (Cons x pre)
  then have "search_ip_from (Some x) (pre @ rest) = None"
    by (subst (asm) (2) search_ip_from.simps) (simp split: option.splits)
  from Cons.IH [OF this] show ?case by (auto split: if_splits)
qed

lemma ip_match_here:
  "ip_match pre m post \<longleftrightarrow> ip_here (if pre = [] then None else Some (last pre)) (m @ post) = Some m"
  unfolding ip_match_def ip_here_iff by simp

text \<open>The leftmost match.\<close>

definition leftmost_ip :: "string \<Rightarrow> string \<Rightarrow> bool" where
  "leftmost_ip s m \<longleftrightarrow> (\<exists>pre post. s = pre @ m @ post \<and> ip_match pre m post
     \<and> (\<forall>pre' m' post'. s = pre' @ m' @ post' \<and> ip_match pre' m' post' \<longrightarrow> length pre \<le> length pre'))"

lemma leftmost_unique:
  assumes "leftmost_ip s m" and "leftmost_ip s m'"
  shows "m = m'"
proof -
  obtain pre post where p: "s = pre @ m @ post" "ip_match pre m post"
    "\<forall>pre' m' post'. s = pre' @ m' @ post' \<and> ip_match pre' m' post' \<longrightarrow> length pre \<le> length pre'"
    using assms(1) by (auto simp: leftmost_ip_def)
  obtain pre' post' where p': "s = pre' @ m' @ post'" "ip_match pre' m' post'"
    "\<forall>pre m post. s = pre @ m @ post \<and> ip_match pre m post \<longrightarrow> length pre' \<le> length pre"
    using assms(2) by (auto simp: leftmost_ip_def)
  have "length pre \<le> length pre'" using p(3) p'(1,2) by blast
  moreover have "length pre' \<le> length pre" using p'(3) p(1,2) by blast
  ultimately have "length pre = length pre'" by simp
  then have "pre = pre'" "m @ post = m' @ post'" using p(1) p'(1) by (auto simp: append_eq_append_conv)
  then show ?thesis using ip_match_unique p(2) p'(2) by blast
qed

lemma search_leftmost: "search_ip s = Some m \<Longrightarrow> leftmost_ip s m"
proof -
  assume "search_ip s = Some m"
  then obtain pre post where f: "s = pre @ m @ post"
    "ip_here (if pre = [] then None else Some (last pre)) (m @ post) = Some m"
    "\<forall>pre' rest. s = pre' @ rest \<and> length pre' < length pre
        \<longrightarrow> ip_here (if pre' = [] then None else Some (last pre')) rest = None"
    using search_first [of None s m] by (auto simp: search_ip_def first_match_def)
  have "length pre \<le> length pre'" if "s = pre' @ m' @ post'" "ip_match pre' m' post'" for pre' m' post'
  proof (rule ccontr)
    assume "\<not> length pre \<le> length pre'"
    then have "ip_here (if pre' = [] then None else Some (last pre')) (m' @ post') = None"
      using f(3) that(1) by simp
    then show False using that(2) by (simp add: ip_match_here)
  qed
  moreover have "ip_match pre m post" using f(2) by (simp add: ip_match_here)
  ultimately show ?thesis using f(1) unfolding leftmost_ip_def by blast
qed

lemma search_ip_iff: "search_ip s = Some m \<longleftrightarrow> leftmost_ip s m"
proof
  assume l: "leftmost_ip s m"
  then obtain pre post where p: "s = pre @ m @ post" "ip_match pre m post"
    unfolding leftmost_ip_def by blast
  have "search_ip s \<noteq> None"
    using search_none [of None s pre "m @ post"] p unfolding search_ip_def ip_match_here by force
  then obtain m' where "search_ip s = Some m'" by blast
  with l show "search_ip s = Some m" using leftmost_unique search_leftmost by blast
qed (rule search_leftmost)

section \<open>Loggers\<close>

text \<open>The names of a logger without a name, with a name, and with a name and the address of the peer.\<close>

definition logger_plain :: "string \<Rightarrow> string" where
  "logger_plain node = node"

definition logger_named :: "string \<Rightarrow> string \<Rightarrow> string" where
  "logger_named node name = node @ ''.'' @ name"

definition logger_of_endpoint :: "string \<Rightarrow> string \<Rightarrow> string \<Rightarrow> string" where
  "logger_of_endpoint node name remoteEndpoint = node @ ''.'' @ name @ ''.'' @ remoteEndpoint"

end
