(* ===== verification/Session.thy ===== *)
theory Session
  imports WsConnection Endpoint
begin

text \<open>
  The thread of a websocket connection (\<open>run\<close> in \<^verbatim>\<open>websocketServerConnection.cpp\<close> and
  \<^verbatim>\<open>websocketClientConnection.hpp\<close>, \<open>asyncRead\<close> and \<open>close\<close> in \<^verbatim>\<open>websocketConnectionBase.hpp\<close>): the
  chain of asynchronous operations of the handshake and of reading. A stream must not be given a
  second read while one is outstanding; that is \<open>None\<close> and proved not to happen.
\<close>

section \<open>Sessions\<close>

text \<open>
  The operations of the chain that are outstanding. \<open>io_running\<close> holds until an exception leaves
  \<open>ioc->run()\<close>; no handler runs afterwards.
\<close>

datatype pending_io = Http_read | Ws_accept | Ws_handshake | Ws_read

record 'c session =
  ses :: 'c
  pending :: "pending_io list"
  io_running :: bool
  remoteEndpoint :: string
  log_name :: string

definition begin_session :: "pending_io \<Rightarrow> string \<Rightarrow> 'c \<Rightarrow> 'c session" where
  "begin_session first name c = \<lparr>ses = c, pending = [first], io_running = True, remoteEndpoint = [], log_name = name\<rparr>"

text \<open>A completed operation.\<close>

definition completed :: "pending_io \<Rightarrow> 'c session \<Rightarrow> 'c session" where
  "completed io s = s\<lparr>pending := remove1 io (pending s)\<rparr>"

definition stop_session :: "close_code \<Rightarrow> string \<Rightarrow> 'z ws_connection_scheme session \<Rightarrow> 'z ws_connection_scheme session" where
  "stop_session cc cr s = s\<lparr>ses := request_stop cc cr (ses s)\<rparr>"

definition asyncRead :: "'z ws_connection_scheme session \<Rightarrow> 'z ws_connection_scheme session option" where
  "asyncRead s =
     (if \<not> ws_open (ws_conn (ses s)) then Some s
      else if Ws_read \<in> set (pending s) then None
      else Some (s\<lparr>pending := pending s @ [Ws_read]\<rparr>))"

text \<open>The handler of a read: after a frame was processed the next read starts.\<close>

definition read_completed ::
    "(rcl_message \<Rightarrow> 'z ws_connection_scheme \<Rightarrow> 'z ws_connection_scheme option) \<Rightarrow> read_result
     \<Rightarrow> 'z ws_connection_scheme session \<Rightarrow> 'z ws_connection_scheme session option" where
  "read_completed process r s = do {
     c \<leftarrow> read_handler process r (ses s);
     let s = (completed Ws_read s)\<lparr>ses := c\<rparr>;
     case r of Frame buf \<Rightarrow> asyncRead s | _ \<Rightarrow> Some s
   }"

text \<open>The stream is open once the handshake has succeeded.\<close>

definition open_stream :: "'z ws_connection_scheme \<Rightarrow> 'z ws_connection_scheme" where
  "open_stream c = c\<lparr>ws_conn := (ws_conn c)\<lparr>ws_open := True\<rparr>\<rparr>"

section \<open>The server side\<close>

text \<open>
  \<open>header\<close> is the value of \<^verbatim>\<open>X-Forwarded-For\<close>, if there is one, together with what follows it in
  memory: the code makes a \<open>std::string\<close> of the pointer to its first character, which extends to
  the next null byte. \<open>None\<close> stands for reading until there is no memory.
\<close>

definition header_text :: "string \<times> string \<Rightarrow> string option" where
  "header_text h = cstring (map byte_of_char (fst h @ snd h))"

definition forwarded_endpoint :: "(string \<times> string) option \<Rightarrow> string option option" where
  "forwarded_endpoint header =
     (case header of None \<Rightarrow> Some None | Some h \<Rightarrow> map_option search_ip (header_text h))"

text \<open>\<open>peer\<close> is the address of the socket, if it can be determined.\<close>

definition server_endpoint :: "(string \<times> string) option \<Rightarrow> string option \<Rightarrow> string option option" where
  "server_endpoint header peer =
     map_option (\<lambda>fwd. case fwd of Some ip \<Rightarrow> Some ip | None \<Rightarrow> peer) (forwarded_endpoint header)"

definition set_endpoint :: "GlobalConfig \<Rightarrow> string option \<Rightarrow> 'c session \<Rightarrow> 'c session" where
  "set_endpoint cfg ip s =
     (case ip of
        None \<Rightarrow> s
      | Some ip \<Rightarrow> s\<lparr>remoteEndpoint := ip, log_name := logger_of_endpoint (nodeName cfg) ''websocket-connection'' ip\<rparr>)"

definition begin_server :: "GlobalConfig \<Rightarrow> server_connection session" where
  "begin_server cfg = begin_session Http_read
     (logger_of_endpoint (nodeName cfg) ''websocket-connection'' []) (new_server_connection cfg)"

definition http_completed :: "bool \<Rightarrow> server_connection session \<Rightarrow> server_connection session" where
  "http_completed failed s =
     (let s = completed Http_read s in
      if failed then stop_session CC_internal_error ''Websocket handshake failed'' s
      else s\<lparr>pending := pending s @ [Ws_accept]\<rparr>)"

definition accept_completed ::
    "GlobalConfig \<Rightarrow> bool \<Rightarrow> (string \<times> string) option \<Rightarrow> string option
     \<Rightarrow> server_connection session \<Rightarrow> server_connection session option" where
  "accept_completed cfg failed header peer s =
     (let s = completed Ws_accept s in
      if failed then Some (stop_session CC_internal_error ''Websocket handshake failed'' s)
      else do {
        ip \<leftarrow> server_endpoint header peer;
        let s = set_endpoint cfg ip s;
        c \<leftarrow> server_onConnected cfg (open_stream (ses s));
        asyncRead (s\<lparr>ses := c\<rparr>)
      })"

text \<open>
  What can happen to the sending queue: everything but the opening of the stream, which is the end of
  the handshake; without a running \<open>ioc\<close> frames are only posted and the stream closes.
\<close>

definition conn_enabled :: "bool \<Rightarrow> conn_event \<Rightarrow> conn \<Rightarrow> bool" where
  "conn_enabled running e c \<longleftrightarrow> enabled e c \<and> e \<noteq> Opened
     \<and> (running \<or> e = Closed \<or> (\<exists>v. e = Send False v))"

text \<open>The exception handler around \<open>ioc->run()\<close>.\<close>

definition io_exception :: "'z ws_connection_scheme session \<Rightarrow> 'z ws_connection_scheme session" where
  "io_exception s = (stop_session CC_internal_error ''I/O context unexpectedly threw an exception'' s)
     \<lparr>io_running := False\<rparr>"

text \<open>
  What happens to a session of the server: the operations complete, the timers expire, frames are
  sent and written, the stream closes, an exception is thrown.
\<close>

datatype server_session_event =
    Http_done bool | Accept_ws bool "(string \<times> string) option" "string option" | Read_done read_result
  | Check_timer | End_timer | Conn_event conn_event | Io_exception

fun server_session_enabled :: "server_session_event \<Rightarrow> server_connection session \<Rightarrow> bool" where
  "server_session_enabled (Http_done failed) s \<longleftrightarrow> io_running s \<and> Http_read \<in> set (pending s)"
| "server_session_enabled (Accept_ws failed h p) s \<longleftrightarrow> io_running s \<and> Ws_accept \<in> set (pending s)"
| "server_session_enabled (Read_done r) s \<longleftrightarrow> io_running s \<and> Ws_read \<in> set (pending s)"
| "server_session_enabled Check_timer s \<longleftrightarrow> io_running s \<and> authenticationCheckTimer (ses s)"
| "server_session_enabled End_timer s \<longleftrightarrow> io_running s \<and> authenticationEndTimer (ses s)"
| "server_session_enabled (Conn_event e) s \<longleftrightarrow> conn_enabled (io_running s) e (ws_conn (ses s))"
| "server_session_enabled Io_exception s \<longleftrightarrow> io_running s"

fun server_session_apply ::
    "GlobalConfig \<Rightarrow> auth_plugin \<Rightarrow> server_session_event \<Rightarrow> server_connection session \<Rightarrow> server_connection session option" where
  "server_session_apply cfg plugin (Http_done failed) s = Some (http_completed failed s)"
| "server_session_apply cfg plugin (Accept_ws failed h p) s = accept_completed cfg failed h p s"
| "server_session_apply cfg plugin (Read_done r) s = read_completed (server_processMessage cfg plugin) r s"
| "server_session_apply cfg plugin Check_timer s =
     map_option (\<lambda>c. s\<lparr>ses := c\<rparr>) (validAuthenticationCheckCallback (ses s))"
| "server_session_apply cfg plugin End_timer s = Some (s\<lparr>ses := authenticationEndCallback (ses s)\<rparr>)"
| "server_session_apply cfg plugin (Conn_event e) s =
     map_option (\<lambda>c. s\<lparr>ses := (ses s)\<lparr>ws_conn := c\<rparr>\<rparr>) (conn_apply e (ws_conn (ses s)))"
| "server_session_apply cfg plugin Io_exception s = Some (io_exception s)"

section \<open>The client side\<close>

definition begin_client :: "GlobalConfig \<Rightarrow> ws_connection session" where
  "begin_client cfg = begin_session Ws_handshake
     (logger_named (nodeName cfg) ''websocket-connection'') new_ws_connection"

definition handshake_completed :: "GlobalConfig \<Rightarrow> bool \<Rightarrow> ws_connection session \<Rightarrow> ws_connection session option" where
  "handshake_completed cfg failed s =
     (let s = completed Ws_handshake s in
      if failed then Some (stop_session CC_internal_error ''Websocket handshake failed'' s)
      else do {
        c \<leftarrow> client_connected cfg (open_stream (ses s));
        asyncRead (s\<lparr>ses := c\<rparr>)
      })"

datatype client_session_event =
    Handshake_done bool | Client_read read_result | Client_conn conn_event | Client_exception

fun client_session_enabled :: "client_session_event \<Rightarrow> ws_connection session \<Rightarrow> bool" where
  "client_session_enabled (Handshake_done failed) s \<longleftrightarrow> io_running s \<and> Ws_handshake \<in> set (pending s)"
| "client_session_enabled (Client_read r) s \<longleftrightarrow> io_running s \<and> Ws_read \<in> set (pending s)"
| "client_session_enabled (Client_conn e) s \<longleftrightarrow> conn_enabled (io_running s) e (ws_conn (ses s))"
| "client_session_enabled Client_exception s \<longleftrightarrow> io_running s"

fun client_session_apply ::
    "GlobalConfig \<Rightarrow> client_session_event \<Rightarrow> ws_connection session \<Rightarrow> ws_connection session option" where
  "client_session_apply cfg (Handshake_done failed) s = handshake_completed cfg failed s"
| "client_session_apply cfg (Client_read r) s = read_completed client_processMessage r s"
| "client_session_apply cfg (Client_conn e) s =
     map_option (\<lambda>c. s\<lparr>ses := (ses s)\<lparr>ws_conn := c\<rparr>\<rparr>) (conn_apply e (ws_conn (ses s)))"
| "client_session_apply cfg Client_exception s = Some (io_exception s)"


section \<open>Closing\<close>

text \<open>
  What \<open>close\<close> does to the socket after the thread was joined: a notification with the reason, a
  close frame, the shutdown, and the closing by force when the shutdown fails. The errors of the
  first two calls are overwritten by the next one.
\<close>

datatype socket_action = Write_frame bytes | Close_frame close_code string | Shutdown_tls | Shutdown_tcp | Close_socket

definition close_reason :: "string \<Rightarrow> string" where
  "close_reason cr = ''Peer closed connection. Reason: '' @ cr"

definition close_actions :: "bool \<Rightarrow> bool \<Rightarrow> close_code \<Rightarrow> string \<Rightarrow> socket_action list" where
  "close_actions tls shutdown_failed cc cr =
     [Write_frame (vec_getCombinedVector (forOpCodeNotification (close_reason cr))), Close_frame cc cr,
      if tls then Shutdown_tls else Shutdown_tcp] @ (if shutdown_failed then [Close_socket] else [])"

text \<open>
  The stream does not allow a write while an asynchronous one is outstanding; after \<open>ioc->stop()\<close>
  such a write stays outstanding for ever, so closing is then undefined (\<open>None\<close>).
\<close>

definition ws_close ::
    "bool \<Rightarrow> bool \<Rightarrow> close_code \<Rightarrow> string \<Rightarrow> 'z ws_connection_scheme \<Rightarrow> (socket_action list \<times> 'z ws_connection_scheme) option" where
  "ws_close tls shutdown_failed cc cr c =
     (if ws_open (ws_conn c) \<and> writing (ws_conn c) \<noteq> None then None
      else Some (close_actions tls shutdown_failed cc cr, c\<lparr>ws_conn := (ws_conn c)\<lparr>ws_open := False\<rparr>\<rparr>))"

section \<open>A session is never deaf\<close>

text \<open>
  One operation of the chain is outstanding at most; there is none only when the stop of the
  connection was requested or the stream was closed; and during the handshake the stream is closed
  and the managers are dormant.
\<close>

definition session_ok :: "'z ws_connection_scheme session \<Rightarrow> bool" where
  "session_ok s \<longleftrightarrow>
     length (pending s) \<le> 1
     \<and> (pending s = [] \<or> \<not> io_running s \<longrightarrow> ws_stops (ses s) \<noteq> [] \<or> io_running s \<and> \<not> ws_open (ws_conn (ses s)))
     \<and> (\<forall>io \<in> set (pending s). io \<noteq> Ws_read \<longrightarrow> dormant (ses s) \<and> \<not> ws_open (ws_conn (ses s)))"

lemma pending_single: "session_ok s \<Longrightarrow> io \<in> set (pending s) \<Longrightarrow> pending s = [io]"
  by (cases "pending s") (auto simp: session_ok_def)

lemma asyncRead_ok:
  "pending s = [] \<Longrightarrow> io_running s \<Longrightarrow> \<exists>s'. asyncRead s = Some s' \<and> session_ok s' \<and> ses s' = ses s
     \<and> (pending s' = [Ws_read] \<or> \<not> ws_open (ws_conn (ses s)))"
  by (auto simp: asyncRead_def session_ok_def)

lemma session_stop_ok:
  "session_ok s \<Longrightarrow> pending s = [io] \<Longrightarrow> io_running s \<Longrightarrow> session_ok (stop_session cc cr (completed io s))"
  by (simp add: session_ok_def completed_def stop_session_def request_stop_def)

lemma io_exception_ok: "session_ok s \<Longrightarrow> session_ok (io_exception s)"
  by (auto simp: session_ok_def io_exception_def stop_session_def request_stop_def dormant_def)

lemma read_completed_ok:
  assumes "session_ok s" and "Ws_read \<in> set (pending s)" and "io_running s"
    and "read_handler process r (ses s) = Some c"
  shows "\<exists>s'. read_completed process r s = Some s' \<and> session_ok s' \<and> ses s' = c
    \<and> (\<forall>buf. r = Frame buf \<longrightarrow> pending s' = [Ws_read] \<or> \<not> ws_open (ws_conn c))"
proof -
  let ?s = "(completed Ws_read s)\<lparr>ses := c\<rparr>"
  have p: "pending ?s = []" "io_running ?s"
    using pending_single [OF assms(1,2)] assms(3) by (simp_all add: completed_def)
  show ?thesis
  proof (cases r)
    case (Frame buf)
    then show ?thesis using asyncRead_ok [OF p] assms(4) by (auto simp: read_completed_def)
  next
    case Peer_closed
    then have "ws_stops c \<noteq> []" using assms(4) by (auto simp: read_handler_def request_stop_def)
    then show ?thesis using p assms(4) Peer_closed by (simp add: read_completed_def session_ok_def)
  next
    case Read_error
    then have "ws_stops c \<noteq> []" using assms(4) by (auto simp: read_handler_def request_stop_def)
    then show ?thesis using p assms(4) Read_error by (simp add: read_completed_def session_ok_def)
  qed
qed

text \<open>The events of the sending queue never open the stream.\<close>

lemma conn_keeps_closed:
  "conn_apply e c = Some c' \<Longrightarrow> e \<noteq> Opened \<Longrightarrow> ws_open c' \<Longrightarrow> ws_open c"
  by (cases e)
    (auto simp: send_def run_posted_def queueMessage_def asyncWrite_def write_handler_def Let_def
      split: if_splits list.splits)

lemma session_conn_ok:
  assumes "session_ok s" and "conn_apply e (ws_conn (ses s)) = Some c" and "e \<noteq> Opened"
  shows "session_ok (s\<lparr>ses := (ses s)\<lparr>ws_conn := c\<rparr>\<rparr>)"
  using assms(1) conn_keeps_closed [OF assms(2,3)] by (auto simp: session_ok_def dormant_def)

lemma session_ses_ok:
  assumes "session_ok s" and "ws_conn c = ws_conn (ses s)" and "dormant c = dormant (ses s)"
    and "ws_stops (ses s) \<noteq> [] \<longrightarrow> ws_stops c \<noteq> []"
  shows "session_ok (s\<lparr>ses := c\<rparr>)"
  using assms by (auto simp: session_ok_def)

lemma session_begin_ok:
  "dormant c \<Longrightarrow> \<not> ws_open (ws_conn c) \<Longrightarrow> session_ok (begin_session first name c)"
  by (simp add: session_ok_def begin_session_def)

text \<open>The end of a handshake.\<close>

lemma established_ok:
  assumes "pending s = []" and "io_running s" and "asyncRead s = Some s'"
  shows "session_ok s'"
  using asyncRead_ok [OF assms(1,2)] assms(3) by auto

subsection \<open>The server side\<close>

inductive server_session :: "GlobalConfig \<Rightarrow> auth_plugin \<Rightarrow> server_connection session \<Rightarrow> bool" for cfg plugin where
  starts: "server_session cfg plugin (begin_server cfg)"
| event: "server_session cfg plugin s \<Longrightarrow> server_session_enabled e s
    \<Longrightarrow> server_session_apply cfg plugin e s = Some s' \<Longrightarrow> server_session cfg plugin s'"

lemma http_completed_ok:
  assumes "session_ok s" and "pending s = [Http_read]" and "io_running s"
  shows "session_ok (http_completed failed s)"
proof (cases failed)
  case True
  then show ?thesis using session_stop_ok [OF assms] by (simp add: http_completed_def Let_def)
next
  case False
  then show ?thesis using assms by (simp add: http_completed_def Let_def completed_def session_ok_def)
qed

lemma accept_completed_ok:
  assumes "session_ok s" and "pending s = [Ws_accept]" and "io_running s"
    and "accept_completed cfg failed h p s = Some s'"
  shows "session_ok s'"
proof (cases failed)
  case True
  then show ?thesis
    using session_stop_ok [OF assms(1-3)] assms(4) by (auto simp: accept_completed_def Let_def)
next
  case False
  then obtain ip c where s': "asyncRead ((set_endpoint cfg ip (completed Ws_accept s))\<lparr>ses := c\<rparr>) = Some s'"
    using assms(4) by (auto simp: accept_completed_def Let_def bind_eq_Some_conv)
  have "pending (set_endpoint cfg ip (completed Ws_accept s)) = []"
    "io_running (set_endpoint cfg ip (completed Ws_accept s))"
    using assms(2,3) by (simp_all add: set_endpoint_def completed_def split: option.split)
  then show ?thesis using established_ok [OF _ _ s'] by simp
qed

lemma server_session_apply_ok:
  assumes "session_ok s" and "server_session_enabled e s" and "server_session_apply cfg plugin e s = Some s'"
  shows "session_ok s'"
proof (cases e)
  case (Http_done failed)
  then show ?thesis using assms http_completed_ok [OF assms(1) pending_single [OF assms(1)]] by auto
next
  case (Accept_ws failed h p)
  then show ?thesis using assms accept_completed_ok [OF assms(1) pending_single [OF assms(1)]] by auto
next
  case (Read_done r)
  then obtain c where "read_handler (server_processMessage cfg plugin) r (ses s) = Some c"
    using assms(3) by (auto simp: read_completed_def bind_eq_Some_conv)
  with read_completed_ok [OF assms(1) _ _ this] show ?thesis using assms(2,3) Read_done by auto
next
  case Check_timer
  then obtain c where c: "validAuthenticationCheckCallback (ses s) = Some c" "s' = s\<lparr>ses := c\<rparr>"
    using assms(3) by auto
  then show ?thesis
    using session_ses_ok [OF assms(1), of c]
    by (auto simp: validAuthenticationCheckCallback_def request_stop_def dormant_def split: option.splits if_splits)
next
  case End_timer
  then show ?thesis
    using assms session_ses_ok [of s "authenticationEndCallback (ses s)"]
    by (auto simp: authenticationEndCallback_def request_stop_def dormant_def)
next
  case (Conn_event x)
  then show ?thesis using assms session_conn_ok by (auto simp: conn_enabled_def)
next
  case Io_exception
  then show ?thesis using assms io_exception_ok by auto
qed

lemma server_session_ok: "server_session cfg plugin s \<Longrightarrow> session_ok s"
proof (induction rule: server_session.induct)
  case starts
  have "\<not> ws_open (ws_conn (new_server_connection cfg))"
    by (simp add: new_server_connection_def new_ws_connection_def new_conn_def ws_connection.extend_def)
  then show ?case unfolding begin_server_def by (rule session_begin_ok [OF dormant_new])
qed (rule server_session_apply_ok)

subsection \<open>The client side\<close>

inductive client_session :: "GlobalConfig \<Rightarrow> ws_connection session \<Rightarrow> bool" for cfg where
  starts: "client_session cfg (begin_client cfg)"
| event: "client_session cfg s \<Longrightarrow> client_session_enabled e s
    \<Longrightarrow> client_session_apply cfg e s = Some s' \<Longrightarrow> client_session cfg s'"

lemma handshake_completed_ok:
  assumes "session_ok s" and "pending s = [Ws_handshake]" and "io_running s"
    and "handshake_completed cfg failed s = Some s'"
  shows "session_ok s'"
proof (cases failed)
  case True
  then show ?thesis
    using session_stop_ok [OF assms(1-3)] assms(4) by (auto simp: handshake_completed_def Let_def)
next
  case False
  then obtain c where s': "asyncRead ((completed Ws_handshake s)\<lparr>ses := c\<rparr>) = Some s'"
    using assms(4) by (auto simp: handshake_completed_def Let_def bind_eq_Some_conv)
  show ?thesis
    by (rule established_ok [OF _ _ s']) (use assms(2,3) in \<open>simp_all add: completed_def\<close>)
qed

lemma client_session_apply_ok:
  assumes "session_ok s" and "client_session_enabled e s" and "client_session_apply cfg e s = Some s'"
  shows "session_ok s'"
proof (cases e)
  case (Handshake_done failed)
  then show ?thesis using assms handshake_completed_ok [OF assms(1) pending_single [OF assms(1)]] by auto
next
  case (Client_read r)
  then obtain c where "read_handler client_processMessage r (ses s) = Some c"
    using assms(3) by (auto simp: read_completed_def bind_eq_Some_conv)
  with read_completed_ok [OF assms(1) _ _ this] show ?thesis using assms(2,3) Client_read by auto
next
  case (Client_conn x)
  then show ?thesis using assms session_conn_ok by (auto simp: conn_enabled_def)
next
  case Client_exception
  then show ?thesis using assms io_exception_ok by auto
qed

lemma client_session_ok: "client_session cfg s \<Longrightarrow> session_ok s"
proof (induction rule: client_session.induct)
  case starts
  have "dormant new_ws_connection" "\<not> ws_open (ws_conn new_ws_connection)"
    by (simp_all add: dormant_def new_ws_connection_def new_publisher_manager_def
        new_subscriber_manager_def new_sa_manager_def new_thread_def new_conn_def)
  then show ?case unfolding begin_client_def by (rule session_begin_ok)
qed (rule client_session_apply_ok)

end
