(* ===== verification/Listener.thy ===== *)
theory Listener
  imports Connection Thread
begin

text \<open>
  \<^verbatim>\<open>src/connection/server.cpp\<close>: the thread of the server, which listens, accepts clients and
  listens again after its socket was lost, while the main thread may stop it at any point. The
  run loop and \<open>onStopThread\<close> are cut into the steps between which the other thread can act; the
  handlers of the I/O context run one at a time in the thread of the server.
\<close>

section \<open>Listening\<close>

text \<open>
  The results of the calls that open the listening socket: each tells whether it failed.
\<close>

record listen_io =
  resolve_ec :: bool
  open_ec :: bool
  option_ec :: bool
  bind_ec :: bool
  listen_ec :: bool

definition listen_fine :: listen_io where
  "listen_fine = \<lparr>resolve_ec = False, open_ec = False, option_ec = False, bind_ec = False, listen_ec = False\<rparr>"

text \<open>
  \<open>S_loop\<close> is the head of the outer loop, \<open>S_listen\<close> the inner one and \<open>S_listened\<close> the test after
  it; \<open>S_run\<close> is inside \<open>ioc.run()\<close>, \<open>S_returned\<close> behind it, \<open>S_lost\<close> and \<open>S_restart\<close> are the
  two statements that prepare the next attempt.
\<close>

datatype server_pc =
    S_loop | S_listen | S_listened | S_accept | S_run | S_returned | S_lost | S_restart | S_left

text \<open>
  \<open>accepts\<close> counts the outstanding \<open>async_accept\<close>, \<open>aborted\<close> the completed ones whose socket was
  closed before and whose handler has not run. \<open>stop_pc\<close> is how far another thread has come in
  \<open>stopThread\<close>, and \<open>executor_cancels\<close> how often the executor was cancelled.
\<close>

record server_node =
  s_pc :: server_pc
  s_stopping :: bool
  isListening :: bool
  acceptor_open :: bool
  accepts :: nat
  aborted :: nat
  ioc_stopped :: bool
  s_manager :: conn_manager
  stop_pc :: nat
  executor_cancels :: nat

definition new_server_node :: server_node where
  "new_server_node = \<lparr>s_pc = S_loop, s_stopping = False, isListening = False, acceptor_open = False,
     accepts = 0, aborted = 0, ioc_stopped = False, s_manager = new_conn_manager, stop_pc = 0,
     executor_cancels = 0\<rparr>"

text \<open>Closing the acceptor aborts an outstanding accept.\<close>

definition close_acceptor :: "server_node \<Rightarrow> server_node" where
  "close_acceptor s = s\<lparr>acceptor_open := False, accepts := 0, aborted := aborted s + accepts s\<rparr>"

definition handleError :: "server_node \<Rightarrow> server_node" where
  "handleError s = (if acceptor_open s then close_acceptor s else s)"

text \<open>Opening an acceptor that is open already is an error of \<open>open\<close>.\<close>

definition startListening :: "listen_io \<Rightarrow> server_node \<Rightarrow> bool \<times> server_node" where
  "startListening io s =
     (if resolve_ec io then (False, handleError s)
      else if open_ec io \<or> acceptor_open s then (False, handleError s)
      else let s = s\<lparr>acceptor_open := True\<rparr> in
        if option_ec io then (False, handleError s)
        else if bind_ec io then (False, handleError s)
        else if listen_ec io then (False, handleError s)
        else (True, s\<lparr>isListening := True\<rparr>))"

definition stopListening :: "server_node \<Rightarrow> server_node" where
  "stopListening s = close_acceptor (s\<lparr>isListening := False\<rparr>)"

text \<open>
  A second accept while one is outstanding would replace the I/O context \<open>newSockIOC\<close> that the
  first one uses, so it is \<open>None\<close>.
\<close>

definition asyncAccept :: "server_node \<Rightarrow> server_node option" where
  "asyncAccept s = (if accepts s > 0 then None else Some (s\<lparr>accepts := 1\<rparr>))"

text \<open>
  The outcome of an accept. \<open>Accepted b\<close> is a new client whose connection starts if \<open>b\<close> holds, and
  \<open>Accept_throws\<close> one whose connection object cannot be constructed: the exception leaves
  \<open>ioc.run()\<close>.
\<close>

datatype accept_result = Accepted bool | Accept_throws | Accept_error | Accept_canceled

definition accept_handler :: "accept_result \<Rightarrow> server_node \<Rightarrow> server_node option" where
  "accept_handler r s =
     (if \<not> acceptor_open s then Some s
      else case r of
        Accept_canceled \<Rightarrow> Some s
      | Accept_error \<Rightarrow> asyncAccept s
      | Accepted b \<Rightarrow> asyncAccept (s\<lparr>s_manager := startConnection b (s_manager s)\<rparr>)
      | Accept_throws \<Rightarrow> Some (s\<lparr>s_pc := S_lost\<rparr>))"

section \<open>The thread\<close>

text \<open>
  \<open>startThread\<close> calls \<open>onBeforeStartThread\<close>, which listens; without a listening socket there is no
  thread.
\<close>

definition server_onBeforeStartThread :: "listen_io \<Rightarrow> server_node \<Rightarrow> bool \<times> server_node" where
  "server_onBeforeStartThread io s = startListening io (s\<lparr>ioc_stopped := False\<rparr>)"

text \<open>A step of \<open>run\<close>; \<open>None\<close> when it waits inside \<open>ioc.run()\<close>, has left, or is undefined.\<close>

definition server_work :: "listen_io \<Rightarrow> server_node \<Rightarrow> server_node option" where
  "server_work io s =
     (case s_pc s of
        S_loop \<Rightarrow> Some (if s_stopping s then s\<lparr>s_pc := S_left\<rparr>
          else if isListening s then s\<lparr>s_pc := S_accept\<rparr> else s\<lparr>s_pc := S_listen\<rparr>)
      | S_listen \<Rightarrow> Some (if s_stopping s then s\<lparr>s_pc := S_left\<rparr>
          else case startListening io s of
            (True, s) \<Rightarrow> s\<lparr>s_pc := S_listened\<rparr>
          | (False, s) \<Rightarrow> s)
      | S_listened \<Rightarrow> Some (if s_stopping s then s\<lparr>s_pc := S_left\<rparr> else s\<lparr>s_pc := S_accept\<rparr>)
      | S_accept \<Rightarrow> map_option (\<lambda>s. s\<lparr>s_pc := S_run\<rparr>) (asyncAccept s)
      | S_run \<Rightarrow> if ioc_stopped s then Some (s\<lparr>s_pc := S_returned\<rparr>)
          else if accepts s = 0 \<and> aborted s = 0 \<and> stop_posts (s_manager s) = []
          then Some (s\<lparr>s_pc := S_returned, ioc_stopped := True\<rparr>) else None
      | S_returned \<Rightarrow> Some (if s_stopping s then s\<lparr>s_pc := S_left\<rparr> else s\<lparr>s_pc := S_lost\<rparr>)
      | S_lost \<Rightarrow> Some ((stopListening s)\<lparr>s_pc := S_restart\<rparr>)
      | S_restart \<Rightarrow> Some (s\<lparr>ioc_stopped := False, s_pc := S_loop\<rparr>)
      | S_left \<Rightarrow> None)"

text \<open>\<open>stopThread\<close> with \<open>onStopThread\<close>, statement by statement, in another thread.\<close>

definition server_stop :: "server_node \<Rightarrow> server_node" where
  "server_stop s =
     (let s' = s\<lparr>stop_pc := stop_pc s + 1\<rparr> in
      if stop_pc s = 0 then s'\<lparr>s_stopping := True\<rparr>
      else if stop_pc s = 1 then s'\<lparr>ioc_stopped := True\<rparr>
      else if stop_pc s = 2 then stopListening s'
      else if stop_pc s = 3 then s'\<lparr>s_manager := stopAllConnections (s_manager s)\<rparr>
      else if stop_pc s = 4 then s'\<lparr>executor_cancels := executor_cancels s + 1\<rparr>
      else s)"

text \<open>
  What can happen: a step of the thread, the handler of an accept that completed or was aborted, a
  connection that posts its stop, the handler of that post, which may throw, and a step of
  \<open>stopThread\<close>.
\<close>

datatype server_node_event =
    Work_server listen_io | Accept_done accept_result | Accept_aborted
  | Ask_stop nat close_code string | Stop_posted bool | Stop_server

definition in_ioc :: "server_node \<Rightarrow> bool" where
  "in_ioc s \<longleftrightarrow> s_pc s = S_run \<and> \<not> ioc_stopped s"

fun node_enabled :: "server_node_event \<Rightarrow> server_node \<Rightarrow> bool" where
  "node_enabled (Work_server io) s \<longleftrightarrow> s_pc s \<noteq> S_left \<and> (s_pc s = S_run \<longrightarrow>
     ioc_stopped s \<or> accepts s = 0 \<and> aborted s = 0 \<and> stop_posts (s_manager s) = [])"
| "node_enabled (Accept_done r) s \<longleftrightarrow> in_ioc s \<and> accepts s > 0"
| "node_enabled Accept_aborted s \<longleftrightarrow> in_ioc s \<and> aborted s > 0"
| "node_enabled (Ask_stop k cc cr) s \<longleftrightarrow> True"
| "node_enabled (Stop_posted throws) s \<longleftrightarrow> in_ioc s \<and> stop_posts (s_manager s) \<noteq> []"
| "node_enabled Stop_server s \<longleftrightarrow> True"

fun node_apply :: "server_node_event \<Rightarrow> server_node \<Rightarrow> server_node option" where
  "node_apply (Work_server io) s = server_work io s"
| "node_apply (Accept_done r) s = accept_handler r (s\<lparr>accepts := accepts s - 1\<rparr>)"
| "node_apply Accept_aborted s = accept_handler Accept_canceled (s\<lparr>aborted := aborted s - 1\<rparr>)"
| "node_apply (Ask_stop k cc cr) s = Some (s\<lparr>s_manager := stopConnection k cc cr (s_manager s)\<rparr>)"
| "node_apply (Stop_posted throws) s =
     (let s = s\<lparr>s_manager := run_stop_post (s_manager s)\<rparr> in
      Some (if throws then s\<lparr>s_pc := S_lost\<rparr> else s))"
| "node_apply Stop_server s = Some (server_stop s)"

text \<open>The states after a successful start.\<close>

inductive server_reachable :: "server_node \<Rightarrow> bool" where
  started: "server_onBeforeStartThread io new_server_node = (True, s) \<Longrightarrow> server_reachable s"
| event: "server_reachable s \<Longrightarrow> node_enabled e s \<Longrightarrow> node_apply e s = Some s' \<Longrightarrow> server_reachable s'"

section \<open>At most one accept\<close>

definition server_inv :: "server_node \<Rightarrow> bool" where
  "server_inv s \<longleftrightarrow>
     accepts s \<le> 1 \<and> (accepts s = 1 \<longrightarrow> s_pc s \<in> {S_run, S_returned, S_lost, S_left})
     \<and> (s_stopping s \<longleftrightarrow> stop_pc s \<ge> 1) \<and> (s_pc s = S_left \<longrightarrow> s_stopping s)
     \<and> (stop_pc s \<ge> 2 \<longrightarrow> ioc_stopped s \<or> s_pc s \<in> {S_loop, S_left})
     \<and> (\<not> s_stopping s \<longrightarrow> (isListening s \<longleftrightarrow> acceptor_open s)
          \<and> (s_pc s \<in> {S_listen, S_restart} \<longrightarrow> \<not> isListening s)
          \<and> (s_pc s \<in> {S_listened, S_accept, S_run, S_returned, S_lost} \<longrightarrow> isListening s)
          \<and> (ioc_stopped s \<longrightarrow> s_pc s \<in> {S_returned, S_lost, S_restart}))"

lemmas listen_defs = startListening_def handleError_def close_acceptor_def stopListening_def Let_def

lemma server_inv_start:
  "server_onBeforeStartThread io new_server_node = (True, s) \<Longrightarrow> server_inv s"
  by (auto simp: server_onBeforeStartThread_def listen_defs new_server_node_def server_inv_def
      split: if_splits)

text \<open>Listening succeeds and opens the socket, or leaves it closed.\<close>

lemma startListening_cases:
  "startListening io s = (True, s\<lparr>acceptor_open := True, isListening := True\<rparr>) \<and> \<not> acceptor_open s
   \<or> startListening io s = (False, close_acceptor s) \<and> acceptor_open s
   \<or> startListening io s = (False, s) \<and> \<not> acceptor_open s
   \<or> startListening io s = (False, close_acceptor (s\<lparr>acceptor_open := True\<rparr>)) \<and> \<not> acceptor_open s"
  by (simp add: startListening_def handleError_def Let_def)

lemma server_inv_listen:
  assumes "server_inv s" and "s_pc s = S_listen" and "\<not> s_stopping s"
  shows "server_inv (case startListening io s of (True, s) \<Rightarrow> s\<lparr>s_pc := S_listened\<rparr> | (False, s) \<Rightarrow> s)"
  using startListening_cases [of io s]
  by (elim disjE) (use assms in \<open>auto simp: server_inv_def close_acceptor_def\<close>)

lemma server_inv_work:
  assumes "server_work io s = Some s'" and "server_inv s"
  shows "server_inv s'"
proof (cases "s_pc s = S_listen \<and> \<not> s_stopping s")
  case True
  then show ?thesis using assms server_inv_listen [of s io] by (simp add: server_work_def)
next
  case False
  then show ?thesis
    using assms
    by (cases "s_pc s")
      (auto simp: server_work_def asyncAccept_def stopListening_def close_acceptor_def server_inv_def
        split: if_splits)
qed

lemma server_inv_handler:
  assumes "accept_handler r s = Some s'" and "server_inv s" and "accepts s = 0 \<or> r = Accept_canceled" and "in_ioc s"
  shows "server_inv s'"
  using assms
  by (cases r) (auto simp: accept_handler_def asyncAccept_def in_ioc_def server_inv_def split: if_splits)

lemma server_inv_stop:
  assumes "server_inv s"
  shows "server_inv (server_stop s)"
proof (cases "stop_pc s > 4")
  case True
  then show ?thesis using assms by (simp add: server_stop_def Let_def)
next
  case False
  then consider "stop_pc s = 0" | "stop_pc s = 1" | "stop_pc s = 2" | "stop_pc s = 3" | "stop_pc s = 4"
    by linarith
  then show ?thesis
    by cases (use assms in \<open>auto simp: server_stop_def listen_defs server_inv_def\<close>)
qed

lemma server_inv_request:
  "server_inv s \<Longrightarrow> server_inv (s\<lparr>s_manager := m\<rparr>)"
  by (auto simp: server_inv_def)

lemma server_inv_apply:
  assumes "node_apply e s = Some s'" and "node_enabled e s" and "server_inv s"
  shows "server_inv s'"
proof (cases e)
  case (Accept_done r)
  then have "accepts s = 1" "in_ioc s" using assms by (auto simp: server_inv_def)
  then have "server_inv (s\<lparr>accepts := accepts s - 1\<rparr>)" "in_ioc (s\<lparr>accepts := accepts s - 1\<rparr>)"
    using assms(3) by (auto simp: server_inv_def in_ioc_def)
  then show ?thesis using assms Accept_done \<open>accepts s = 1\<close> server_inv_handler by simp
next
  case Accept_aborted
  then have "server_inv (s\<lparr>aborted := aborted s - 1\<rparr>)" "in_ioc (s\<lparr>aborted := aborted s - 1\<rparr>)"
    using assms by (auto simp: server_inv_def in_ioc_def)
  then show ?thesis using assms Accept_aborted server_inv_handler by simp
next
  case (Work_server io)
  then show ?thesis using assms(1,3) by (auto intro: server_inv_work)
next
  case (Stop_posted throws)
  then show ?thesis
    using assms by (auto simp: server_inv_def in_ioc_def Let_def split: if_splits)
next
  case Stop_server
  then show ?thesis using assms(1,3) by (auto intro: server_inv_stop)
qed (use assms(1,3) in \<open>auto intro: server_inv_request\<close>)

lemma server_reachable_inv: "server_reachable s \<Longrightarrow> server_inv s"
  by (induction rule: server_reachable.induct) (auto intro: server_inv_start server_inv_apply)

lemma node_apply_defined:
  assumes "node_enabled e s" and "server_inv s"
  shows "\<exists>s'. node_apply e s = Some s'"
proof (cases e)
  case (Work_server io)
  then show ?thesis
    using assms by (cases "s_pc s") (auto simp: server_work_def asyncAccept_def server_inv_def)
next
  case (Accept_done r)
  then show ?thesis
    using assms by (cases r) (auto simp: accept_handler_def asyncAccept_def server_inv_def)
qed (auto simp: accept_handler_def Let_def)

text \<open>What the steps of the thread and of \<open>stopThread\<close> leave alone.\<close>

lemma server_work_manager: "server_work io n = Some n' \<Longrightarrow> s_manager n' = s_manager n"
  using startListening_cases [of io n]
  by (cases "s_pc n")
    (auto simp: server_work_def asyncAccept_def stopListening_def close_acceptor_def split: if_splits)

lemma stop_pc_stop: "stop_pc (server_stop s) = (if stop_pc s \<le> 4 then stop_pc s + 1 else stop_pc s)"
  by (auto simp: server_stop_def stopListening_def close_acceptor_def Let_def)

lemma stop_pc_close [simp]: "stop_pc (close_acceptor s) = stop_pc s"
  by (simp add: close_acceptor_def)

lemma stop_pc_work: "server_work io s = Some s' \<Longrightarrow> stop_pc s' = stop_pc s"
  using startListening_cases [of io s]
  by (cases "s_pc s")
    (auto simp: server_work_def asyncAccept_def stopListening_def split: if_splits)

section \<open>The thread ends, or listens again\<close>

text \<open>The steps that the thread takes alone, with the results of listening.\<close>

fun server_alone :: "listen_io list \<Rightarrow> server_node \<Rightarrow> server_node" where
  "server_alone [] s = s"
| "server_alone (io # ios) s = (case server_work io s of None \<Rightarrow> s | Some s' \<Rightarrow> server_alone ios s')"

lemma server_stops:
  assumes "server_inv s" and "stop_pc s \<ge> 2" and "length ios = 3"
  shows "s_pc (server_alone ios s) = S_left"
proof -
  obtain a b c where "ios = [a, b, c]"
    using assms(3) by (auto simp: numeral_eq_Suc length_Suc_conv)
  then show ?thesis
    using assms(1,2)
    by (cases "s_pc s") (auto simp: server_inv_def server_work_def asyncAccept_def listen_defs)
qed

definition waiting_for_clients :: "server_node \<Rightarrow> bool" where
  "waiting_for_clients s \<longleftrightarrow> in_ioc s \<and> acceptor_open s \<and> (accepts s = 1 \<or> aborted s > 0 \<or> stop_posts (s_manager s) \<noteq> [])"

text \<open>How many steps the thread needs until it waits for clients again.\<close>

fun listen_rank :: "server_node \<Rightarrow> nat" where
  "listen_rank s = (case s_pc s of
      S_loop \<Rightarrow> if isListening s then 2 else 4
    | S_listen \<Rightarrow> 3
    | S_listened \<Rightarrow> 2
    | S_accept \<Rightarrow> 1
    | S_run \<Rightarrow> if accepts s = 0 \<and> aborted s = 0 \<and> stop_posts (s_manager s) = [] then 8 else 0
    | S_returned \<Rightarrow> 7
    | S_lost \<Rightarrow> 6
    | S_restart \<Rightarrow> 5
    | S_left \<Rightarrow> 0)"

lemma listen_rank_bound: "listen_rank s \<le> 8"
  by (auto split: server_pc.splits)

lemma server_listens_again:
  assumes "server_inv s" and "\<not> s_stopping s"
  shows "waiting_for_clients (server_alone (replicate (listen_rank s) listen_fine) s)"
  using assms
  by (cases "s_pc s")
    (auto simp: numeral_eq_Suc server_inv_def server_work_def asyncAccept_def listen_defs listen_fine_def
      waiting_for_clients_def in_ioc_def)

end
