(* ===== verification/World.thy ===== *)
theory World
  imports Session Listener
begin

text \<open>
  The server and its connections together: every connection that the thread of the server accepts
  has a session of its own, whose thread runs in parallel; a session that asks to be stopped posts
  its request to the strand of the server (\<open>ConnectionManager::stopConnection\<close>), and the server stops,
  joins and closes the connection. The two sides are the models of \<open>Listener\<close> and \<open>Session\<close>.
\<close>

section \<open>The state and its steps\<close>

record world =
  w_node :: server_node
  w_sessions :: "nat \<Rightarrow> server_connection session option"

definition conns :: "server_node \<Rightarrow> nat list" where
  "conns n = connections (s_manager n)"

definition posted_stops :: "server_node \<Rightarrow> nat set" where
  "posted_stops n = fst ` set (stop_posts (s_manager n))"

text \<open>
  \<open>stopThread\<close>, \<open>joinThread\<close> and \<open>close\<close> of a connection. The code and the reason do not change its
  state; closing is undefined while a frame is being written.
\<close>

definition close_session :: "server_connection session \<Rightarrow> server_connection session option" where
  "close_session s =
     map_option (\<lambda>(_, c). s\<lparr>io_running := False, ses := c\<rparr>)
       (ws_close False False CC_going_away [] (ws_onStopThread (ses s)))"

text \<open>The stop requests that a session has made in a step, by itself or by a failed write.\<close>

definition reports :: "server_connection session \<Rightarrow> server_connection session \<Rightarrow> (close_code \<times> string) list" where
  "reports s s' = drop (length (ws_stops (ses s))) (ws_stops (ses s'))
     @ replicate (stop_requests (ws_conn (ses s')) - stop_requests (ws_conn (ses s)))
         (CC_internal_error, ''Error on write'')"

definition post_stops :: "nat \<Rightarrow> (close_code \<times> string) list \<Rightarrow> server_node \<Rightarrow> server_node" where
  "post_stops k rs n = n\<lparr>s_manager := foldl (\<lambda>m (cc, cr). stopConnection k cc cr m) (s_manager n) rs\<rparr>"

text \<open>The sessions after the manager has started or closed connections.\<close>

definition sync_sessions ::
    "GlobalConfig \<Rightarrow> server_node \<Rightarrow> server_node \<Rightarrow> (nat \<Rightarrow> server_connection session option)
     \<Rightarrow> nat \<Rightarrow> server_connection session option" where
  "sync_sessions cfg n n' S k =
     (if k \<in> set (conns n') \<and> k \<notin> set (conns n) then Some (begin_server cfg)
      else if k \<in> set (conns n) \<and> k \<notin> set (conns n') then (case S k of None \<Rightarrow> None | Some s \<Rightarrow> close_session s)
      else S k)"

definition closing_defined ::
    "server_node \<Rightarrow> server_node \<Rightarrow> (nat \<Rightarrow> server_connection session option) \<Rightarrow> bool" where
  "closing_defined n n' S \<longleftrightarrow>
     list_all (\<lambda>k. k \<in> set (conns n') \<or> (case S k of None \<Rightarrow> False | Some s \<Rightarrow> close_session s \<noteq> None)) (conns n)"

datatype world_event = Node_event server_node_event | Session_event nat server_session_event

fun world_enabled :: "world_event \<Rightarrow> world \<Rightarrow> bool" where
  "world_enabled (Node_event e) w \<longleftrightarrow> node_enabled e (w_node w) \<and> (\<forall>k cc cr. e \<noteq> Ask_stop k cc cr)"
| "world_enabled (Session_event k e) w \<longleftrightarrow>
     (case w_sessions w k of None \<Rightarrow> False | Some s \<Rightarrow> server_session_enabled e s)"

fun world_apply :: "GlobalConfig \<Rightarrow> auth_plugin \<Rightarrow> world_event \<Rightarrow> world \<Rightarrow> world option" where
  "world_apply cfg plugin (Node_event e) w = do {
     n \<leftarrow> node_apply e (w_node w);
     if closing_defined (w_node w) n (w_sessions w)
     then Some (w\<lparr>w_node := n, w_sessions := sync_sessions cfg (w_node w) n (w_sessions w)\<rparr>)
     else None
   }"
| "world_apply cfg plugin (Session_event k e) w = do {
     s \<leftarrow> w_sessions w k;
     s' \<leftarrow> server_session_apply cfg plugin e s;
     Some (w\<lparr>w_node := post_stops k (reports s s') (w_node w), w_sessions := (w_sessions w)(k \<mapsto> s')\<rparr>)
   }"

text \<open>The states after a successful start, with the events that have led to them.\<close>

inductive world_run :: "GlobalConfig \<Rightarrow> auth_plugin \<Rightarrow> world_event list \<Rightarrow> world \<Rightarrow> bool" for cfg plugin where
  starts: "server_onBeforeStartThread io new_server_node = (True, n)
    \<Longrightarrow> world_run cfg plugin [] \<lparr>w_node = n, w_sessions = (\<lambda>k. None)\<rparr>"
| event: "world_run cfg plugin es w \<Longrightarrow> world_enabled e w \<Longrightarrow> world_apply cfg plugin e w = Some w'
    \<Longrightarrow> world_run cfg plugin (es @ [e]) w'"

text \<open>An event is one of the two kinds of steps.\<close>

lemma world_step_cases:
  assumes "world_enabled e w" and "world_apply cfg plugin e w = Some w'"
  obtains (Node) x n where "e = Node_event x" and "node_enabled x (w_node w)"
      and "\<forall>k cc cr. x \<noteq> Ask_stop k cc cr" and "node_apply x (w_node w) = Some n"
      and "closing_defined (w_node w) n (w_sessions w)"
      and "w' = w\<lparr>w_node := n, w_sessions := sync_sessions cfg (w_node w) n (w_sessions w)\<rparr>"
  | (Session) k x s s' where "e = Session_event k x" and "w_sessions w k = Some s"
      and "server_session_enabled x s" and "server_session_apply cfg plugin x s = Some s'"
      and "w' = w\<lparr>w_node := post_stops k (reports s s') (w_node w), w_sessions := (w_sessions w)(k \<mapsto> s')\<rparr>"
  using assms by (cases e) (auto simp: bind_eq_Some_conv split: if_splits option.splits)

section \<open>What the server does to its connections\<close>

text \<open>
  A change of the manager: a connection that is there was there or is the next one, the requests of
  those that stay are kept, and the numbers only grow.
\<close>

definition manager_change :: "conn_manager \<Rightarrow> conn_manager \<Rightarrow> bool" where
  "manager_change m m' \<longleftrightarrow>
     (\<forall>k \<in> set (connections m'). k \<in> set (connections m) \<or> k = next_connection m \<and> k < next_connection m')
     \<and> (\<forall>k \<in> set (connections m'). k \<in> fst ` set (stop_posts m) \<longrightarrow> k \<in> fst ` set (stop_posts m'))
     \<and> next_connection m \<le> next_connection m'"

lemma manager_change_refl [simp]: "manager_change m m"
  by (simp add: manager_change_def)

lemma manager_change_start: "manager_change m (startConnection b m)"
  by (auto simp: manager_change_def startConnection_def Let_def)

lemma manager_change_internal:
  "distinct (connections m) \<Longrightarrow> manager_change m (stopConnectionInternal k cc cr b m)"
  by (auto simp: manager_change_def stopConnectionInternal_def)

lemma manager_change_post:
  assumes "distinct (connections m)"
  shows "manager_change m (run_stop_post m)"
  using assms
  by (auto simp: manager_change_def run_stop_post_def stopConnectionInternal_def split: list.splits)

lemma next_connection_stop_all: "next_connection (stopAllConnections m) = next_connection m"
proof (induction m rule: stopAllConnections.induct)
  case (1 m)
  then show ?case
    by (subst stopAllConnections.simps) (auto simp: stopConnectionInternal_def split: list.split)
qed

lemma manager_change_stop_all: "manager_change m (stopAllConnections m)"
  by (simp add: manager_change_def stopAllConnections_empty next_connection_stop_all)

text \<open>The invariant of the manager holds in the server.\<close>

lemma post_manager_step: "manager_inv m \<Longrightarrow> manager_inv (run_stop_post m)"
  by (rule manager_inv_step [OF manager_step.stop])

lemma node_manager_inv:
  assumes "node_apply e n = Some n'" and "manager_inv (s_manager n)"
  shows "manager_inv (s_manager n')"
proof (cases e)
  case (Work_server io)
  then have "s_manager n' = s_manager n" using assms(1) server_work_manager by simp
  then show ?thesis using assms(2) by simp
next
  case (Accept_done r)
  then show ?thesis
    using assms manager_inv_step [OF manager_step.start]
    by (auto simp: accept_handler_def asyncAccept_def split: if_splits accept_result.splits)
next
  case Accept_aborted
  then show ?thesis using assms by (auto simp: accept_handler_def split: if_splits)
next
  case (Ask_stop k cc cr)
  then show ?thesis using assms manager_inv_step [OF manager_step.request] by auto
next
  case (Stop_posted t)
  then show ?thesis using assms post_manager_step by (auto simp: Let_def split: if_splits)
next
  case Stop_server
  then show ?thesis
    using assms manager_inv_stop_all
    by (auto simp: server_stop_def stopListening_def close_acceptor_def Let_def split: if_splits)
qed

lemma node_manager_change:
  assumes "node_apply e n = Some n'" and "manager_inv (s_manager n)" and "\<forall>k cc cr. e \<noteq> Ask_stop k cc cr"
  shows "manager_change (s_manager n) (s_manager n')"
proof (cases e)
  case (Work_server io)
  then have "s_manager n' = s_manager n" using assms(1) server_work_manager by simp
  then show ?thesis by simp
next
  case (Accept_done r)
  then show ?thesis
    using assms manager_change_start
    by (auto simp: accept_handler_def asyncAccept_def split: if_splits accept_result.splits)
next
  case Accept_aborted
  then show ?thesis using assms by (auto simp: accept_handler_def split: if_splits)
next
  case (Stop_posted t)
  then show ?thesis
    using assms manager_change_post by (auto simp: manager_inv_def Let_def split: if_splits)
next
  case Stop_server
  then show ?thesis
    using assms manager_change_stop_all
    by (auto simp: server_stop_def stopListening_def close_acceptor_def Let_def split: if_splits)
qed (use assms in auto)


lemma manager_inv_next: "manager_inv m \<Longrightarrow> k \<in> set (connections m) \<Longrightarrow> k < next_connection m"
  by (auto simp: manager_inv_def connection_ok_def)

lemma post_stops_reachable: "server_reachable n \<Longrightarrow> server_reachable (post_stops k rs n)"
proof (induction rs arbitrary: n)
  case Nil
  then show ?case by (simp add: post_stops_def)
next
  case (Cons r rs)
  obtain cc cr where r: "r = (cc, cr)" by fastforce
  have "server_reachable (n\<lparr>s_manager := stopConnection k cc cr (s_manager n)\<rparr>)"
    by (rule server_reachable.event [where e = "Ask_stop k cc cr", OF Cons.prems]) simp_all
  from Cons.IH [OF this] show ?case by (simp add: post_stops_def r)
qed

lemma stopConnection_fold:
  "connections (foldl (\<lambda>m (cc, cr). stopConnection k cc cr m) m rs) = connections m"
  "next_connection (foldl (\<lambda>m (cc, cr). stopConnection k cc cr m) m rs) = next_connection m"
  "stop_posts (foldl (\<lambda>m (cc, cr). stopConnection k cc cr m) m rs) = stop_posts m @ map (Pair k) rs"
  by (induction rs arbitrary: m) (auto simp: stopConnection_def split: prod.split)

lemma post_stops_frame [simp]:
  "conns (post_stops k rs n) = conns n"
  "next_connection (s_manager (post_stops k rs n)) = next_connection (s_manager n)"
  "posted_stops (post_stops k rs n) = posted_stops n \<union> (if rs = [] then {} else {k})"
  by (auto simp: post_stops_def conns_def posted_stops_def stopConnection_fold image_Un image_image image_constant_conv)

lemma post_stops_manager: "manager_inv (s_manager n) \<Longrightarrow> manager_inv (s_manager (post_stops k rs n))"
proof (induction rs arbitrary: n)
  case Nil
  then show ?case by (simp add: post_stops_def)
next
  case (Cons r rs)
  obtain cc cr where r: "r = (cc, cr)" by fastforce
  have "manager_inv (stopConnection k cc cr (s_manager n))"
    using Cons.prems by (rule manager_inv_step [OF manager_step.request])
  from Cons.IH [of "n\<lparr>s_manager := stopConnection k cc cr (s_manager n)\<rparr>"] this show ?case
    by (simp add: post_stops_def r)
qed

section \<open>No connection is forgotten\<close>

text \<open>A session that wants to be stopped, and one that the server has closed.\<close>

definition requested :: "server_connection session \<Rightarrow> bool" where
  "requested s \<longleftrightarrow> ws_stops (ses s) \<noteq> [] \<or> stop_requests (ws_conn (ses s)) > 0"

definition session_closed :: "server_connection session \<Rightarrow> bool" where
  "session_closed s \<longleftrightarrow> \<not> io_running s \<and> \<not> ws_open (ws_conn (ses s)) \<and> dormant (ses s)"

definition world_ok :: "GlobalConfig \<Rightarrow> auth_plugin \<Rightarrow> world \<Rightarrow> bool" where
  "world_ok cfg plugin w \<longleftrightarrow>
     server_reachable (w_node w) \<and> manager_inv (s_manager (w_node w))
     \<and> (\<forall>k \<in> set (conns (w_node w)). \<exists>s. w_sessions w k = Some s \<and> server_session cfg plugin s
          \<and> (requested s \<longrightarrow> k \<in> posted_stops (w_node w)))
     \<and> (\<forall>k s. w_sessions w k = Some s \<longrightarrow> k < next_connection (s_manager (w_node w))
          \<and> (k \<notin> set (conns (w_node w)) \<longrightarrow> session_closed s))"

lemma close_session_closed: "close_session s = Some s' \<Longrightarrow> session_closed s'"
  by (auto simp: close_session_def ws_close_def session_closed_def ws_onStopThread_def dormant_def
      pm_stop_def sm_stop_def sam_stop_def joinThread_def split: if_splits)

text \<open>A closed session stays closed.\<close>

lemma session_closed_apply:
  assumes "server_session_apply cfg plugin e s = Some s'" and "server_session_enabled e s" and "session_closed s"
  shows "session_closed s'"
proof (cases e)
  case (Conn_event x)
  then obtain c where c: "conn_apply x (ws_conn (ses s)) = Some c" "s' = s\<lparr>ses := (ses s)\<lparr>ws_conn := c\<rparr>\<rparr>"
    and "x \<noteq> Opened"
    using assms(1,2) by (auto simp: conn_enabled_def)
  then have "\<not> ws_open c" using conn_keeps_closed assms(3) by (auto simp: session_closed_def)
  then show ?thesis using assms(3) c(2) by (simp add: session_closed_def dormant_def)
qed (use assms in \<open>auto simp: session_closed_def\<close>)

text \<open>What a session reports is exactly what makes it want to be stopped.\<close>

lemma requested_reports: "requested s' \<Longrightarrow> \<not> requested s \<Longrightarrow> reports s s' \<noteq> []"
  by (auto simp: requested_def reports_def)

lemma begin_not_requested: "\<not> requested (begin_server cfg)"
  by (simp add: requested_def begin_server_def begin_session_def new_server_connection_def
      new_ws_connection_def ws_connection.extend_def new_conn_def)

lemma world_ok_session:
  assumes "world_ok cfg plugin w" and "w_sessions w k = Some s" and "server_session_enabled e s"
    and "server_session_apply cfg plugin e s = Some s'"
    and "w' = w\<lparr>w_node := post_stops k (reports s s') (w_node w), w_sessions := (w_sessions w)(k \<mapsto> s')\<rparr>"
  shows "world_ok cfg plugin w'"
  unfolding world_ok_def
proof (intro conjI ballI allI impI)
  show "server_reachable (w_node w')" "manager_inv (s_manager (w_node w'))"
    using assms(1,5) post_stops_reachable post_stops_manager by (auto simp: world_ok_def)
  fix j assume j: "j \<in> set (conns (w_node w'))"
  then have "j \<in> set (conns (w_node w))" by (simp add: assms(5))
  then obtain t where t: "w_sessions w j = Some t" "server_session cfg plugin t"
    "requested t \<longrightarrow> j \<in> posted_stops (w_node w)"
    using assms(1) by (auto simp: world_ok_def)
  show "\<exists>s. w_sessions w' j = Some s \<and> server_session cfg plugin s
      \<and> (requested s \<longrightarrow> j \<in> posted_stops (w_node w'))"
  proof (cases "j = k")
    case True
    then have "t = s" using t(1) assms(2) by simp
    have "server_session cfg plugin s'"
      using t(2) assms(3,4) unfolding \<open>t = s\<close> by (rule server_session.event)
    then show ?thesis
      using True t(3) requested_reports [of s' s] by (auto simp: assms(5) \<open>t = s\<close>)
  qed (use t in \<open>auto simp: assms(5)\<close>)
next
  fix j t assume j: "w_sessions w' j = Some t"
  show "j < next_connection (s_manager (w_node w'))"
    using j assms(1,2) by (auto simp: assms(5) world_ok_def split: if_splits)
  assume out: "j \<notin> set (conns (w_node w'))"
  show "session_closed t"
  proof (cases "j = k")
    case True
    then have "session_closed s" using out assms(1,2) by (auto simp: assms(5) world_ok_def)
    from session_closed_apply [OF assms(4,3) this] show ?thesis using True j by (simp add: assms(5))
  qed (use j out assms(1) in \<open>auto simp: assms(5) world_ok_def\<close>)
qed

lemma world_ok_node:
  assumes "world_ok cfg plugin w" and "node_enabled e (w_node w)" and "\<forall>k cc cr. e \<noteq> Ask_stop k cc cr"
    and "node_apply e (w_node w) = Some n" and "closing_defined (w_node w) n (w_sessions w)"
  shows "world_ok cfg plugin (w\<lparr>w_node := n, w_sessions := sync_sessions cfg (w_node w) n (w_sessions w)\<rparr>)"
proof -
  let ?S = "sync_sessions cfg (w_node w) n (w_sessions w)"
  have old: "server_reachable (w_node w)" "manager_inv (s_manager (w_node w))"
    using assms(1) by (simp_all add: world_ok_def)
  have change: "manager_change (s_manager (w_node w)) (s_manager n)"
    using node_manager_change [OF assms(4) old(2) assms(3)] .
  have inv: "manager_inv (s_manager n)" using node_manager_inv [OF assms(4) old(2)] .
  have live: "\<exists>s. ?S k = Some s \<and> server_session cfg plugin s \<and> (requested s \<longrightarrow> k \<in> posted_stops n)"
    if k: "k \<in> set (conns n)" for k
  proof (cases "k \<in> set (conns (w_node w))")
    case True
    then obtain s where "w_sessions w k = Some s" "server_session cfg plugin s"
      "requested s \<longrightarrow> k \<in> posted_stops (w_node w)"
      using assms(1) by (auto simp: world_ok_def)
    then show ?thesis
      using k True change by (auto simp: sync_sessions_def manager_change_def conns_def posted_stops_def)
  next
    case False
    then show ?thesis
      using k server_session.starts begin_not_requested by (auto simp: sync_sessions_def)
  qed
  have rest: "k < next_connection (s_manager n) \<and> (k \<notin> set (conns n) \<longrightarrow> session_closed s)"
    if k: "?S k = Some s" for k s
  proof (cases "k \<in> set (conns n)")
    case True
    then show ?thesis using manager_inv_next [OF inv] by (simp add: conns_def)
  next
    case out: False
    have grows: "next_connection (s_manager (w_node w)) \<le> next_connection (s_manager n)"
      using change by (simp add: manager_change_def)
    show ?thesis
    proof (cases "k \<in> set (conns (w_node w))")
      case True
      then have "k < next_connection (s_manager (w_node w))"
        using manager_inv_next [OF old(2)] by (simp add: conns_def)
      moreover have "session_closed s"
        using k True out close_session_closed by (auto simp: sync_sessions_def split: option.splits)
      ultimately show ?thesis using grows by simp
    next
      case False
      then have "w_sessions w k = Some s" using k out by (simp add: sync_sessions_def)
      then have "k < next_connection (s_manager (w_node w))" "session_closed s"
        using assms(1) False by (auto simp: world_ok_def)
      then show ?thesis using grows by simp
    qed
  qed
  have "server_reachable n" using server_reachable.event [OF old(1) assms(2,4)] .
  then show ?thesis using inv live rest by (simp add: world_ok_def)
qed

lemma world_ok_run: "world_run cfg plugin es w \<Longrightarrow> world_ok cfg plugin w"
proof (induction rule: world_run.induct)
  case (starts io n)
  then have "s_manager n = new_conn_manager"
    using startListening_cases [of io "new_server_node\<lparr>ioc_stopped := False\<rparr>"]
    by (auto simp: server_onBeforeStartThread_def new_server_node_def)
  then show ?case
    using server_reachable.started [OF starts] manager_start
    by (simp add: world_ok_def conns_def new_conn_manager_def)
next
  case (event es w e w')
  from event.hyps(2,3) show ?case
  proof (cases rule: world_step_cases)
    case (Node x n)
    then show ?thesis using world_ok_node [OF event.IH] by blast
  next
    case (Session k x s s')
    then show ?thesis using world_ok_session [OF event.IH] by blast
  qed
qed

section \<open>No connection works before its client was authorized\<close>

text \<open>The managers are dormant until a key was granted, and granted is only a key the plugin can accept.\<close>

definition gate_ok :: "auth_plugin \<Rightarrow> server_connection \<Rightarrow> bool" where
  "gate_ok plugin c \<longleftrightarrow> (dormant c \<or> granted c \<noteq> []) \<and> (\<forall>key \<in> set (granted c). \<exists>a. isValid (plugin key a))"

lemma gate_ok_frame:
  "gate_ok plugin c \<Longrightarrow> dormant c' = dormant c \<Longrightarrow> granted c' = granted c \<Longrightarrow> gate_ok plugin c'"
  by (simp add: gate_ok_def)

lemma dormant_updates [simp]:
  "dormant (c\<lparr>authentication_info := a\<rparr>) = dormant c"
  "dormant (c\<lparr>authenticationCheckTimer := b\<rparr>) = dormant c"
  "dormant (d\<lparr>ws_conn := e\<rparr>) = dormant d"
  by (simp_all add: dormant_def)

lemma onAuthorized_granted:
  "onAuthorized cfg (c :: server_connection) = Some c' \<Longrightarrow> granted c' = granted c"
  by (auto simp: onAuthorized_def bind_eq_Some_conv)

lemma gate_ok_validate:
  assumes "validateUserKeyForAuthentication cfg plugin key c = Some c'" and "\<not> authenticationOmit cfg"
    and "gate_ok plugin c"
  shows "gate_ok plugin c'"
proof (cases "authentication_info c")
  case None
  then have "c' = request_stop CC_going_away ''Authentication cannot be validated'' c"
    using assms(1,2) by (simp add: validateUserKeyForAuthentication_def)
  then show ?thesis using assms(3) by (simp add: gate_ok_def)
next
  case (Some a)
  let ?c = "c\<lparr>authentication_info := Some (plugin key a)\<rparr>"
  show ?thesis
  proof (cases "isValid (plugin key a)")
    case False
    then have "c' = request_stop CC_going_away ''No valid authentication'' ?c"
      using assms(1,2) Some by (simp add: validateUserKeyForAuthentication_def Let_def)
    then show ?thesis using assms(3) by (simp add: gate_ok_def)
  next
    case True
    then obtain d where d: "onAuthorized cfg (?c\<lparr>granted := granted c @ [key]\<rparr>) = Some d"
      and s: "ws_send (authentication_frame (case auth_end (plugin key a) of Some t \<Rightarrow> t | None \<Rightarrow> []))
        (case auth_end (plugin key a) of Some t \<Rightarrow> d\<lparr>authenticationEndTimer := True\<rparr> | None \<Rightarrow> d) = Some c'"
      using assms(1,2) Some
      by (auto simp: validateUserKeyForAuthentication_def Let_def bind_eq_Some_conv split: option.splits)
    have "granted c' = granted c @ [key]"
      using ws_send_frame_server [OF s] onAuthorized_granted [OF d] by (simp split: option.splits)
    then show ?thesis using assms(3) True by (auto simp: gate_ok_def)
  qed
qed

lemma gate_ok_read:
  assumes "read_handler (server_processMessage cfg plugin) r c = Some c'" and "\<not> authenticationOmit cfg"
    and "gate_ok plugin c"
  shows "gate_ok plugin c'"
proof (cases r)
  case (Frame buf)
  then obtain m where m: "server_processMessage cfg plugin m c = Some c'"
    using assms(1) by (auto simp: read_handler_def bind_eq_Some_conv)
  show ?thesis
  proof (cases "isOpCode m AUTHENTICATION")
    case True
    then show ?thesis
      using m gate_ok_validate [OF _ assms(2,3)] by (auto simp: server_processMessage_def bind_eq_Some_conv)
  next
    case False
    then have "processMessage m c = Some c'" using m by (simp add: server_processMessage_def)
    then show ?thesis
      using processMessage_granted processMessage_frame assms(3) unfolding gate_ok_def by metis
  qed
qed (use assms in \<open>auto simp: read_handler_def gate_ok_def\<close>)

lemma asyncRead_ses: "asyncRead s = Some s' \<Longrightarrow> ses s' = ses s"
  by (auto simp: asyncRead_def split: if_splits)

lemma completed_ses [simp]: "ses (completed io s) = ses s"
  by (simp add: completed_def)

lemma set_endpoint_ses [simp]: "ses (set_endpoint cfg ip s) = ses s"
  by (simp add: set_endpoint_def split: option.split)

lemma read_completed_ses:
  "read_completed process r s = Some s' \<Longrightarrow> read_handler process r (ses s) = Some (ses s')"
  by (cases r) (auto simp: read_completed_def bind_eq_Some_conv dest: asyncRead_ses)

lemma gate_ok_accept:
  assumes "accept_completed cfg failed h p s = Some s'" and "\<not> authenticationOmit cfg" and "gate_ok plugin (ses s)"
  shows "gate_ok plugin (ses s')"
proof (cases failed)
  case True
  then show ?thesis using assms by (auto simp: accept_completed_def stop_session_def gate_ok_def)
next
  case False
  then have "ses s' = (open_stream (ses s))\<lparr>authenticationCheckTimer := True\<rparr>"
    using assms(1,2)
    by (auto simp: accept_completed_def server_onConnected_def Let_def bind_eq_Some_conv dest!: asyncRead_ses)
  then show ?thesis using assms(3) by (simp add: gate_ok_def open_stream_def)
qed

lemma gate_ok_apply:
  assumes "server_session_apply cfg plugin e s = Some s'" and "\<not> authenticationOmit cfg" and "gate_ok plugin (ses s)"
  shows "gate_ok plugin (ses s')"
proof (cases e)
  case (Http_done failed)
  then show ?thesis
    using assms by (cases failed) (auto simp: http_completed_def stop_session_def gate_ok_def Let_def)
next
  case (Accept_ws failed h p)
  then show ?thesis using assms gate_ok_accept by auto
next
  case (Read_done r)
  then have "read_handler (server_processMessage cfg plugin) r (ses s) = Some (ses s')"
    using assms(1) by (auto intro: read_completed_ses)
  then show ?thesis by (rule gate_ok_read [OF _ assms(2,3)])
next
  case Check_timer
  then show ?thesis
    using assms by (auto simp: validAuthenticationCheckCallback_def gate_ok_def split: option.splits if_splits)
next
  case End_timer
  then show ?thesis using assms by (auto simp: authenticationEndCallback_def gate_ok_def)
next
  case (Conn_event x)
  then show ?thesis using assms by (auto simp: gate_ok_def)
next
  case Io_exception
  then show ?thesis using assms by (auto simp: io_exception_def stop_session_def gate_ok_def)
qed

lemma gate_ok_session:
  "server_session cfg plugin s \<Longrightarrow> \<not> authenticationOmit cfg \<Longrightarrow> gate_ok plugin (ses s)"
proof (induction rule: server_session.induct)
  case starts
  show ?case
    using dormant_new [of cfg]
    by (simp add: gate_ok_def begin_server_def begin_session_def)
      (simp add: new_server_connection_def ws_connection.extend_def)
qed (rule gate_ok_apply)

text \<open>A key is granted only when a frame presented it, and then once.\<close>

lemma authentication_frame_parsed:
  "fromFlatBuffer (authentication_frame s)
     = Some (RclMessage (opcode AUTHENTICATION) NONE (word_of_nat (length s + 2)) (map byte_of_char s @ [0, 0]))"
  by (simp add: authentication_frame_def forOpCodeAuthentication_eq VectorMessage_def vec_getCombinedVector_def)

lemma presents_key: "CHR 0x00 \<notin> set key \<Longrightarrow> presents (authentication_frame key) k \<longleftrightarrow> k = key"
  by (auto simp: presents_def authentication_frame_parsed isOpCode_def rcl_toString_def RclMessage_def cstring_terminated)

lemma validate_grants:
  assumes "validateUserKeyForAuthentication cfg plugin key c = Some c'"
  shows "granted c' = granted c \<or> granted c' = granted c @ [key]"
  using assms
  by (auto simp: validateUserKeyForAuthentication_def Let_def bind_eq_Some_conv
      dest!: ws_send_frame_server onAuthorized_granted split: if_splits option.splits)

lemma read_grants:
  assumes "read_handler (server_processMessage cfg plugin) r c = Some c'"
  shows "granted c' = granted c
    \<or> (\<exists>buf key. r = Frame buf \<and> presents buf key \<and> granted c' = granted c @ [key])"
proof (cases r)
  case (Frame buf)
  then obtain m where b: "fromFlatBuffer buf = Some m" and m: "server_processMessage cfg plugin m c = Some c'"
    using assms(1) by (auto simp: read_handler_def bind_eq_Some_conv)
  show ?thesis
  proof (cases "isOpCode m AUTHENTICATION")
    case True
    then obtain k where k: "rcl_toString m = Some k" "validateUserKeyForAuthentication cfg plugin k c = Some c'"
      using m by (auto simp: server_processMessage_def bind_eq_Some_conv)
    then show ?thesis using validate_grants [OF k(2)] True b Frame by (auto simp: presents_def)
  next
    case False
    then have "processMessage m c = Some c'" using m by (simp add: server_processMessage_def)
    then show ?thesis using processMessage_granted [of m c c'] by simp
  qed
qed (use assms in \<open>auto simp: read_handler_def\<close>)

lemma onConnected_granted: "server_onConnected cfg c = Some c' \<Longrightarrow> granted c' = granted c"
  by (auto simp: server_onConnected_def dest: onAuthorized_granted split: if_splits)

lemma accept_granted:
  assumes "accept_completed cfg failed h p s = Some s'"
  shows "granted (ses s') = granted (ses s)"
proof (cases failed)
  case True
  then show ?thesis using assms by (auto simp: accept_completed_def stop_session_def)
next
  case False
  then obtain c where "server_onConnected cfg (open_stream (ses s)) = Some c" "ses s' = c"
    using assms by (auto simp: accept_completed_def Let_def bind_eq_Some_conv dest!: asyncRead_ses)
  then show ?thesis using onConnected_granted by (fastforce simp: open_stream_def)
qed

lemma session_granted:
  assumes "server_session_apply cfg plugin e s = Some s'"
  shows "granted (ses s') = granted (ses s)
    \<or> (\<exists>buf key. e = Read_done (Frame buf) \<and> presents buf key \<and> granted (ses s') = granted (ses s) @ [key])"
proof (cases e)
  case (Http_done failed)
  then show ?thesis using assms by (cases failed) (auto simp: http_completed_def stop_session_def Let_def)
next
  case (Accept_ws failed h p)
  then show ?thesis using assms accept_granted [of cfg failed h p s s'] by simp
next
  case (Read_done r)
  then have "read_handler (server_processMessage cfg plugin) r (ses s) = Some (ses s')"
    using assms(1) by (auto intro: read_completed_ses)
  from read_grants [OF this] show ?thesis using Read_done by blast
qed (use assms in \<open>auto simp: validAuthenticationCheckCallback_def authenticationEndCallback_def io_exception_def
      stop_session_def split: option.splits if_splits\<close>)

lemma session_grants:
  assumes "server_session_apply cfg plugin e s = Some s'" and "key \<in> set (granted (ses s'))"
  shows "key \<in> set (granted (ses s)) \<or> (\<exists>buf. e = Read_done (Frame buf) \<and> presents buf key)"
  using session_granted [OF assms(1)] assms(2) by auto

lemma close_session_granted: "close_session s = Some s' \<Longrightarrow> granted (ses s') = granted (ses s)"
  by (auto simp: close_session_def ws_close_def ws_onStopThread_def split: if_splits)

lemma begin_granted: "granted (ses (begin_server cfg)) = []"
  by (simp add: begin_server_def begin_session_def new_server_connection_def ws_connection.extend_def)

lemma world_grants:
  "world_run cfg plugin es w \<Longrightarrow> w_sessions w k = Some s \<Longrightarrow> key \<in> set (granted (ses s))
     \<Longrightarrow> \<exists>buf. Session_event k (Read_done (Frame buf)) \<in> set es \<and> presents buf key"
proof (induction arbitrary: k s rule: world_run.induct)
  case (event es w e w')
  from event.hyps(2,3) show ?case
  proof (cases rule: world_step_cases)
    case (Node x n)
    have "s \<noteq> begin_server cfg" using event.prems(2) begin_granted by auto
    then obtain t where "w_sessions w k = Some t" "granted (ses t) = granted (ses s)"
      using event.prems(1) Node(6) close_session_granted
      by (auto simp: sync_sessions_def split: if_splits option.splits)
    then show ?thesis using event.IH [of k t] event.prems(2) by auto
  next
    case (Session j x t t')
    show ?thesis
    proof (cases "k = j")
      case True
      then have "s = t'" using event.prems(1) Session(5) by simp
      with session_grants [OF Session(4)] event.prems(2)
      have "key \<in> set (granted (ses t)) \<or> (\<exists>buf. x = Read_done (Frame buf) \<and> presents buf key)" by simp
      then show ?thesis using event.IH [OF Session(2)] True Session(1) by fastforce
    next
      case False
      then show ?thesis using event.IH [of k s] event.prems Session(5) by auto
    qed
  qed
qed simp

section \<open>Stops are served, and a stopped server has no connection\<close>

text \<open>Once all posted requests have run, no connection that asked to be stopped is left.\<close>

lemma run_stop_posts:
  "distinct (connections m) \<Longrightarrow> k \<in> fst ` set (stop_posts m)
     \<Longrightarrow> k \<notin> set (connections ((run_stop_post ^^ length (stop_posts m)) m))"
proof (induction "length (stop_posts m)" arbitrary: m)
  case 0
  then show ?case by simp
next
  case (Suc n)
  then obtain j cc cr ps where p: "stop_posts m = (j, cc, cr) # ps"
    by (metis length_Suc_conv prod_cases3)
  let ?m = "run_stop_post m"
  have ps: "stop_posts ?m = ps" and sub: "set (connections ?m) \<subseteq> set (connections m)"
    and j: "j \<notin> set (connections ?m)" and d: "distinct (connections ?m)"
    using p Suc.prems(1) set_remove1_subset [of j "connections m"]
    by (auto simp: run_stop_post_def stopConnectionInternal_def)
  have keep: "set (connections ((run_stop_post ^^ i) x)) \<subseteq> set (connections x)" for i x
  proof (induction i)
    case (Suc i)
    have "set (connections (run_stop_post y)) \<subseteq> set (connections y)" for y
      using set_remove1_subset [of _ "connections y"]
      by (auto simp: run_stop_post_def stopConnectionInternal_def split: list.split)
    with Suc show ?case by fastforce
  qed simp
  have step: "(run_stop_post ^^ length (stop_posts m)) m = (run_stop_post ^^ length (stop_posts ?m)) ?m"
    using p ps by (simp add: funpow_swap1)
  show ?case
  proof (cases "k \<in> fst ` set ps")
    case True
    then show ?thesis using Suc.hyps(1) [of ?m] Suc.hyps(2) p ps d unfolding step by simp
  next
    case False
    then have "k = j" using Suc.prems(2) p by auto
    then show ?thesis using j keep [of "length (stop_posts ?m)" ?m] unfolding step by blast
  qed
qed

text \<open>After \<open>stopAllConnections\<close> of \<open>stopThread\<close> nothing is connected, and nothing connects any more.\<close>

lemma stopped_no_conns:
  assumes "server_reachable n" and "stop_pc n \<ge> 4"
  shows "conns n = []"
  using assms
proof (induction rule: server_reachable.induct)
  case (started io n)
  then show ?case
    using startListening_cases [of io "new_server_node\<lparr>ioc_stopped := False\<rparr>"]
    by (auto simp: server_onBeforeStartThread_def new_server_node_def)
next
  case (event n e n')
  show ?case
  proof (cases e)
    case Stop_server
    then show ?thesis
      using event stopAllConnections_empty
      by (auto simp: server_stop_def conns_def stopListening_def close_acceptor_def Let_def split: if_splits)
  next
    case (Ask_stop k cc cr)
    then show ?thesis using event by (auto simp: conns_def stopConnection_def)
  next
    case (Work_server io)
    have "s_manager n' = s_manager n" "stop_pc n' = stop_pc n"
      using event.hyps(3) Work_server server_work_manager stop_pc_work by auto
    then show ?thesis using event by (simp add: conns_def)
  next
    case (Accept_done r)
    then have "in_ioc n" "stop_pc n' = stop_pc n"
      using event.hyps(2,3) by (auto simp: accept_handler_def asyncAccept_def split: if_splits accept_result.splits)
    then show ?thesis
      using server_reachable_inv [OF event.hyps(1)] event.prems by (auto simp: in_ioc_def server_inv_def)
  next
    case Accept_aborted
    then have "in_ioc n" "stop_pc n' = stop_pc n"
      using event.hyps(2,3) by (auto simp: accept_handler_def split: if_splits)
    then show ?thesis
      using server_reachable_inv [OF event.hyps(1)] event.prems by (auto simp: in_ioc_def server_inv_def)
  next
    case (Stop_posted t)
    then have "in_ioc n" "stop_pc n' = stop_pc n"
      using event.hyps(2,3) by (auto simp: Let_def split: if_splits)
    then show ?thesis
      using server_reachable_inv [OF event.hyps(1)] event.prems by (auto simp: in_ioc_def server_inv_def)
  qed
qed

end
