(* ===== verification/Link.thy ===== *)
theory Link
  imports World
begin

text \<open>
  Both ends of one connection: the session of \<open>connect_client\<close> (\<^verbatim>\<open>websocketClientConnection.hpp\<close>) and
  the session of \<open>connect_server\<close> that serves it (\<^verbatim>\<open>websocketServerConnection.cpp\<close>), joined by the two
  streams of frames of the websocket. A stream delivers, in order, the frames that were handed to it,
  as long as no write on it has failed.
\<close>

section \<open>Frames on the stream\<close>

text \<open>The frames handed to the stream: those whose write completed and the one being written.\<close>

definition on_stream :: "conn \<Rightarrow> bytes list" where
  "on_stream c = written c @ opt_list (writing c)"

definition is_auth :: "bytes \<Rightarrow> bool" where
  "is_auth v \<longleftrightarrow> v \<noteq> [] \<and> hd v = opcode AUTHENTICATION"

lemma is_auth_frame [simp]: "is_auth (authentication_frame s)"
  by (simp add: is_auth_def authentication_frame_def forOpCodeAuthentication_eq VectorMessage_def
      vec_getCombinedVector_def)

lemma fromFlatBuffer_channel:
  assumes "fromFlatBuffer buf = Some m"
  shows "isOpCode m AUTHENTICATION = is_auth buf"
proof -
  have "buf \<noteq> [] \<and> channel m = hd buf"
    using assms
    by (cases buf)
      (auto simp: fromFlatBuffer_def slice_def RclMessage_def Let_def bind_eq_Some_conv split: if_splits option.splits)
  then show ?thesis by (simp add: isOpCode_def is_auth_def)
qed

lemma presents_auth: "presents buf key \<Longrightarrow> is_auth buf"
  by (auto simp: presents_def fromFlatBuffer_channel)

section \<open>The sending queue of the client\<close>

text \<open>Events in which the program itself sends no authentication message.\<close>

fun plain_event :: "conn_event \<Rightarrow> bool" where
  "plain_event (Send in_strand v) \<longleftrightarrow> \<not> is_auth v"
| "plain_event Opened \<longleftrightarrow> False"
| "plain_event _ \<longleftrightarrow> True"

text \<open>Before the stream is open, and after the first frame was sent.\<close>

definition queue_idle :: "conn \<Rightarrow> bool" where
  "queue_idle c \<longleftrightarrow> \<not> ws_open c \<and> on_stream c = [] \<and> sendingQueue c = []
     \<and> filter is_auth (accepted c) = [] \<and> filter is_auth (posted c) = []"

definition queue_begun :: "bytes \<Rightarrow> conn \<Rightarrow> bool" where
  "queue_begun f c \<longleftrightarrow> filter is_auth (accepted c) = [f] \<and> filter is_auth (posted c) = []
     \<and> (stop_requests c = 0 \<longrightarrow> (\<exists>rest. on_stream c = f # rest))"

lemmas conn_ops = send_def queueMessage_def asyncWrite_def run_posted_def write_handler_def Let_def

lemma queue_idle_step:
  assumes "conn_apply e c = Some c'" and "plain_event e" and "enabled e c" and "queue_idle c"
  shows "queue_idle c'"
  using assms
  by (cases e)
    (auto simp: queue_idle_def on_stream_def conn_ops opt_list_def split: if_splits list.splits option.splits)

lemma on_stream_grows:
  assumes "conn_apply e c = Some c'" and "conn_inv c" and "enabled e c" and "stop_requests c' = 0"
  shows "\<exists>more. on_stream c' = on_stream c @ more" and "stop_requests c = 0"
  using assms
  by (cases e; auto simp: on_stream_def conn_ops opt_list_def conn_inv_def split: if_splits list.splits option.splits)+

lemma queue_begun_step:
  assumes "conn_apply e c = Some c'" and "plain_event e" and "enabled e c" and "conn_inv c" and "queue_begun f c"
  shows "queue_begun f c'"
proof -
  have "filter is_auth (accepted c') @ filter is_auth (posted c') = filter is_auth (accepted c) @ filter is_auth (posted c)"
    using assms(1,2,5)
    by (cases e) (auto simp: queue_begun_def conn_ops split: if_splits list.splits)
  moreover have "filter is_auth (posted c') = []"
    using assms(1,2,5)
    by (cases e) (auto simp: queue_begun_def conn_ops split: if_splits list.splits)
  ultimately show ?thesis
    using assms(5) on_stream_grows [OF assms(1,4,3)] by (auto simp: queue_begun_def)
qed

section \<open>The streams\<close>

text \<open>
  The options that the constructor sets: messages are binary, not delayed, not compressed, fragmented
  as configured, and reading fails on a message that is larger than the configured maximum.
\<close>

record stream_options =
  binary_messages :: bool
  no_delay :: bool
  auto_fragment :: bool
  write_buffer_bytes :: u64
  deflate_enabled :: bool
  read_message_max :: u64

definition configure_stream :: "GlobalConfig \<Rightarrow> stream_options" where
  "configure_stream cfg =
     \<lparr>binary_messages = True, no_delay = True, auto_fragment = fragmentation cfg,
      write_buffer_bytes = fragmentationSize cfg, deflate_enabled = False, read_message_max = maxMessageSize cfg\<rparr>"

section \<open>The link\<close>

text \<open>\<open>l_up\<close> and \<open>l_down\<close> are the frames that the server and the client have read.\<close>

record link =
  l_client :: "ws_connection session"
  l_server :: "server_connection session"
  l_up :: "bytes list"
  l_down :: "bytes list"

text \<open>
  The next frame that a stream from \<open>c\<close> delivers after \<open>got\<close> to a reader with the options \<open>opts\<close>; a
  frame that is too large for it ends in a failed read, which is a step of the reader alone.
\<close>

definition next_frame :: "stream_options \<Rightarrow> conn \<Rightarrow> bytes list \<Rightarrow> bytes option" where
  "next_frame opts c got =
     (if stop_requests c = 0 \<and> length got < length (on_stream c)
         \<and> length (on_stream c ! length got) \<le> unat (read_message_max opts)
      then Some (on_stream c ! length got) else None)"

text \<open>
  What happens at one end without the other: everything but reading a frame. The managers of the
  client send no authentication messages.
\<close>

fun client_alone :: "client_session_event \<Rightarrow> bool" where
  "client_alone (Client_read (Frame buf)) \<longleftrightarrow> False"
| "client_alone (Client_conn e) \<longleftrightarrow> plain_event e"
| "client_alone _ \<longleftrightarrow> True"

fun server_alone_event :: "server_session_event \<Rightarrow> bool" where
  "server_alone_event (Read_done (Frame buf)) \<longleftrightarrow> False"
| "server_alone_event _ \<longleftrightarrow> True"

datatype link_event = At_client client_session_event | At_server server_session_event | Up | Down

fun link_apply :: "GlobalConfig \<Rightarrow> GlobalConfig \<Rightarrow> auth_plugin \<Rightarrow> link_event \<Rightarrow> link \<Rightarrow> link option" where
  "link_apply ccfg scfg plugin (At_client e) l =
     (if client_alone e \<and> client_session_enabled e (l_client l)
      then map_option (\<lambda>s. l\<lparr>l_client := s\<rparr>) (client_session_apply ccfg e (l_client l)) else None)"
| "link_apply ccfg scfg plugin (At_server e) l =
     (if server_alone_event e \<and> server_session_enabled e (l_server l)
      then map_option (\<lambda>s. l\<lparr>l_server := s\<rparr>) (server_session_apply scfg plugin e (l_server l)) else None)"
| "link_apply ccfg scfg plugin Up l = do {
     f \<leftarrow> next_frame (configure_stream scfg) (ws_conn (ses (l_client l))) (l_up l);
     if server_session_enabled (Read_done (Frame f)) (l_server l)
     then map_option (\<lambda>s. l\<lparr>l_server := s, l_up := l_up l @ [f]\<rparr>)
            (server_session_apply scfg plugin (Read_done (Frame f)) (l_server l))
     else None
   }"
| "link_apply ccfg scfg plugin Down l = do {
     f \<leftarrow> next_frame (configure_stream ccfg) (ws_conn (ses (l_server l))) (l_down l);
     if client_session_enabled (Client_read (Frame f)) (l_client l)
     then map_option (\<lambda>s. l\<lparr>l_client := s, l_down := l_down l @ [f]\<rparr>)
            (client_session_apply ccfg (Client_read (Frame f)) (l_client l))
     else None
   }"

definition link_begin :: "GlobalConfig \<Rightarrow> GlobalConfig \<Rightarrow> link" where
  "link_begin ccfg scfg = \<lparr>l_client = begin_client ccfg, l_server = begin_server scfg, l_up = [], l_down = []\<rparr>"

inductive link_reachable :: "GlobalConfig \<Rightarrow> GlobalConfig \<Rightarrow> auth_plugin \<Rightarrow> link \<Rightarrow> bool" for ccfg scfg plugin where
  starts: "link_reachable ccfg scfg plugin (link_begin ccfg scfg)"
| event: "link_reachable ccfg scfg plugin l \<Longrightarrow> link_apply ccfg scfg plugin e l = Some l'
    \<Longrightarrow> link_reachable ccfg scfg plugin l'"

text \<open>The two ends are sessions of their programs.\<close>

lemma link_cases:
  assumes "link_apply ccfg scfg plugin e l = Some l'"
  obtains (Client) x s where "e = At_client x" and "client_alone x" and "client_session_enabled x (l_client l)"
      and "client_session_apply ccfg x (l_client l) = Some s" and "l' = l\<lparr>l_client := s\<rparr>"
  | (Server) x s where "e = At_server x" and "server_alone_event x" and "server_session_enabled x (l_server l)"
      and "server_session_apply scfg plugin x (l_server l) = Some s" and "l' = l\<lparr>l_server := s\<rparr>"
  | (Up) f s where "e = Up" and "next_frame (configure_stream scfg) (ws_conn (ses (l_client l))) (l_up l) = Some f"
      and "server_session_enabled (Read_done (Frame f)) (l_server l)"
      and "server_session_apply scfg plugin (Read_done (Frame f)) (l_server l) = Some s"
      and "l' = l\<lparr>l_server := s, l_up := l_up l @ [f]\<rparr>"
  | (Down) f s where "e = Down" and "next_frame (configure_stream ccfg) (ws_conn (ses (l_server l))) (l_down l) = Some f"
      and "client_session_enabled (Client_read (Frame f)) (l_client l)"
      and "client_session_apply ccfg (Client_read (Frame f)) (l_client l) = Some s"
      and "l' = l\<lparr>l_client := s, l_down := l_down l @ [f]\<rparr>"
  using assms by (cases e) (auto simp: bind_eq_Some_conv split: if_splits)

lemma link_sessions:
  "link_reachable ccfg scfg plugin l \<Longrightarrow> client_session ccfg (l_client l) \<and> server_session scfg plugin (l_server l)"
proof (induction rule: link_reachable.induct)
  case starts
  show ?case using client_session.starts server_session.starts by (simp add: link_begin_def)
next
  case (event l e l')
  from event.hyps(2) show ?case
    by (cases rule: link_cases) (use event.IH in \<open>auto intro: client_session.event server_session.event simp del:
      client_session_enabled.simps server_session_enabled.simps client_session_apply.simps server_session_apply.simps\<close>)
qed

section \<open>The client presents its key first, and once\<close>

definition client_ok :: "GlobalConfig \<Rightarrow> ws_connection session \<Rightarrow> bool" where
  "client_ok cfg s \<longleftrightarrow> conn_inv (ws_conn (ses s))
     \<and> (if Ws_handshake \<in> set (pending s) then queue_idle (ws_conn (ses s))
        else queue_idle (ws_conn (ses s)) \<or> queue_begun (authentication_frame (userKey cfg)) (ws_conn (ses s)))"

lemma client_ok_same:
  "client_ok cfg s \<Longrightarrow> ws_conn (ses s') = ws_conn (ses s) \<Longrightarrow> Ws_handshake \<notin> set (pending s') \<or> Ws_handshake \<in> set (pending s)
     \<Longrightarrow> client_ok cfg s'"
  by (auto simp: client_ok_def split: if_splits)

lemma processMessage_conn: "processMessage m w = Some w' \<Longrightarrow> ws_conn w' = ws_conn w"
  by (auto simp: processMessage_def split: if_splits bind_splits)

lemma onAuthorized_conn: "onAuthorized cfg w = Some w' \<Longrightarrow> ws_conn w' = ws_conn w"
  by (auto simp: onAuthorized_def bind_eq_Some_conv)

lemma client_read_conn:
  "read_handler client_processMessage r w = Some w' \<Longrightarrow> ws_conn w' = ws_conn w"
  by (auto simp: read_handler_def client_processMessage_def request_stop_def bind_eq_Some_conv
      dest: processMessage_conn split: read_result.splits if_splits)

lemma asyncRead_pending: "asyncRead s = Some s' \<Longrightarrow> set (pending s') \<subseteq> insert Ws_read (set (pending s))"
  by (auto simp: asyncRead_def split: if_splits)

lemma read_completed_pending:
  "read_completed process r s = Some s' \<Longrightarrow> set (pending s') \<subseteq> insert Ws_read (set (pending s))"
  using set_remove1_subset [of Ws_read "pending s"]
  by (cases r) (auto simp: read_completed_def bind_eq_Some_conv completed_def Let_def dest!: asyncRead_pending)

lemma client_ok_step:
  assumes "client_ok cfg s" and "session_ok s" and "client_session_enabled e s"
    and "client_session_apply cfg e s = Some s'" and "\<And>x. e = Client_conn x \<Longrightarrow> plain_event x"
  shows "client_ok cfg s'"
proof (cases e)
  case (Handshake_done failed)
  then have p: "pending s = [Ws_handshake]" using pending_single [OF assms(2)] assms(3) by auto
  show ?thesis
  proof (cases failed)
    case True
    then show ?thesis
      using assms(1,4) Handshake_done p
      by (auto simp: handshake_completed_def stop_session_def completed_def client_ok_def request_stop_def)
  next
    case False
    let ?f = "authentication_frame (userKey cfg)"
    obtain c where c: "client_connected cfg (open_stream (ses s)) = Some c"
      and r: "asyncRead ((completed Ws_handshake s)\<lparr>ses := c\<rparr>) = Some s'"
      using assms(4) Handshake_done False by (auto simp: handshake_completed_def Let_def bind_eq_Some_conv completed_def)
    have idle: "queue_idle (ws_conn (ses s))" "conn_inv (ws_conn (ses s))" using assms(1) p by (simp_all add: client_ok_def)
    obtain w where w: "ws_send ?f (open_stream (ses s)) = Some w" "ws_conn c = ws_conn w"
      using c onAuthorized_conn by (auto simp: client_connected_def bind_eq_Some_conv)
    have opened: "conn_inv ((ws_conn (ses s))\<lparr>ws_open := True\<rparr>)" using idle(2) by (simp add: conn_inv_def)
    have sent: "send True ?f ((ws_conn (ses s))\<lparr>ws_open := True\<rparr>) = Some (ws_conn w)"
      using w(1) by (auto simp: ws_send_def open_stream_def)
    then have "conn_inv (ws_conn w)" using conn_apply_inv [OF opened, of "Send True ?f"] by simp
    moreover have none: "writing (ws_conn (ses s)) = None"
      using idle(1) by (auto simp: queue_idle_def on_stream_def opt_list_def split: option.splits)
    then have "ws_conn w = (ws_conn (ses s))\<lparr>ws_open := True, sendingQueue := [?f],
        accepted := accepted (ws_conn (ses s)) @ [?f], writing := Some ?f\<rparr>"
      using sent idle(1) by (simp add: conn_ops queue_idle_def)
    then have "queue_begun ?f (ws_conn w)"
      using idle(1) none by (simp add: queue_begun_def queue_idle_def on_stream_def)
    moreover have "Ws_handshake \<notin> set (pending s')" using asyncRead_pending [OF r] p by (auto simp: completed_def)
    moreover have "ws_conn (ses s') = ws_conn w" using asyncRead_ses [OF r] w(2) by simp
    ultimately show ?thesis by (simp add: client_ok_def)
  qed
next
  case (Client_read r)
  then have h: "read_completed client_processMessage r s = Some s'" using assms(4) by simp
  have "ws_conn (ses s') = ws_conn (ses s)" using client_read_conn [OF read_completed_ses [OF h]] .
  then show ?thesis using client_ok_same [OF assms(1)] read_completed_pending [OF h] by auto
next
  case (Client_conn x)
  then obtain c where c: "conn_apply x (ws_conn (ses s)) = Some c" "s' = s\<lparr>ses := (ses s)\<lparr>ws_conn := c\<rparr>\<rparr>"
    and en: "enabled x (ws_conn (ses s))"
    using assms(3,4) by (auto simp: conn_enabled_def)
  have inv: "conn_inv (ws_conn (ses s))" using assms(1) by (simp add: client_ok_def)
  then have "conn_inv c" using conn_apply_inv [OF inv en] c(1) by auto
  then show ?thesis
    using assms(1) c queue_idle_step [OF c(1) assms(5) [OF Client_conn] en]
      queue_begun_step [OF c(1) assms(5) [OF Client_conn] en inv]
    by (auto simp: client_ok_def split: if_splits)
next
  case Client_exception
  then show ?thesis
    using assms(1,4) by (auto intro!: client_ok_same [OF assms(1)] simp: io_exception_def stop_session_def request_stop_def)
qed

section \<open>What the server reads and grants\<close>

definition link_ok :: "GlobalConfig \<Rightarrow> link \<Rightarrow> bool" where
  "link_ok cfg l \<longleftrightarrow> client_ok cfg (l_client l)
     \<and> (stop_requests (ws_conn (ses (l_client l))) = 0
          \<longrightarrow> (\<exists>more. on_stream (ws_conn (ses (l_client l))) = l_up l @ more))
     \<and> (l_up l \<noteq> [] \<longrightarrow> hd (l_up l) = authentication_frame (userKey cfg))
     \<and> filter is_auth (l_up l) \<in> {[], [authentication_frame (userKey cfg)]}
     \<and> (granted (ses (l_server l)) = []
        \<or> granted (ses (l_server l)) = [userKey cfg] \<and> filter is_auth (l_up l) \<noteq> [])"

lemma on_stream_accepted: "conn_inv c \<Longrightarrow> subseq (on_stream c) (accepted c)"
proof -
  assume c: "conn_inv c"
  have "\<exists>more. written c @ sendingQueue c = on_stream c @ more"
    using c by (cases "sendingQueue c") (auto simp: conn_inv_def on_stream_def opt_list_def split: option.splits)
  then show "subseq (on_stream c) (accepted c)"
    using c subseq_prefix_only unfolding conn_inv_def by metis
qed

lemma subseq_single: "subseq xs [y] \<Longrightarrow> xs = [] \<or> xs = [y]"
  by (cases xs) (auto split: if_splits)

text \<open>The next frame the server reads.\<close>

lemma next_frame_up:
  assumes "link_ok cfg l" and "next_frame opts (ws_conn (ses (l_client l))) (l_up l) = Some f"
  shows "hd (l_up l @ [f]) = authentication_frame (userKey cfg)"
    and "filter is_auth (l_up l @ [f]) \<in> {[], [authentication_frame (userKey cfg)]}"
    and "\<exists>more. on_stream (ws_conn (ses (l_client l))) = (l_up l @ [f]) @ more"
proof -
  let ?c = "ws_conn (ses (l_client l))" and ?a = "authentication_frame (userKey cfg)"
  have n: "stop_requests ?c = 0" "length (l_up l) < length (on_stream ?c)" "f = on_stream ?c ! length (l_up l)"
    using assms(2) by (auto simp: next_frame_def split: if_splits)
  then obtain more where m: "on_stream ?c = l_up l @ more" "more \<noteq> []" "f = hd more"
    using assms(1) by (auto simp: link_ok_def nth_append hd_conv_nth)
  then obtain rest where r: "on_stream ?c = (l_up l @ [f]) @ rest" by (cases more) auto
  then show "\<exists>more. on_stream ?c = (l_up l @ [f]) @ more" by blast
  have ok: "client_ok cfg (l_client l)" using assms(1) by (simp add: link_ok_def)
  have "on_stream ?c \<noteq> []" using m by simp
  then have b: "queue_begun ?a ?c"
    using ok by (auto simp: client_ok_def queue_idle_def split: if_splits)
  then obtain rest' where "on_stream ?c = ?a # rest'" using n(1) by (auto simp: queue_begun_def)
  then show "hd (l_up l @ [f]) = ?a" using r by (cases "l_up l") auto
  have "subseq (l_up l @ [f]) (accepted ?c)"
    using on_stream_accepted [of ?c] ok r subseq_prefix_only [of "l_up l @ [f]" rest] by (simp add: client_ok_def)
  then have "subseq (filter is_auth (l_up l @ [f])) (filter is_auth (accepted ?c))"
    by (rule subseq_filter)
  then show "filter is_auth (l_up l @ [f]) \<in> {[], [?a]}"
    using b subseq_single [of "filter is_auth (l_up l @ [f])" ?a] by (simp add: queue_begun_def)
qed

lemma client_step_stream:
  assumes "client_ok cfg s" and "client_session_enabled e s" and "client_session_apply cfg e s = Some s'"
    and "stop_requests (ws_conn (ses s')) = 0" and "session_ok s"
  shows "stop_requests (ws_conn (ses s)) = 0
    \<and> (\<exists>more. on_stream (ws_conn (ses s')) = on_stream (ws_conn (ses s)) @ more)"
proof (cases e)
  case (Handshake_done failed)
  then have p: "Ws_handshake \<in> set (pending s)" using assms(2) by auto
  then have idle: "on_stream (ws_conn (ses s)) = []" "sendingQueue (ws_conn (ses s)) = []"
    using assms(1) by (simp_all add: client_ok_def queue_idle_def)
  show ?thesis
  proof (cases failed)
    case True
    then show ?thesis
      using assms(3,4) Handshake_done
      by (auto simp: handshake_completed_def stop_session_def completed_def request_stop_def)
  next
    case False
    then obtain c where c: "client_connected cfg (open_stream (ses s)) = Some c"
      and r: "asyncRead ((completed Ws_handshake s)\<lparr>ses := c\<rparr>) = Some s'"
      using assms(3) Handshake_done by (auto simp: handshake_completed_def Let_def bind_eq_Some_conv completed_def)
    then obtain w where w: "ws_send (authentication_frame (userKey cfg)) (open_stream (ses s)) = Some w" "ws_conn c = ws_conn w"
      using onAuthorized_conn by (auto simp: client_connected_def bind_eq_Some_conv)
    have "stop_requests (ws_conn w) = stop_requests (ws_conn (ses s))"
      using w(1) idle(2)
      by (auto simp: ws_send_def open_stream_def conn_ops split: if_splits)
    then show ?thesis using idle(1) assms(4) asyncRead_ses [OF r] w(2) by simp
  qed
next
  case (Client_read r)
  then have h: "read_completed client_processMessage r s = Some s'" using assms(3) by simp
  then show ?thesis using client_read_conn [OF read_completed_ses [OF h]] assms(4) by simp
next
  case (Client_conn x)
  then obtain c where c: "conn_apply x (ws_conn (ses s)) = Some c" "s' = s\<lparr>ses := (ses s)\<lparr>ws_conn := c\<rparr>\<rparr>"
    and en: "enabled x (ws_conn (ses s))"
    using assms(2,3) by (auto simp: conn_enabled_def)
  moreover have "conn_inv (ws_conn (ses s))" using assms(1) by (simp add: client_ok_def)
  ultimately show ?thesis using on_stream_grows [OF c(1) _ en] assms(4) by simp
next
  case Client_exception
  then show ?thesis using assms(3,4) by (auto simp: io_exception_def stop_session_def request_stop_def)
qed

lemma link_ok_client:
  assumes "link_ok cfg l" and "session_ok (l_client l)" and "client_session_enabled e (l_client l)"
    and "client_session_apply cfg e (l_client l) = Some s" and "\<And>x. e = Client_conn x \<Longrightarrow> plain_event x"
  shows "link_ok cfg (l\<lparr>l_client := s, l_down := d\<rparr>)"
proof -
  have "client_ok cfg s"
    using client_ok_step [OF _ assms(2-5)] assms(1) by (simp add: link_ok_def)
  moreover have "\<exists>more. on_stream (ws_conn (ses s)) = l_up l @ more" if z: "stop_requests (ws_conn (ses s)) = 0"
  proof -
    have ok: "client_ok cfg (l_client l)" using assms(1) by (simp add: link_ok_def)
    from client_step_stream [OF ok assms(3,4) z assms(2)] assms(1) show ?thesis by (auto simp: link_ok_def)
  qed
  ultimately show ?thesis using assms(1) by (simp add: link_ok_def)
qed

lemma server_alone_granted:
  assumes "server_session_apply cfg plugin e s = Some s'" and "server_alone_event e"
  shows "granted (ses s') = granted (ses s)"
  using session_granted [OF assms(1)] assms(2) by auto

lemma link_ok_reachable:
  assumes "link_reachable ccfg scfg plugin l" and "CHR 0x00 \<notin> set (userKey ccfg)"
  shows "link_ok ccfg l"
  using assms(1)
proof (induction rule: link_reachable.induct)
  case starts
  have "client_ok ccfg (begin_client ccfg)"
    by (simp add: client_ok_def begin_client_def begin_session_def new_ws_connection_def new_conn_def conn_inv_def
        queue_idle_def on_stream_def)
  then show ?case
    using begin_granted by (simp add: link_ok_def link_begin_def begin_client_def begin_session_def
        new_ws_connection_def new_conn_def on_stream_def)
next
  case (event l e l')
  have cs: "session_ok (l_client l)" using link_sessions [OF event.hyps(1)] client_session_ok by blast
  from event.hyps(2) show ?case
  proof (cases rule: link_cases)
    case (Client x s)
    have "plain_event y" if "x = Client_conn y" for y using Client(2) that by simp
    from link_ok_client [OF event.IH cs Client(3,4) this, of "l_down l"] show ?thesis by (simp add: Client(5))
  next
    case (Server x s)
    then show ?thesis using event.IH server_alone_granted [OF Server(4,2)] by (simp add: link_ok_def)
  next
    case (Up f s)
    have n: "hd (l_up l @ [f]) = authentication_frame (userKey ccfg)"
      "filter is_auth (l_up l @ [f]) \<in> {[], [authentication_frame (userKey ccfg)]}"
      "\<exists>more. on_stream (ws_conn (ses (l_client l))) = (l_up l @ [f]) @ more"
      using next_frame_up [OF event.IH Up(2)] by blast+
    have g: "granted (ses s) = granted (ses (l_server l))
        \<or> (\<exists>key. presents f key \<and> granted (ses s) = granted (ses (l_server l)) @ [key])"
      using session_granted [OF Up(4)] by auto
    have "granted (ses s) = [] \<or> granted (ses s) = [userKey ccfg] \<and> filter is_auth (l_up l @ [f]) \<noteq> []"
    proof (cases "is_auth f")
      case True
      then have f: "f = authentication_frame (userKey ccfg)" "filter is_auth (l_up l) = []" using n(2) by auto
      then have "granted (ses (l_server l)) = []" using event.IH by (auto simp: link_ok_def)
      then show ?thesis using g f(1) presents_key [OF assms(2)] True by auto
    next
      case False
      then show ?thesis using g presents_auth event.IH by (auto simp: link_ok_def)
    qed
    then show ?thesis using event.IH n Up(5) by (simp add: link_ok_def)
  next
    case (Down f s)
    from link_ok_client [OF event.IH cs Down(3,4), of "l_down l @ [f]"] show ?thesis by (simp add: Down(5))
  qed
qed

end
