(* ===== verification/ClientNode.thy ===== *)
theory ClientNode
  imports Connection Config
begin

text \<open>
  \<^verbatim>\<open>src/connection/client.cpp\<close>: the thread of the client, which connects once, serves the stop
  requests of its connection, and ends together with the connection.
\<close>

text \<open>The results of the calls that open the socket, and whether the thread of the connection starts.\<close>

record connect_io =
  resolve_failed :: bool
  connect_failed :: bool
  sni_failed :: bool
  tls_failed :: bool
  connection_starts :: bool

datatype client_pc = C_connect | C_serve | C_returned | C_left

record client_node =
  c_pc :: client_pc
  c_stopping :: bool
  isConnecting :: bool
  c_ioc_stopped :: bool
  c_manager :: conn_manager
  close_callback :: bool

definition new_client_node :: client_node where
  "new_client_node = \<lparr>c_pc = C_connect, c_stopping = False, isConnecting = False,
     c_ioc_stopped = False, c_manager = new_conn_manager, close_callback = False\<rparr>"

text \<open>The result of \<open>startConnection\<close> is not looked at: \<open>connect\<close> succeeds when the socket is open.\<close>

definition client_connect :: "GlobalConfig \<Rightarrow> connect_io \<Rightarrow> client_node \<Rightarrow> bool \<times> client_node" where
  "client_connect cfg io c =
     (if isConnecting c \<or> isClientConnected (c_manager c) then (True, c)
      else let c = c\<lparr>isConnecting := True, close_callback := True\<rparr> in
        if resolve_failed io \<or> connect_failed io then (False, c\<lparr>isConnecting := False\<rparr>)
        else if gc_ssl cfg \<and> (sni_failed io \<or> tls_failed io) then (False, c\<lparr>isConnecting := False\<rparr>)
        else (True, c\<lparr>c_manager := startConnection (connection_starts io) (c_manager c), isConnecting := False\<rparr>))"

definition client_onBeforeStartThread :: "client_node \<Rightarrow> client_node" where
  "client_onBeforeStartThread c = c\<lparr>c_ioc_stopped := False\<rparr>"

text \<open>\<open>stopThread\<close> of the client; its last statement, \<open>executor.cancel()\<close>, is left to the caller.\<close>

definition client_stop :: "client_node \<Rightarrow> client_node" where
  "client_stop c = c\<lparr>c_stopping := True, c_ioc_stopped := True, c_manager := stopAllConnections (c_manager c)\<rparr>"

text \<open>
  A posted stop request, with the callback that the manager calls after it closed a connection. The
  second component tells whether the executor was cancelled.
\<close>

definition client_post :: "client_node \<Rightarrow> client_node \<times> bool" where
  "client_post c =
     (case stop_posts (c_manager c) of
        [] \<Rightarrow> (c, False)
      | (k, cc, cr) # ps \<Rightarrow>
          let c' = c\<lparr>c_manager := run_stop_post (c_manager c)\<rparr> in
          if k \<in> set (connections (c_manager c)) \<and> close_callback c then (client_stop c', True)
          else (c', False))"

text \<open>A step of \<open>run\<close>; \<open>None\<close> while it waits inside \<open>ioc.run()\<close> and at its end.\<close>

definition client_work :: "GlobalConfig \<Rightarrow> connect_io \<Rightarrow> client_node \<Rightarrow> (client_node \<times> bool) option" where
  "client_work cfg io c =
     (case c_pc c of
        C_connect \<Rightarrow> Some (case client_connect cfg io c of
            (True, c) \<Rightarrow> (c\<lparr>c_pc := C_serve\<rparr>, False)
          | (False, c) \<Rightarrow> ((client_stop c)\<lparr>c_pc := C_left\<rparr>, True))
      | C_serve \<Rightarrow> if c_ioc_stopped c then Some (c\<lparr>c_pc := C_returned\<rparr>, False)
          else if stop_posts (c_manager c) = [] then None else Some (client_post c)
      | C_returned \<Rightarrow> Some ((client_stop c)\<lparr>c_pc := C_left\<rparr>, True)
      | C_left \<Rightarrow> None)"

text \<open>The connection asks to be stopped.\<close>

definition client_ask_stop :: "nat \<Rightarrow> close_code \<Rightarrow> string \<Rightarrow> client_node \<Rightarrow> client_node" where
  "client_ask_stop k cc cr c = c\<lparr>c_manager := stopConnection k cc cr (c_manager c)\<rparr>"

section \<open>The client ends without a connection\<close>

definition client_inv :: "client_node \<Rightarrow> bool" where
  "client_inv c \<longleftrightarrow>
     c_ioc_stopped c = c_stopping c \<and> \<not> isConnecting c
     \<and> (c_pc c = C_connect \<longrightarrow> connections (c_manager c) = [])
     \<and> (c_pc c = C_left \<longrightarrow> c_stopping c \<and> connections (c_manager c) = [])
     \<and> (c_pc c = C_serve \<longrightarrow> close_callback c) \<and> (c_pc c = C_returned \<longrightarrow> c_stopping c)"

lemma client_inv_new: "client_inv (client_onBeforeStartThread new_client_node)"
  by (simp add: client_inv_def client_onBeforeStartThread_def new_client_node_def new_conn_manager_def)

lemma client_inv_stop: "client_inv c \<Longrightarrow> client_inv (client_stop c)"
  by (auto simp: client_inv_def client_stop_def stopAllConnections_empty)

lemma client_inv_post: "client_inv c \<Longrightarrow> c_pc c = C_serve \<Longrightarrow> client_inv (fst (client_post c))"
  by (auto simp: client_post_def client_inv_def client_stop_def stopAllConnections_empty Let_def
      split: list.split)

lemma client_inv_work: "client_inv c \<Longrightarrow> client_work cfg io c = Some (c', b) \<Longrightarrow> client_inv c'"
  using client_inv_post [of c]
  by (cases "c_pc c")
    (auto simp: client_work_def client_connect_def client_inv_def client_stop_def
      stopAllConnections_empty isClientConnected_def Let_def split: if_splits)

lemma client_inv_ask_stop: "client_inv c \<Longrightarrow> client_inv (client_ask_stop k cc cr c)"
  by (auto simp: client_inv_def client_ask_stop_def stopConnection_def)

lemma client_post_stopping: "c_stopping c \<Longrightarrow> c_stopping (fst (client_post c))"
  by (auto simp: client_post_def client_stop_def Let_def split: list.split)

lemma client_work_stopping: "client_work cfg io c = Some (c', b) \<Longrightarrow> c_stopping c \<Longrightarrow> c_stopping c'"
  using client_post_stopping [of c]
  by (cases "c_pc c")
    (auto simp: client_work_def client_connect_def client_stop_def Let_def split: if_splits)

text \<open>How many steps the thread has left when it is stopping.\<close>

fun client_rank :: "client_pc \<Rightarrow> nat" where
  "client_rank C_connect = 3"
| "client_rank C_serve = 2"
| "client_rank C_returned = 1"
| "client_rank C_left = 0"

lemma client_progress:
  assumes "client_inv c" and "c_stopping c" and "c_pc c \<noteq> C_left"
  shows "\<exists>c' b. client_work cfg io c = Some (c', b) \<and> client_rank (c_pc c') < client_rank (c_pc c)"
  using assms
  by (cases "c_pc c") (auto simp: client_work_def client_inv_def client_stop_def split: prod.split bool.split)

end
