(* ===== verification/NodeProgram.thy ===== *)
theory NodeProgram
  imports Listener ClientNode
begin

text \<open>
  \<^verbatim>\<open>src/connectServer.cpp\<close>, \<^verbatim>\<open>src/connectClient.cpp\<close> and \<^verbatim>\<open>src/status/\<close>: the life of the two
  programs. Their \<open>main\<close> functions differ only in the websocket object, the number of threads and
  the status publisher, so the model takes the operations of the websocket object as arguments.
  The executor is what \<open>rclcpp\<close> documents of it: \<open>spin\<close> returns after \<open>cancel\<close> or
  \<open>rclcpp::shutdown\<close>, and \<open>cancel\<close> ends the running \<open>spin\<close> only.
\<close>

section \<open>The program\<close>

text \<open>
  \<open>M_threads\<close> evaluates the number of threads on a temporary node, \<open>M_init\<close> initializes the node,
  \<open>M_spin\<close> is the node's \<open>spin\<close>, \<open>M_executor\<close> enters and \<open>M_spinning\<close> is inside the executor's;
  \<open>M_halt\<close> and \<open>M_join\<close> are \<open>halt\<close>.
\<close>

datatype main_pc =
    M_threads | M_init | M_spin | M_executor | M_spinning | M_halt | M_join | M_shutdown | M_exit int

text \<open>
  \<open>websocket\<close> is \<open>webSocketConnection\<close> with the information whether it has a thread. \<open>in_signal\<close>
  holds while the handler of \<^verbatim>\<open>SIGINT\<close> waits, on top of the main thread, for that thread.
\<close>

record 'n program =
  main_pc :: main_pc
  ros_ok :: bool
  spinning :: bool
  websocket :: "('n \<times> bool) option"
  statusPublisher :: bool
  in_signal :: bool

definition new_program :: "'n program" where
  "new_program = \<lparr>main_pc = M_threads, ros_ok = True, spinning = False, websocket = None,
     statusPublisher = False, in_signal = False\<rparr>"

text \<open>
  What a run depends on: the number of threads, the result of \<open>init\<close>, whether the status is
  published, and the websocket object after \<open>startThread\<close> with the result of that call.
\<close>

record 'n main_env =
  thread_number :: int
  init_result :: bool
  publish_status :: bool
  started :: "'n \<times> bool"

definition node_spin :: "'n main_env \<Rightarrow> 'n program \<Rightarrow> 'n program" where
  "node_spin env p = p\<lparr>websocket := Some (started env), ros_ok := (ros_ok p \<and> snd (started env)),
     statusPublisher := publish_status env\<rparr>"

text \<open>\<open>halt\<close> up to the call of \<open>joinThread\<close>; stopping the websocket object cancels the executor.\<close>

definition halt_begin :: "('n \<Rightarrow> 'n) \<Rightarrow> 'n program \<Rightarrow> 'n program" where
  "halt_begin stop p =
     (let p = p\<lparr>statusPublisher := False\<rparr> in
      case websocket p of
        None \<Rightarrow> p
      | Some (n, t) \<Rightarrow> p\<lparr>websocket := Some (stop n, t), spinning := False\<rparr>)"

text \<open>\<open>joinThread\<close> and the rest of \<open>halt\<close>; \<open>None\<close> while the thread has not left.\<close>

definition halt_join :: "('n \<Rightarrow> bool) \<Rightarrow> 'n program \<Rightarrow> 'n program option" where
  "halt_join left p =
     (case websocket p of
        None \<Rightarrow> Some p
      | Some (n, t) \<Rightarrow> if t \<and> \<not> left n then None else Some (p\<lparr>websocket := None\<rparr>))"

definition main_step ::
    "('n \<Rightarrow> 'n) \<Rightarrow> ('n \<Rightarrow> bool) \<Rightarrow> 'n main_env \<Rightarrow> 'n program \<Rightarrow> 'n program option" where
  "main_step stop left env p =
     (if in_signal p then map_option (\<lambda>p. p\<lparr>in_signal := False\<rparr>) (halt_join left p)
      else case main_pc p of
        M_threads \<Rightarrow> Some (if thread_number env < 1 then p\<lparr>ros_ok := False, main_pc := M_exit (-1)\<rparr>
          else p\<lparr>main_pc := M_init\<rparr>)
      | M_init \<Rightarrow> Some (p\<lparr>main_pc := (if init_result env then M_spin else M_halt)\<rparr>)
      | M_spin \<Rightarrow> Some ((node_spin env p)\<lparr>main_pc := M_executor\<rparr>)
      | M_executor \<Rightarrow> Some (p\<lparr>spinning := True, main_pc := M_spinning\<rparr>)
      | M_spinning \<Rightarrow> if spinning p \<and> ros_ok p then None else Some (p\<lparr>spinning := False, main_pc := M_halt\<rparr>)
      | M_halt \<Rightarrow> Some ((halt_begin stop p)\<lparr>main_pc := M_join\<rparr>)
      | M_join \<Rightarrow> map_option (\<lambda>p. p\<lparr>main_pc := M_shutdown\<rparr>) (halt_join left p)
      | M_shutdown \<Rightarrow> Some (p\<lparr>ros_ok := False, main_pc := M_exit 0\<rparr>)
      | M_exit c \<Rightarrow> None)"

text \<open>
  The handler of \<^verbatim>\<open>SIGINT\<close> halts the node if there is one; \<^verbatim>\<open>SIGTERM\<close> shuts the context down.
\<close>

definition signal_int :: "('n \<Rightarrow> 'n) \<Rightarrow> 'n program \<Rightarrow> 'n program" where
  "signal_int stop p =
     (if main_pc p = M_threads then p\<lparr>ros_ok := False\<rparr>
      else (halt_begin stop p)\<lparr>in_signal := (websocket p \<noteq> None)\<rparr>)"

definition signal_term :: "'n program \<Rightarrow> 'n program" where
  "signal_term p = p\<lparr>ros_ok := False\<rparr>"

text \<open>A step of the websocket object's thread, which may cancel the executor.\<close>

definition thread_step :: "('n \<Rightarrow> ('n \<times> bool) option) \<Rightarrow> 'n program \<Rightarrow> 'n program option" where
  "thread_step work p =
     (case websocket p of
        Some (n, True) \<Rightarrow>
          map_option (\<lambda>(n', cancel). p\<lparr>websocket := Some (n', True), spinning := (spinning p \<and> \<not> cancel)\<rparr>) (work n)
      | _ \<Rightarrow> None)"

text \<open>
  All steps of a program: \<open>other\<close> is what happens to the websocket object without its thread. A
  second signal is not delivered while the handler runs; the handler is not entered during
  \<open>joinThread\<close> or after the end.
\<close>

inductive program_step ::
    "('n \<Rightarrow> 'n) \<Rightarrow> ('n \<Rightarrow> bool) \<Rightarrow> ('io \<Rightarrow> 'n \<Rightarrow> ('n \<times> bool) option) \<Rightarrow> ('n \<Rightarrow> 'n \<Rightarrow> bool)
     \<Rightarrow> 'n main_env \<Rightarrow> 'n program \<Rightarrow> 'n program \<Rightarrow> bool"
  for stop left work other env where
  main: "main_step stop left env p = Some p' \<Longrightarrow> program_step stop left work other env p p'"
| thread: "thread_step (work io) p = Some p' \<Longrightarrow> program_step stop left work other env p p'"
| other: "websocket p = Some (n, t) \<Longrightarrow> other n n' \<Longrightarrow>
    program_step stop left work other env p (p\<lparr>websocket := Some (n', t)\<rparr>)"
| sigint: "\<not> in_signal p \<Longrightarrow> main_pc p \<in> {M_threads, M_init, M_spin, M_executor, M_spinning, M_halt} \<Longrightarrow>
    program_step stop left work other env p (signal_int stop p)"
| sigterm: "program_step stop left work other env p (signal_term p)"

text \<open>The program without further events: the main thread steps when it can, the other thread when it cannot.\<close>

fun drive ::
    "('n \<Rightarrow> 'n) \<Rightarrow> ('n \<Rightarrow> bool) \<Rightarrow> ('io \<Rightarrow> 'n \<Rightarrow> ('n \<times> bool) option) \<Rightarrow> 'n main_env \<Rightarrow> 'io list
     \<Rightarrow> 'n program \<Rightarrow> 'n program" where
  "drive stop left work env [] p = p"
| "drive stop left work env (io # ios) p =
     (case main_step stop left env p of
        Some p' \<Rightarrow> drive stop left work env ios p'
      | None \<Rightarrow> (case thread_step (work io) p of
          Some p' \<Rightarrow> drive stop left work env ios p'
        | None \<Rightarrow> p))"

text \<open>Nothing keeps the executor spinning any more.\<close>

definition released :: "'n program \<Rightarrow> bool" where
  "released p \<longleftrightarrow> main_pc p \<in> {M_halt, M_join, M_shutdown, M_exit 0}
     \<or> main_pc p = M_spinning \<and> \<not> (spinning p \<and> ros_ok p)"

section \<open>What the programs need of the websocket object\<close>

text \<open>
  The contract: an invariant, and a rank that bounds how long the thread goes on after \<open>stop\<close>.
\<close>

locale websocket_thread =
  fixes inv :: "'n \<Rightarrow> bool"
    and stopped :: "'n \<Rightarrow> bool"
    and left :: "'n \<Rightarrow> bool"
    and stop :: "'n \<Rightarrow> 'n"
    and work :: "'io \<Rightarrow> 'n \<Rightarrow> ('n \<times> bool) option"
    and other :: "'n \<Rightarrow> 'n \<Rightarrow> bool"
    and rank :: "'n \<Rightarrow> nat"
  assumes inv_stop: "inv n \<Longrightarrow> inv (stop n)"
    and stopped_stop: "inv n \<Longrightarrow> stopped (stop n)"
    and inv_work: "inv n \<Longrightarrow> work io n = Some (n', b) \<Longrightarrow> inv n'"
    and stopped_work: "stopped n \<Longrightarrow> work io n = Some (n', b) \<Longrightarrow> stopped n'"
    and inv_other: "inv n \<Longrightarrow> other n n' \<Longrightarrow> inv n'"
    and stopped_other: "stopped n \<Longrightarrow> other n n' \<Longrightarrow> stopped n'"
    and progress: "inv n \<Longrightarrow> stopped n \<Longrightarrow> \<not> left n \<Longrightarrow>
      \<exists>n' b. work io n = Some (n', b) \<and> rank n' < rank n"
    and rank_bound: "rank n \<le> 3"
begin

definition program_inv :: "'n program \<Rightarrow> bool" where
  "program_inv p \<longleftrightarrow>
     (\<forall>n t. websocket p = Some (n, t) \<longrightarrow> inv n \<and> (in_signal p \<or> main_pc p = M_join \<longrightarrow> stopped n))
     \<and> (main_pc p \<in> {M_shutdown, M_exit 0} \<longrightarrow> websocket p = None)
     \<and> (main_pc p = M_exit 0 \<longrightarrow> \<not> ros_ok p)
     \<and> (in_signal p \<longrightarrow> main_pc p \<in> {M_init, M_spin, M_executor, M_spinning, M_halt})"

lemma program_inv_new: "program_inv new_program"
  by (simp add: program_inv_def new_program_def)

lemma program_inv_main:
  assumes "main_step stop left env p = Some p'" and "program_inv p" and "inv (fst (started env))"
  shows "program_inv p'"
proof (cases "in_signal p")
  case True
  then show ?thesis
    using assms(1,2) by (auto simp: main_step_def halt_join_def program_inv_def split: option.splits if_splits)
next
  case False
  then show ?thesis
    using assms inv_stop stopped_stop
    by (cases "main_pc p")
      (auto simp: main_step_def halt_join_def halt_begin_def node_spin_def program_inv_def Let_def
        split: option.splits if_splits)
qed

lemma thread_step_Some:
  assumes "thread_step (work io) p = Some p'"
  obtains n n' b where "websocket p = Some (n, True)" and "work io n = Some (n', b)"
    and "p' = p\<lparr>websocket := Some (n', True), spinning := (spinning p \<and> \<not> b)\<rparr>"
  using assms by (auto simp: thread_step_def split: option.splits bool.splits)

lemma program_inv_thread:
  assumes "thread_step (work io) p = Some p'" and "program_inv p"
  shows "program_inv p'"
proof -
  obtain n n' b where n: "websocket p = Some (n, True)" "work io n = Some (n', b)"
    and p': "p' = p\<lparr>websocket := Some (n', True), spinning := (spinning p \<and> \<not> b)\<rparr>"
    using thread_step_Some [OF assms(1)] by metis
  have "inv n" "in_signal p \<or> main_pc p = M_join \<longrightarrow> stopped n"
    using assms(2) n(1) by (auto simp: program_inv_def)
  then have "inv n'" "in_signal p \<or> main_pc p = M_join \<longrightarrow> stopped n'"
    using inv_work [OF _ n(2)] stopped_work [OF _ n(2)] by auto
  then show ?thesis using assms(2) n(1) by (auto simp: program_inv_def p')
qed

lemma program_inv_int:
  assumes "program_inv p" and "\<not> in_signal p" and "main_pc p \<in> {M_threads, M_init, M_spin, M_executor, M_spinning, M_halt}"
  shows "program_inv (signal_int stop p)"
  using assms inv_stop stopped_stop
  by (cases "main_pc p") (auto simp: signal_int_def halt_begin_def program_inv_def Let_def split: option.splits)

lemma program_inv_step:
  assumes "program_step stop left work other env p p'" and "program_inv p" and "inv (fst (started env))"
  shows "program_inv p'"
  using assms
proof (induction rule: program_step.induct)
  case (other p n t n')
  then show ?case using inv_other stopped_other by (auto simp: program_inv_def)
next
  case (sigterm p)
  then show ?case by (auto simp: program_inv_def signal_term_def)
qed (auto intro: program_inv_main program_inv_thread program_inv_int)

lemma program_reachable:
  assumes "(program_step stop left work other env)\<^sup>*\<^sup>* new_program p" and "inv (fst (started env))"
  shows "program_inv p"
  using assms by (induction rule: rtranclp_induct) (auto intro: program_inv_new program_inv_step)

definition thread_rank :: "'n program \<Rightarrow> nat" where
  "thread_rank p = (case websocket p of Some (n, True) \<Rightarrow> rank n | _ \<Rightarrow> 0)"

definition program_rank :: "'n program \<Rightarrow> nat" where
  "program_rank p = (if in_signal p then thread_rank p + 1 else 0)
     + (case main_pc p of M_spinning \<Rightarrow> 7 | M_halt \<Rightarrow> 6 | M_join \<Rightarrow> thread_rank p + 2 | M_shutdown \<Rightarrow> 1 | _ \<Rightarrow> 0)"

lemma thread_rank_bound: "thread_rank p \<le> 3"
  using rank_bound by (auto simp: thread_rank_def split: option.splits bool.splits)

lemma main_step_released:
  assumes "main_step stop left env p = Some p'" and "released p" and "program_inv p"
  shows "released p' \<and> program_rank p' < program_rank p"
proof (cases "in_signal p")
  case True
  then have "main_pc p = M_spinning \<or> main_pc p = M_halt"
    using assms(2,3) by (auto simp: released_def program_inv_def)
  moreover have "main_pc p' = main_pc p" "spinning p' = spinning p" "ros_ok p' = ros_ok p" "\<not> in_signal p'"
    using assms(1) True by (auto simp: main_step_def halt_join_def split: option.splits if_splits)
  ultimately show ?thesis
    using assms(2) True by (auto simp: released_def program_rank_def)
next
  case False
  then consider "main_pc p = M_spinning" "\<not> (spinning p \<and> ros_ok p)" | "main_pc p = M_halt"
    | "main_pc p = M_join" | "main_pc p = M_shutdown" | "main_pc p = M_exit 0"
    using assms(2) by (auto simp: released_def)
  then show ?thesis
  proof cases
    case 2
    then have "main_pc p' = M_join" "in_signal p' = in_signal p"
      using assms(1) False by (auto simp: main_step_def halt_begin_def Let_def split: option.splits)
    then show ?thesis
      using 2 False thread_rank_bound [of p'] by (simp add: released_def program_rank_def)
  qed (use assms(1) False in \<open>auto simp: main_step_def halt_join_def released_def program_rank_def
      split: option.splits if_splits\<close>)
qed

text \<open>When the main thread waits, it waits for a thread that was stopped and has not left.\<close>

lemma main_waits:
  assumes "main_step stop left env p = None" and "released p" and "main_pc p \<noteq> M_exit 0" and "program_inv p"
  shows "\<exists>n. websocket p = Some (n, True) \<and> \<not> left n \<and> stopped n \<and> inv n \<and> (in_signal p \<or> main_pc p = M_join)"
  using assms
  by (cases "in_signal p"; cases "main_pc p")
    (auto simp: main_step_def halt_join_def released_def program_inv_def split: option.splits if_splits)

lemma thread_step_released:
  assumes "websocket p = Some (n, True)" and "\<not> left n" and "stopped n" and "inv n"
    and "released p" and "in_signal p \<or> main_pc p = M_join"
  shows "\<exists>p'. thread_step (work io) p = Some p' \<and> released p' \<and> program_rank p' < program_rank p"
proof -
  obtain n' b where w: "work io n = Some (n', b)" "rank n' < rank n"
    using progress [OF assms(4,3,2)] by blast
  let ?p = "p\<lparr>websocket := Some (n', True), spinning := (spinning p \<and> \<not> b)\<rparr>"
  have "thread_step (work io) p = Some ?p" using assms(1) w(1) by (simp add: thread_step_def)
  moreover have "released ?p" using assms(5) by (auto simp: released_def)
  moreover have "program_rank ?p < program_rank p"
    using assms(1,5,6) w(2) by (auto simp: program_rank_def thread_rank_def released_def)
  ultimately show ?thesis by blast
qed

lemma drive_ends:
  assumes "program_inv p" and "released p" and "program_rank p \<le> length ios" and "inv (fst (started env))"
  shows "main_pc (drive stop left work env ios p) = M_exit 0 \<and> websocket (drive stop left work env ios p) = None
    \<and> \<not> ros_ok (drive stop left work env ios p)"
  using assms(1-3)
proof (induction ios arbitrary: p)
  case Nil
  then have "program_rank p = 0" by simp
  then have "main_pc p = M_exit 0" using Nil by (auto simp: released_def program_rank_def split: if_splits)
  then show ?case using Nil by (simp add: program_inv_def)
next
  case (Cons io ios)
  show ?case
  proof (cases "main_step stop left env p")
    case (Some p')
    then have "program_inv p'" "released p'" "program_rank p' < program_rank p"
      using Cons.prems assms(4) main_step_released program_inv_main by auto
    then show ?thesis using Cons Some by simp
  next
    case None
    show ?thesis
    proof (cases "main_pc p = M_exit 0")
      case True
      then show ?thesis using Cons.prems None by (auto simp: program_inv_def thread_step_def)
    next
      case False
      with main_waits [OF None] Cons.prems obtain n where
        "websocket p = Some (n, True)" "\<not> left n" "stopped n" "inv n" "in_signal p \<or> main_pc p = M_join"
        by blast
      from thread_step_released [OF this(1-4) Cons.prems(2) this(5)] obtain p' where
        p': "thread_step (work io) p = Some p'" "released p'" "program_rank p' < program_rank p" by blast
      then show ?thesis
        using Cons None program_inv_thread [OF p'(1)] by simp
    qed
  qed
qed

lemma program_rank_bound: "released p \<Longrightarrow> program_rank p \<le> 11"
  using thread_rank_bound [of p] by (auto simp: program_rank_def released_def)

text \<open>A program whose executor is released ends, and destroys a websocket object only after its thread left.\<close>

lemma program_ends:
  assumes "(program_step stop left work other env)\<^sup>*\<^sup>* new_program p" and "inv (fst (started env))"
    and "released p" and "length ios = 11"
  shows "main_pc (drive stop left work env ios p) = M_exit 0 \<and> websocket (drive stop left work env ios p) = None
    \<and> \<not> ros_ok (drive stop left work env ios p)"
  using drive_ends [OF program_reachable [OF assms(1,2)] assms(3)] program_rank_bound [OF assms(3)] assms(2,4)
  by simp

end

section \<open>The server\<close>

definition server_stopThread :: "server_node \<Rightarrow> server_node" where
  "server_stopThread s = (server_stop ^^ 5) s"

text \<open>What happens to a server besides its thread and \<open>stopThread\<close>.\<close>

fun own_event :: "server_node_event \<Rightarrow> bool" where
  "own_event (Work_server io) \<longleftrightarrow> True"
| "own_event Stop_server \<longleftrightarrow> True"
| "own_event _ \<longleftrightarrow> False"

inductive server_other :: "server_node \<Rightarrow> server_node \<Rightarrow> bool" where
  "\<not> own_event e \<Longrightarrow> node_enabled e s \<Longrightarrow> node_apply e s = Some s' \<Longrightarrow> server_other s s'"

definition server_thread :: "listen_io \<Rightarrow> server_node \<Rightarrow> (server_node \<times> bool) option" where
  "server_thread io s = map_option (\<lambda>s. (s, False)) (server_work io s)"

definition server_left :: "server_node \<Rightarrow> bool" where
  "server_left s \<longleftrightarrow> s_pc s = S_left"

definition server_stopped :: "server_node \<Rightarrow> bool" where
  "server_stopped s \<longleftrightarrow> stop_pc s \<ge> 2"

text \<open>How many steps the thread has left when it was stopped.\<close>

fun server_rank :: "server_pc \<Rightarrow> nat" where
  "server_rank S_left = 0"
| "server_rank S_accept = 3"
| "server_rank S_lost = 3"
| "server_rank S_run = 2"
| "server_rank S_restart = 2"
| "server_rank _ = 1"

lemma stop_pc_other: "server_other s s' \<Longrightarrow> stop_pc s' = stop_pc s"
  by (induction rule: server_other.induct)
    (auto elim!: own_event.elims simp: accept_handler_def asyncAccept_def Let_def split: if_splits accept_result.splits)

lemma server_progress:
  assumes "server_inv s" and "stop_pc s \<ge> 2" and "s_pc s \<noteq> S_left"
  shows "\<exists>s'. server_work io s = Some s' \<and> server_rank (s_pc s') < server_rank (s_pc s)"
  using assms by (cases "s_pc s") (auto simp: server_inv_def server_work_def asyncAccept_def)

interpretation server_main: websocket_thread server_inv server_stopped server_left server_stopThread
    server_thread server_other "\<lambda>s. server_rank (s_pc s)"
proof unfold_locales
  show "server_inv n \<Longrightarrow> server_inv (server_stopThread n)" for n
    by (simp add: server_stopThread_def numeral_eq_Suc server_inv_stop)
  show "server_stopped (server_stopThread n)" for n
    by (simp add: server_stopThread_def server_stopped_def numeral_eq_Suc stop_pc_stop)
  show "server_inv n \<Longrightarrow> server_thread io n = Some (n', b) \<Longrightarrow> server_inv n'" for io n n' b
    by (auto simp: server_thread_def intro: server_inv_work)
  show "server_stopped n \<Longrightarrow> server_thread io n = Some (n', b) \<Longrightarrow> server_stopped n'" for io n n' b
    by (auto simp: server_thread_def server_stopped_def dest: stop_pc_work)
  show "server_inv n \<Longrightarrow> server_other n n' \<Longrightarrow> server_inv n'" for n n'
    by (auto elim!: server_other.cases intro: server_inv_apply)
  show "server_stopped n \<Longrightarrow> server_other n n' \<Longrightarrow> server_stopped n'" for n n'
    by (simp add: server_stopped_def stop_pc_other)
  show "\<exists>n' b. server_thread io n = Some (n', b) \<and> server_rank (s_pc n') < server_rank (s_pc n)"
    if "server_inv n" "server_stopped n" "\<not> server_left n" for io n
    using server_progress [of n io] that by (auto simp: server_thread_def server_stopped_def server_left_def)
  show "server_rank (s_pc n) \<le> 3" for n by (cases "s_pc n") simp_all
qed

text \<open>
  \<open>ConnectServer\<close>: one more thread for the timer of the status publisher, and a websocket object
  that listens before its thread is created.
\<close>

definition server_start :: "listen_io \<Rightarrow> bool \<Rightarrow> server_node \<times> bool" where
  "server_start io created =
     (case server_onBeforeStartThread io new_server_node of (fine, s) \<Rightarrow> (s, fine \<and> created))"

definition server_env ::
    "env \<Rightarrow> string \<Rightarrow> string \<Rightarrow> parameters \<Rightarrow> listen_io \<Rightarrow> bool \<Rightarrow> server_node main_env" where
  "server_env env name namespace p io created =
     \<lparr>thread_number = evalNrOfMultiThreadedExecutorThreads env p + 1,
      init_result = (init env name namespace True p initial_config \<noteq> None),
      publish_status = p_publish_status p,
      started = server_start io created\<rparr>"

lemma server_inv_started: "server_inv (fst (started (server_env env name namespace p io created)))"
  using startListening_cases [of io "new_server_node\<lparr>ioc_stopped := False\<rparr>"]
  by (elim disjE)
    (auto simp: server_env_def server_start_def server_onBeforeStartThread_def new_server_node_def
      server_inv_def close_acceptor_def)

section \<open>The client\<close>

inductive client_other :: "client_node \<Rightarrow> client_node \<Rightarrow> bool" where
  "client_other c (client_ask_stop k cc cr c)"

definition client_left :: "client_node \<Rightarrow> bool" where
  "client_left c \<longleftrightarrow> c_pc c = C_left"

interpretation client_main: websocket_thread client_inv c_stopping client_left client_stop
    "client_work cfg" client_other "\<lambda>c. client_rank (c_pc c)" for cfg
proof unfold_locales
  show "c_stopping (client_stop c)" for c by (simp add: client_stop_def)
  show "client_inv c \<Longrightarrow> client_other c c' \<Longrightarrow> client_inv c'" for c c'
    by (auto elim!: client_other.cases intro: client_inv_ask_stop)
  show "c_stopping c \<Longrightarrow> client_other c c' \<Longrightarrow> c_stopping c'" for c c'
    by (auto elim!: client_other.cases simp: client_ask_stop_def)
  show "\<exists>c' b. client_work cfg io c = Some (c', b) \<and> client_rank (c_pc c') < client_rank (c_pc c)"
    if "client_inv c" "c_stopping c" "\<not> client_left c" for io c
    using client_progress that by (simp add: client_left_def)
  show "client_rank (c_pc c) \<le> 3" for c by (cases "c_pc c") simp_all
qed (auto intro: client_inv_stop client_inv_work client_work_stopping)

definition client_env :: "env \<Rightarrow> string \<Rightarrow> string \<Rightarrow> parameters \<Rightarrow> bool \<Rightarrow> client_node main_env" where
  "client_env env name namespace p created =
     \<lparr>thread_number = evalNrOfMultiThreadedExecutorThreads env p,
      init_result = (init env name namespace False p initial_config \<noteq> None),
      publish_status = False,
      started = (client_onBeforeStartThread new_client_node, created)\<rparr>"

lemma client_inv_started: "client_inv (fst (started (client_env env name namespace p created)))"
  by (simp add: client_env_def client_inv_new)

text \<open>The step with which the thread of the client leaves cancels the executor.\<close>

lemma client_leave_cancels:
  "client_work cfg io c = Some (c', b) \<Longrightarrow> c_pc c' = C_left \<Longrightarrow> b"
  by (cases "c_pc c")
    (auto simp: client_work_def client_post_def client_connect_def client_stop_def Let_def
      split: if_splits list.splits prod.splits)

lemma client_leave_releases:
  assumes "thread_step (client_work cfg io) p = Some p'" and "main_pc p = M_spinning"
    and "websocket p' = Some (c, True)" and "c_pc c = C_left"
  shows "released p'"
proof -
  obtain n n' b where n: "client_work cfg io n = Some (n', b)"
    and p': "p' = p\<lparr>websocket := Some (n', True), spinning := (spinning p \<and> \<not> b)\<rparr>"
    using assms(1) by (auto simp: thread_step_def split: option.splits bool.splits)
  then have "b" using client_leave_cancels [OF n] assms(3,4) by simp
  then show ?thesis using assms(2) p' by (simp add: released_def)
qed

text \<open>
  \<open>ConnectClient\<close> as it is written, without a status publisher; \<open>halt\<close> ends with \<open>joinThread\<close>, which
  is the same for both programs. The model of both programs is what it does.
\<close>

definition client_spin :: "client_node \<times> bool \<Rightarrow> client_node program \<Rightarrow> client_node program" where
  "client_spin started_client p =
     p\<lparr>websocket := Some started_client, ros_ok := (ros_ok p \<and> snd started_client)\<rparr>"

definition client_halt :: "client_node program \<Rightarrow> client_node program" where
  "client_halt p =
     (case websocket p of
        None \<Rightarrow> p
      | Some (n, t) \<Rightarrow> p\<lparr>websocket := Some (client_stop n, t), spinning := False\<rparr>)"

definition client_signal :: "bool \<Rightarrow> client_node program \<Rightarrow> client_node program" where
  "client_signal is_sigint p =
     (if is_sigint \<and> main_pc p \<noteq> M_threads then (client_halt p)\<lparr>in_signal := (websocket p \<noteq> None)\<rparr>
      else p\<lparr>ros_ok := False\<rparr>)"

definition client_main ::
    "env \<Rightarrow> string \<Rightarrow> string \<Rightarrow> parameters \<Rightarrow> bool \<Rightarrow> client_node program \<Rightarrow> client_node program option" where
  "client_main env name namespace ps created =
     main_step client_stop client_left (client_env env name namespace ps created)"

lemma client_program_as_written:
  assumes "\<not> statusPublisher p"
  shows "node_spin (client_env env name namespace ps created) p
      = client_spin (client_onBeforeStartThread new_client_node, created) p"
    and "halt_begin client_stop p = client_halt p"
    and "signal_int client_stop p = client_signal True p"
    and "signal_term p = client_signal False p"
    and "program_step client_stop client_left work other (client_env env name namespace ps created) p p'
      \<Longrightarrow> \<not> statusPublisher p'"
proof -
  show "node_spin (client_env env name namespace ps created) p
      = client_spin (client_onBeforeStartThread new_client_node, created) p"
    using assms by (cases p) (simp add: node_spin_def client_spin_def client_env_def)
  show halt: "halt_begin client_stop p = client_halt p"
    using assms by (cases p) (simp add: halt_begin_def client_halt_def Let_def split: option.split)
  show "signal_int client_stop p = client_signal True p" "signal_term p = client_signal False p"
    by (simp_all add: signal_int_def signal_term_def client_signal_def halt)
  have kept: "\<not> statusPublisher (halt_begin client_stop q)" for q
    by (simp add: halt_begin_def Let_def split: option.split)
  assume "program_step client_stop client_left work other (client_env env name namespace ps created) p p'"
  then show "\<not> statusPublisher p'"
  proof cases
    case main
    have j: "halt_join client_left p = Some q \<Longrightarrow> \<not> statusPublisher q" for q
      using assms by (auto simp: halt_join_def split: option.splits if_splits)
    show ?thesis
      using main assms kept j
      by (cases "main_pc p")
        (auto simp: main_step_def node_spin_def client_env_def split: if_splits)
  next
    case (thread io)
    then show ?thesis using assms by (auto simp: thread_step_def split: option.splits bool.splits)
  next
    case (sigint)
    then show ?thesis using assms kept by (simp add: signal_int_def)
  next
    case sigterm
    then show ?thesis using assms by (simp add: signal_term_def)
  qed (use assms in simp)
qed

section \<open>The status message\<close>

text \<open>\<^verbatim>\<open>src/status/statusPublisher.cpp\<close>: what the timer of the server publishes every second.\<close>

record connect_status =
  authentication_omit :: bool
  domain_id :: u64
  name_space :: string
  client_connected :: bool

text \<open>What the constructor creates: the topic and a timer of one second in a group of its own.\<close>

record status_publisher =
  sp_topic :: string
  sp_period_seconds :: nat
  sp_exclusive_group :: bool
  timer_running :: bool

definition new_status_publisher :: status_publisher where
  "new_status_publisher = \<lparr>sp_topic = ''connect/status'', sp_period_seconds = 1, sp_exclusive_group = True,
     timer_running = True\<rparr>"

definition publishStatus :: "GlobalConfig \<Rightarrow> bool \<Rightarrow> connect_status" where
  "publishStatus cfg connected =
     \<lparr>authentication_omit = authenticationOmit cfg, domain_id = nodeDomainId cfg,
      name_space = nodeNamespace cfg, client_connected = connected\<rparr>"

definition status_callback :: "GlobalConfig \<Rightarrow> server_node program \<Rightarrow> connect_status option" where
  "status_callback cfg p =
     (if \<not> statusPublisher p then None
      else Some (publishStatus cfg (case websocket p of
        Some (s, _) \<Rightarrow> isClientConnected (s_manager s)
      | None \<Rightarrow> False)))"

end
