(* ===== verification/ProgramSpec.thy ===== *)
theory ProgramSpec
  imports NodeProgram ConfigExample
begin

text \<open>
  The properties of the two programs: accepting clients, ending after a stop, and the ways in which
  a stop is lost. \<open>NodeProgram\<close> and \<open>Listener\<close> hold their lemmas.
\<close>

section \<open>Examples\<close>

text \<open>A server that has accepted one client and waits for the next one.\<close>

definition one_client :: conn_manager where
  "one_client = \<lparr>connections = [0], next_connection = 1, stop_posts = [], mgr_events = []\<rparr>"

definition busy_server :: server_node where
  "busy_server = new_server_node\<lparr>s_pc := S_run, isListening := True, acceptor_open := True,
     accepts := 1, s_manager := one_client\<rparr>"

lemmas server_example_simps = server_onBeforeStartThread_def startListening_def listen_fine_def
  new_server_node_def server_work_def asyncAccept_def accept_handler_def in_ioc_def
  startConnection_def new_conn_manager_def one_client_def busy_server_def

lemma busy_server_reachable: "server_reachable busy_server"
proof -
  let ?s = "new_server_node\<lparr>isListening := True, acceptor_open := True\<rparr>"
  have "server_reachable ?s"
    by (rule server_reachable.started [of listen_fine]) (simp add: server_example_simps)
  then have "server_reachable (?s\<lparr>s_pc := S_accept\<rparr>)"
    by (rule server_reachable.event [where e = "Work_server listen_fine"]) (simp_all add: server_example_simps)
  then have "server_reachable (?s\<lparr>s_pc := S_run, accepts := 1\<rparr>)"
    by (rule server_reachable.event [where e = "Work_server listen_fine"]) (simp_all add: server_example_simps)
  then show ?thesis
    by (rule server_reachable.event [where e = "Accept_done (Accepted True)"])
      (simp_all add: server_example_simps Let_def)
qed

text \<open>The same server after another thread has executed the first statements of \<open>stopThread\<close>.\<close>

lemma stopping_server_reachable:
  "server_reachable (busy_server\<lparr>stop_pc := 2, s_stopping := True, ioc_stopped := True\<rparr>)"
proof -
  have "server_reachable (busy_server\<lparr>stop_pc := 1, s_stopping := True\<rparr>)"
    by (rule server_reachable.event [where e = Stop_server, OF busy_server_reachable])
      (simp_all add: server_stop_def busy_server_def new_server_node_def Let_def)
  then show ?thesis
    by (rule server_reachable.event [where e = Stop_server])
      (simp_all add: server_stop_def busy_server_def new_server_node_def Let_def)
qed

section \<open>The server\<close>



text \<open>
  C28. Stopping the server is not lost: in every reachable state in which another thread has come
  past the first two statements of \<open>stopThread\<close> (the flag and \<open>ioc.stop()\<close>), the thread of the
  server leaves its run loop within three steps, whatever the results of listening.
\<close>

theorem server_stop_terminates:
  assumes "server_reachable s" and "stop_pc s \<ge> 2" and "length ios = 3"
  shows "s_pc (server_alone ios s) = S_left"
  using server_stops [OF server_reachable_inv [OF assms(1)] assms(2,3)] .

theorem server_stop_terminates_witness:
  "s_pc (server_alone (replicate 3 listen_fine)
     (busy_server\<lparr>stop_pc := 2, s_stopping := True, ioc_stopped := True\<rparr>)) = S_left"
  by (rule server_stop_terminates [OF stopping_server_reachable]) simp_all

section \<open>The programs\<close>

text \<open>The steps of the client program, and its run without further events.\<close>

abbreviation client_step ::
    "GlobalConfig \<Rightarrow> client_node main_env \<Rightarrow> client_node program \<Rightarrow> client_node program \<Rightarrow> bool" where
  "client_step cfg env \<equiv> program_step client_stop client_left (client_work cfg) client_other env"

abbreviation client_drive ::
    "GlobalConfig \<Rightarrow> client_node main_env \<Rightarrow> connect_io list \<Rightarrow> client_node program \<Rightarrow> client_node program" where
  "client_drive cfg env \<equiv> drive client_stop client_left (client_work cfg) env"

abbreviation server_step ::
    "server_node main_env \<Rightarrow> server_node program \<Rightarrow> server_node program \<Rightarrow> bool" where
  "server_step env \<equiv> program_step server_stopThread server_left server_thread server_other env"

abbreviation server_drive ::
    "server_node main_env \<Rightarrow> listen_io list \<Rightarrow> server_node program \<Rightarrow> server_node program" where
  "server_drive env \<equiv> drive server_stopThread server_left server_thread env"

text \<open>The main thread can go on.\<close>

lemma reach_main:
  "(program_step stop left work other env)\<^sup>*\<^sup>* p q \<Longrightarrow> main_step stop left env q = Some r
     \<Longrightarrow> (program_step stop left work other env)\<^sup>*\<^sup>* p r"
  by (auto intro: rtranclp.rtrancl_into_rtrancl program_step.main)

lemma reach_thread:
  "(program_step stop left work other env)\<^sup>*\<^sup>* p q \<Longrightarrow> thread_step (work io) q = Some r
     \<Longrightarrow> (program_step stop left work other env)\<^sup>*\<^sup>* p r"
  by (auto intro: rtranclp.rtrancl_into_rtrancl program_step.thread)

text \<open>Both programs come to the point at which the executor is entered, and enter it.\<close>

lemma reach_executor:
  assumes "thread_number env \<ge> 1" and "init_result env"
  shows "(program_step stop left work other env)\<^sup>*\<^sup>* new_program
    ((node_spin env new_program)\<lparr>main_pc := M_executor\<rparr>)"
proof -
  let ?R = "program_step stop left work other env"
  have "?R\<^sup>*\<^sup>* new_program (new_program\<lparr>main_pc := M_init\<rparr>)"
    by (rule reach_main [OF rtranclp.rtrancl_refl]) (use assms in \<open>simp add: main_step_def new_program_def\<close>)
  then have "?R\<^sup>*\<^sup>* new_program (new_program\<lparr>main_pc := M_spin\<rparr>)"
    by (rule reach_main) (use assms in \<open>simp add: main_step_def new_program_def\<close>)
  then show ?thesis
    by (rule reach_main) (simp add: main_step_def new_program_def node_spin_def)
qed

lemma reach_spinning:
  assumes "thread_number env \<ge> 1" and "init_result env"
  shows "(program_step stop left work other env)\<^sup>*\<^sup>* new_program
    ((node_spin env new_program)\<lparr>spinning := True, main_pc := M_spinning\<rparr>)"
  by (rule reach_main [OF reach_executor [OF assms]])
    (simp add: main_step_def node_spin_def new_program_def)

definition example_client_env :: "client_node main_env" where
  "example_client_env = client_env example_env ''connect_client'' ''/'' example_parameters True"

definition example_server_env :: "server_node main_env" where
  "example_server_env = server_env example_env ''connect_server'' ''/'' example_parameters listen_fine True"

lemma example_client_env_ok:
  "thread_number example_client_env \<ge> 1" "init_result example_client_env"
  "started example_client_env = (new_client_node, True)"
  using example_init_node [of "''connect_client''" "''/''" False]
  by (simp_all add: example_client_env_def client_env_def example_threads client_onBeforeStartThread_def
      new_client_node_def)

lemma example_server_env_ok:
  "thread_number example_server_env \<ge> 1" "init_result example_server_env"
  "started example_server_env = (new_server_node\<lparr>isListening := True, acceptor_open := True\<rparr>, True)"
  using example_init_node [of "''connect_server''" "''/''" True]
  by (simp_all add: example_server_env_def server_env_def example_threads server_start_def server_example_simps)

text \<open>A connection attempt that is refused.\<close>

definition refused :: connect_io where
  "refused = \<lparr>resolve_failed = False, connect_failed = True, sni_failed = False, tls_failed = False,
     connection_starts = True\<rparr>"

definition client_gone :: client_node where
  "client_gone = new_client_node\<lparr>c_pc := C_left, c_stopping := True, c_ioc_stopped := True, close_callback := True\<rparr>"

lemma stopAllConnections_Nil: "connections m = [] \<Longrightarrow> stopAllConnections m = m"
  by (subst stopAllConnections.simps) simp

lemma refused_leaves: "client_work cfg refused new_client_node = Some (client_gone, True)"
  by (simp add: client_work_def client_connect_def new_client_node_def refused_def client_stop_def
      client_gone_def isClientConnected_def new_conn_manager_def stopAllConnections_Nil)

text \<open>
  C27. The client program ends with its connection: when, while the executor spins, the thread of the
  client leaves - because it could not connect, because its connection was closed or because it was
  stopped - then no connection is left open, and the program, without any further event, leaves
  \<open>main\<close> within eleven steps with exit code 0 and the ROS context shut down.
\<close>

theorem client_program_ends:
  assumes "(client_step cfg (client_env env name namespace ps created))\<^sup>*\<^sup>* new_program p"
    and "main_pc p = M_spinning"
    and "thread_step (client_work cfg io) p = Some p'" and "websocket p' = Some (c, True)" and "c_pc c = C_left"
    and "length ios = 11"
  shows "connections (c_manager c) = []
    \<and> main_pc (client_drive cfg (client_env env name namespace ps created) ios p') = M_exit 0
    \<and> websocket (client_drive cfg (client_env env name namespace ps created) ios p') = None
    \<and> \<not> ros_ok (client_drive cfg (client_env env name namespace ps created) ios p')"
proof -
  let ?e = "client_env env name namespace ps created"
  have reach: "(client_step cfg ?e)\<^sup>*\<^sup>* new_program p'"
    by (rule reach_thread [OF assms(1,3)])
  from client_main.program_reachable [OF reach client_inv_started] have "client_inv c"
    using assms(4) by (auto simp: client_main.program_inv_def)
  then have "connections (c_manager c) = []" using assms(5) by (simp add: client_inv_def)
  with client_main.program_ends [OF reach client_inv_started
      client_leave_releases [OF assms(3,2,4,5)] assms(6)] show ?thesis
    by blast
qed

theorem client_program_ends_witness:
  "connections (c_manager client_gone) = []
    \<and> main_pc (client_drive initial_config example_client_env (replicate 11 refused)
        ((node_spin example_client_env new_program)\<lparr>main_pc := M_spinning, websocket := Some (client_gone, True)\<rparr>))
      = M_exit 0
    \<and> websocket (client_drive initial_config example_client_env (replicate 11 refused)
        ((node_spin example_client_env new_program)\<lparr>main_pc := M_spinning, websocket := Some (client_gone, True)\<rparr>))
      = None
    \<and> \<not> ros_ok (client_drive initial_config example_client_env (replicate 11 refused)
        ((node_spin example_client_env new_program)\<lparr>main_pc := M_spinning, websocket := Some (client_gone, True)\<rparr>))"
  unfolding example_client_env_def
proof (rule client_program_ends [where io = refused])
  show "(client_step initial_config (client_env example_env ''connect_client'' ''/'' example_parameters True))\<^sup>*\<^sup>*
      new_program ((node_spin (client_env example_env ''connect_client'' ''/'' example_parameters True) new_program)
        \<lparr>spinning := True, main_pc := M_spinning\<rparr>)"
    by (rule reach_spinning [OF example_client_env_ok(1,2), unfolded example_client_env_def])
qed (use example_client_env_ok(3) [unfolded example_client_env_def] refused_leaves [of initial_config] in
    \<open>simp_all add: thread_step_def node_spin_def new_program_def, simp add: client_gone_def\<close>)



text \<open>
  C36. A client that gives up early never ends: when its connection attempt fails before the main
  thread enters the executor, the cancellation is lost; the program comes to a state in which the
  thread of the client has left, no connection exists and the executor spins, and in which neither
  the main thread nor the thread of the client ever takes a step.
\<close>

theorem early_cancel_lost:
  assumes "thread_number env \<ge> 1" and "init_result env" and "started env = (new_client_node, True)"
  shows "\<exists>p c. (client_step cfg env)\<^sup>*\<^sup>* new_program p \<and> websocket p = Some (c, True) \<and> c_pc c = C_left
    \<and> connections (c_manager c) = [] \<and> main_pc p = M_spinning \<and> main_step client_stop client_left env p = None
    \<and> (\<forall>io. thread_step (client_work cfg io) p = None)"
proof -
  let ?p = "(node_spin env new_program)\<lparr>main_pc := M_executor\<rparr>"
  let ?q = "?p\<lparr>websocket := Some (client_gone, True)\<rparr>"
  let ?r = "?q\<lparr>spinning := True, main_pc := M_spinning\<rparr>"
  have "thread_step (client_work cfg refused) ?p = Some ?q"
    using assms(3) refused_leaves [of cfg] by (simp add: thread_step_def node_spin_def new_program_def)
  with reach_executor [OF assms(1,2)] have "(client_step cfg env)\<^sup>*\<^sup>* new_program ?q"
    by (rule reach_thread)
  then have "(client_step cfg env)\<^sup>*\<^sup>* new_program ?r"
    by (rule reach_main) (simp add: main_step_def node_spin_def new_program_def)
  moreover have "main_step client_stop client_left env ?r = None" "\<forall>io. thread_step (client_work cfg io) ?r = None"
    using assms(3)
    by (simp_all add: main_step_def thread_step_def node_spin_def new_program_def client_gone_def client_work_def)
  ultimately show ?thesis
    by (intro exI [of _ ?r] exI [of _ client_gone])
      (simp add: client_gone_def new_client_node_def new_conn_manager_def)
qed

theorem early_cancel_lost_witness:
  "\<exists>p c. (client_step initial_config example_client_env)\<^sup>*\<^sup>* new_program p \<and> websocket p = Some (c, True)
    \<and> c_pc c = C_left \<and> connections (c_manager c) = [] \<and> main_pc p = M_spinning
    \<and> main_step client_stop client_left example_client_env p = None
    \<and> (\<forall>io. thread_step (client_work initial_config io) p = None)"
  by (rule early_cancel_lost [OF example_client_env_ok])

end
