(* ===== verification/SessionSpec.thy ===== *)
theory SessionSpec
  imports Session
begin

text \<open>
  The properties of a websocket connection from its handshake to its end; \<open>Session\<close> and \<open>Endpoint\<close>
  hold their lemmas.
\<close>

section \<open>Examples\<close>

text \<open>A server connection on which the handshake has succeeded.\<close>

definition any_plugin :: auth_plugin where
  "any_plugin key a = a"

definition connected_session :: "server_connection session" where
  "connected_session = (begin_server initial_config)\<lparr>
     ses := (open_stream (new_server_connection initial_config))\<lparr>authenticationCheckTimer := True\<rparr>,
     pending := [Ws_read], remoteEndpoint := ''10.0.0.2'', log_name := ''.websocket-connection.10.0.0.2''\<rparr>"

lemmas session_example_simps = begin_server_def begin_session_def http_completed_def completed_def
  accept_completed_def server_endpoint_def forwarded_endpoint_def set_endpoint_def open_stream_def
  server_onConnected_def asyncRead_def initial_config_def logger_of_endpoint_def
  new_server_connection_def new_ws_connection_def new_conn_def ws_connection.extend_def

lemma connected_session_reachable: "server_session initial_config any_plugin connected_session"
proof -
  have "server_session initial_config any_plugin ((begin_server initial_config)\<lparr>pending := [Ws_accept]\<rparr>)"
    by (rule server_session.event [where e = "Http_done False", OF server_session.starts])
      (simp_all add: session_example_simps Let_def)
  then show ?thesis
    by (rule server_session.event [where e = "Accept_ws False None (Some ''10.0.0.2'')"])
      (simp_all add: connected_session_def session_example_simps Let_def)
qed

section \<open>The chain of operations\<close>

text \<open>
  C24. A server connection never reads twice at once and never goes deaf. In every reachable state at
  most one operation of the handshake and of reading is outstanding; none is only when the stop of
  the connection was requested or its stream was closed; before the handshake has succeeded no
  manager holds or runs anything; and whenever a received frame was processed the next read starts,
  unless the stream was closed meanwhile.
\<close>

theorem session_never_deaf:
  assumes "server_session cfg plugin s"
  shows "length (pending s) \<le> 1
    \<and> (pending s = [] \<longrightarrow> ws_stops (ses s) \<noteq> [] \<or> \<not> ws_open (ws_conn (ses s)))
    \<and> (Http_read \<in> set (pending s) \<or> Ws_accept \<in> set (pending s) \<longrightarrow> dormant (ses s))
    \<and> (\<forall>buf c. server_session_enabled (Read_done (Frame buf)) s
         \<and> read_handler (server_processMessage cfg plugin) (Frame buf) (ses s) = Some c
         \<longrightarrow> (\<exists>s'. server_session_apply cfg plugin (Read_done (Frame buf)) s = Some s' \<and> ses s' = c
              \<and> (pending s' = [Ws_read] \<or> \<not> ws_open (ws_conn c))))"
proof (intro conjI allI impI)
  have ok: "session_ok s" using server_session_ok [OF assms] .
  then show "length (pending s) \<le> 1" by (simp add: session_ok_def)
  show "ws_stops (ses s) \<noteq> [] \<or> \<not> ws_open (ws_conn (ses s))" if "pending s = []"
    using ok that by (auto simp: session_ok_def)
  show "dormant (ses s)" if "Http_read \<in> set (pending s) \<or> Ws_accept \<in> set (pending s)"
    using ok that by (auto simp: session_ok_def)
  show "\<exists>s'. server_session_apply cfg plugin (Read_done (Frame buf)) s = Some s' \<and> ses s' = c
      \<and> (pending s' = [Ws_read] \<or> \<not> ws_open (ws_conn c))"
    if "server_session_enabled (Read_done (Frame buf)) s
      \<and> read_handler (server_processMessage cfg plugin) (Frame buf) (ses s) = Some c" for buf c
    using read_completed_ok [OF ok] that by fastforce
qed

theorem session_never_deaf_witness:
  "length (pending connected_session) \<le> 1
    \<and> (\<exists>s' c. server_session_apply initial_config any_plugin (Read_done (Frame [12, 0, 7])) connected_session = Some s'
         \<and> ses s' = c \<and> (pending s' = [Ws_read] \<or> \<not> ws_open (ws_conn c)))"
proof -
  have "server_session_enabled (Read_done (Frame [12, 0, 7])) connected_session"
    by (simp add: connected_session_def begin_server_def begin_session_def)
  moreover have "\<exists>c. read_handler (server_processMessage initial_config any_plugin) (Frame [12, 0, 7]) (ses connected_session) = Some c"
    by (simp add: read_handler_def server_processMessage_def processMessage_def isOpCode_def fromFlatBuffer_def
        RclMessage_def connected_session_def slice_def suffix_from_def Let_def)
  ultimately show ?thesis using session_never_deaf [OF connected_session_reachable] by blast
qed


section \<open>The header is read beyond its end\<close>

text \<open>
  A header without an address makes the server take an address from the memory behind it as the
  address of its client.
\<close>

lemma endpoint_reads_beyond:
  "server_endpoint (Some (''unknown'', CHR 0x0D # CHR 0x0A # ''Via: 10.0.0.7'' @ [CHR 0x00])) (Some ''192.168.1.9'')
     = Some (Some ''10.0.0.7'')"
  by code_simp

section \<open>Closing\<close>

text \<open>The notification that \<open>close\<close> sends is logged by the peer with the reason.\<close>

lemma close_reason_logged:
  assumes "ws_close tls failed cc cr c = Some (acts, c')" and "CHR 0x00 \<notin> set cr"
  shows "\<exists>frame m. Write_frame frame \<in> set acts \<and> fromFlatBuffer frame = Some m
    \<and> processMessage m w = Some (w\<lparr>notification_log := notification_log w @ [close_reason cr]\<rparr>)"
proof -
  let ?t = "close_reason cr"
  let ?m = "RclMessage (opcode NOTIFICATION) NONE (word_of_nat (length ?t + 2)) (map byte_of_char ?t @ [0, 0])"
  have "Write_frame (vec_getCombinedVector (forOpCodeNotification ?t)) \<in> set acts"
    using assms(1) by (auto simp: ws_close_def close_actions_def split: if_splits)
  moreover have "fromFlatBuffer (vec_getCombinedVector (forOpCodeNotification ?t)) = Some ?m"
    by (simp add: forOpCodeNotification_eq VectorMessage_def vec_getCombinedVector_def)
  moreover have "CHR 0x00 \<notin> set ?t" using assms(2) by (simp add: close_reason_def)
  then have "rcl_toString ?m = Some ?t"
    by (simp add: rcl_toString_def RclMessage_def cstring_terminated)
  ultimately show ?thesis
    by (intro exI [of _ "vec_getCombinedVector (forOpCodeNotification ?t)"] exI [of _ ?m])
      (simp add: processMessage_def isOpCode_def RclMessage_def)
qed

text \<open>
  A connection can be closed while a frame is being written: the write that the stopped I/O context
  never completes is still outstanding when \<open>close\<close> writes its notification.
\<close>

lemma close_while_writing:
  assumes "server_session cfg plugin s" and "io_running s" and "ws_open (ws_conn (ses s))"
    and "sendingQueue (ws_conn (ses s)) = []" and "writing (ws_conn (ses s)) = None"
  shows "\<exists>s'. server_session cfg plugin s' \<and> ws_close tls failed cc cr (ses s') = None"
proof -
  let ?c = "(ws_conn (ses s))\<lparr>sendingQueue := [v], accepted := accepted (ws_conn (ses s)) @ [v], writing := Some v\<rparr>"
  have "server_session cfg plugin (s\<lparr>ses := (ses s)\<lparr>ws_conn := ?c\<rparr>\<rparr>)"
    by (rule server_session.event [where e = "Conn_event (Send True v)", OF assms(1)])
      (use assms(2-5) in \<open>simp_all add: conn_enabled_def send_def queueMessage_def Connection.asyncWrite_def Let_def\<close>)
  moreover have "ws_close tls failed cc cr ((ses s)\<lparr>ws_conn := ?c\<rparr>) = None"
    using assms(3) by (simp add: ws_close_def)
  ultimately show ?thesis by fastforce
qed

end
