(* ===== verification/WorldSpec.thy ===== *)
theory WorldSpec
  imports World ProgramSpec SessionSpec
begin

text \<open>
  The properties of the server together with all its connections; \<open>World\<close> holds their lemmas.
\<close>

section \<open>An example\<close>

text \<open>A server that has accepted one client, whose session is given.\<close>

definition world_with :: "server_connection session \<Rightarrow> world" where
  "world_with s = \<lparr>w_node = busy_server, w_sessions = [0 \<mapsto> s]\<rparr>"

text \<open>It checks the keys of its clients, with a plugin that knows one key.\<close>

definition auth_config :: GlobalConfig where
  "auth_config = initial_config\<lparr>authenticationPlugin := ''connect::Backend''\<rparr>"

definition example_plugin :: auth_plugin where
  "example_plugin key a = (if key = ''key'' then \<lparr>auth_user = ''alice'', auth_end = None\<rparr> else a)"

abbreviation example_run :: "world_event list \<Rightarrow> world \<Rightarrow> bool" where
  "example_run \<equiv> world_run auth_config example_plugin"

definition waiting_session :: "server_connection session" where
  "waiting_session = (begin_server auth_config)\<lparr>
     ses := (open_stream (new_server_connection auth_config))\<lparr>authenticationCheckTimer := True\<rparr>,
     pending := [Ws_read], remoteEndpoint := ''10.0.0.2'', log_name := ''.websocket-connection.10.0.0.2''\<rparr>"

definition accepting :: "world_event list" where
  "accepting = [Node_event (Work_server listen_fine), Node_event (Work_server listen_fine),
     Node_event (Accept_done (Accepted True))]"

definition handshaking :: "world_event list" where
  "handshaking = [Session_event 0 (Http_done False), Session_event 0 (Accept_ws False None (Some ''10.0.0.2''))]"

lemma run_accepting: "example_run accepting (world_with (begin_server auth_config))"
proof -
  let ?n = "new_server_node\<lparr>isListening := True, acceptor_open := True\<rparr>"
  let ?w = "\<lambda>n. \<lparr>w_node = n, w_sessions = (\<lambda>k. None)\<rparr>"
  have "example_run [] (?w ?n)"
    by (rule world_run.starts [of listen_fine]) (simp add: server_example_simps)
  then have "example_run [Node_event (Work_server listen_fine)] (?w (?n\<lparr>s_pc := S_accept\<rparr>))"
    by (rule world_run.event [where es = "[]", simplified])
      (simp_all add: server_example_simps closing_defined_def conns_def sync_sessions_def fun_eq_iff)
  then have "example_run [Node_event (Work_server listen_fine), Node_event (Work_server listen_fine)]
      (?w (?n\<lparr>s_pc := S_run, accepts := 1\<rparr>))"
    by (rule world_run.event [where es = "[x]" for x, simplified])
      (simp_all add: server_example_simps closing_defined_def conns_def sync_sessions_def fun_eq_iff)
  then show ?thesis
    unfolding accepting_def
    by (rule world_run.event [where es = "[x, y]" for x y, simplified])
      (auto simp: server_example_simps closing_defined_def conns_def sync_sessions_def fun_eq_iff
        world_with_def Let_def)
qed

lemma post_no_stops: "post_stops k [] n = n"
  by (simp add: post_stops_def)

text \<open>A step of the session that reports nothing.\<close>

lemma run_session:
  assumes "example_run es (world_with s)" and "server_session_enabled e s"
    and "server_session_apply auth_config example_plugin e s = Some s'" and "reports s s' = []"
  shows "example_run (es @ [Session_event 0 e]) (world_with s')"
  using assms
  by (intro world_run.event [OF assms(1)]) (auto simp: world_with_def post_no_stops)

lemma run_handshaking: "example_run (accepting @ handshaking) (world_with waiting_session)"
proof -
  let ?s = "(begin_server auth_config)\<lparr>pending := [Ws_accept]\<rparr>"
  have "example_run (accepting @ [Session_event 0 (Http_done False)]) (world_with ?s)"
    by (rule run_session [OF run_accepting])
      (simp_all add: session_example_simps auth_config_def Let_def reports_def)
  then have "example_run ((accepting @ [Session_event 0 (Http_done False)])
      @ [Session_event 0 (Accept_ws False None (Some ''10.0.0.2''))]) (world_with waiting_session)"
    by (rule run_session)
      (simp_all add: waiting_session_def session_example_simps auth_config_def Let_def reports_def)
  then show ?thesis by (simp add: handshaking_def)
qed

text \<open>The client closes the connection.\<close>

definition gone_session :: "server_connection session" where
  "gone_session = waiting_session\<lparr>pending := [], ses := request_stop CC_normal [] (ses waiting_session)\<rparr>"

definition gone_world :: world where
  "gone_world = \<lparr>w_node = busy_server\<lparr>s_manager := one_client\<lparr>stop_posts := [(0, CC_normal, [])]\<rparr>\<rparr>,
     w_sessions = [0 \<mapsto> gone_session]\<rparr>"

lemma run_gone:
  "example_run ((accepting @ handshaking) @ [Session_event 0 (Read_done Peer_closed)]) gone_world"
proof (rule world_run.event [OF run_handshaking])
  show "world_enabled (Session_event 0 (Read_done Peer_closed)) (world_with waiting_session)"
    by (simp add: world_with_def waiting_session_def begin_server_def begin_session_def)
  have "reports waiting_session gone_session = [(CC_normal, [])]"
    by (simp add: reports_def gone_session_def waiting_session_def request_stop_def begin_server_def
        begin_session_def open_stream_def new_server_connection_def new_ws_connection_def ws_connection.extend_def)
  moreover have "read_completed (server_processMessage auth_config example_plugin) Peer_closed waiting_session
      = Some gone_session"
    by (simp add: read_completed_def read_handler_def completed_def gone_session_def waiting_session_def)
  ultimately show "world_apply auth_config example_plugin (Session_event 0 (Read_done Peer_closed))
      (world_with waiting_session) = Some gone_world"
    by (simp add: world_with_def gone_world_def post_stops_def stopConnection_def busy_server_def one_client_def)
qed

text \<open>Then another thread stops the server, up to \<open>stopAllConnections\<close>.\<close>

lemma run_stop:
  assumes "example_run es w" and "conns (server_stop (w_node w)) = conns (w_node w)"
  shows "example_run (es @ [Node_event Stop_server]) (w\<lparr>w_node := server_stop (w_node w)\<rparr>)"
proof (rule world_run.event [OF assms(1)])
  have "sync_sessions auth_config (w_node w) (server_stop (w_node w)) (w_sessions w) = w_sessions w"
    using assms(2) by (auto simp: sync_sessions_def fun_eq_iff)
  moreover have "closing_defined (w_node w) (server_stop (w_node w)) (w_sessions w)"
    using assms(2) by (simp add: closing_defined_def list_all_iff)
  ultimately show "world_apply auth_config example_plugin (Node_event Stop_server) w
      = Some (w\<lparr>w_node := server_stop (w_node w)\<rparr>)"
    by simp
qed simp

text \<open>The client of the example presents the key.\<close>

definition presenting :: world_event where
  "presenting = Session_event 0 (Read_done (Frame (authentication_frame ''key'')))"

lemma example_onAuthorized:
  "\<exists>v. onAuthorized auth_config ((ses waiting_session)\<lparr>authentication_info := i, granted := g\<rparr>) = Some v
     \<and> ws_conn v = ws_conn (ses waiting_session) \<and> ws_stops v = [] \<and> has_thread (pm_thread (publisherManager v))"
  by (simp add: onAuthorized_def waiting_session_def open_stream_def new_server_connection_def ws_connection.extend_def
      new_ws_connection_def auth_config_def initial_config_def pm_init_def pm_startThread_def pm_onBeforeStartThread_def
      new_publisher_manager_def new_thread_def startThread_def sm_init_def sm_startThread_def
      new_subscriber_manager_def sam_startThread_def sam_init_def new_sa_manager_def)

lemma presented_key:
  assumes "CHR 0x00 \<notin> set key"
  shows "read_handler (server_processMessage cfg plugin) (Frame (authentication_frame key)) c
    = validateUserKeyForAuthentication cfg plugin key c"
proof -
  have "rcl_toString (RclMessage oc NONE n (map byte_of_char key @ [0, 0])) = Some key" for oc n
    using assms by (simp add: rcl_toString_def RclMessage_def cstring_terminated)
  then show ?thesis
    by (simp add: read_handler_def authentication_frame_parsed server_processMessage_def isOpCode_def)
      (simp add: RclMessage_def)
qed

lemma example_authorized:
  "\<exists>s. server_session_apply auth_config example_plugin (Read_done (Frame (authentication_frame ''key''))) waiting_session = Some s
     \<and> reports waiting_session s = [] \<and> \<not> dormant (ses s)"
proof -
  let ?c = "ses waiting_session"
  let ?a = "\<lparr>auth_user = ''alice'', auth_end = None\<rparr>"
  obtain v where v: "onAuthorized auth_config (?c\<lparr>authentication_info := Some ?a, granted := [''key'']\<rparr>) = Some v"
    "ws_conn v = ws_conn ?c" "ws_stops v = []" "has_thread (pm_thread (publisherManager v))"
    using example_onAuthorized by blast
  have c: "authentication_info ?c = Some new_authentication" "granted ?c = []" "ws_stops ?c = []"
    "ws_conn ?c = new_conn\<lparr>ws_open := True\<rparr>"
    by (simp_all add: waiting_session_def open_stream_def new_server_connection_def ws_connection.extend_def
        new_ws_connection_def auth_config_def)
  have plug: "example_plugin ''key'' x = ?a" for x by (simp add: example_plugin_def)
  have omit: "\<not> authenticationOmit auth_config" by (simp add: auth_config_def initial_config_def)
  obtain d where d: "send True (authentication_frame []) (ws_conn v) = Some d" "stop_requests d = 0"
    using v(2) c(4) by (auto simp: send_def queueMessage_def Connection.asyncWrite_def new_conn_def)
  have val: "validateUserKeyForAuthentication auth_config example_plugin ''key'' ?c = Some (v\<lparr>ws_conn := d\<rparr>)"
    using v(1) c d omit by (simp add: validateUserKeyForAuthentication_def plug isValid_def ws_send_def)
  have "read_handler (server_processMessage auth_config example_plugin) (Frame (authentication_frame ''key'')) ?c
      = Some (v\<lparr>ws_conn := d\<rparr>)"
    using val by (simp add: presented_key)
  then have "server_session_apply auth_config example_plugin (Read_done (Frame (authentication_frame ''key''))) waiting_session
      = asyncRead ((completed Ws_read waiting_session)\<lparr>ses := v\<lparr>ws_conn := d\<rparr>\<rparr>)"
    by (simp add: read_completed_def completed_def)
  then show ?thesis using v(3,4) c(3,4) d(2)
    by (auto simp: asyncRead_def completed_def reports_def dormant_def new_conn_def waiting_session_def)
qed

text \<open>The steps of the stop before its fourth one, which closes the connections.\<close>

definition stopping_server :: "nat \<Rightarrow> server_node" where
  "stopping_server n = (server_stop ^^ n) busy_server"

lemma stopping_server_facts:
  "stop_pc (stopping_server 3) = 3" "conns (stopping_server (Suc 0)) = [0]" "conns (stopping_server 2) = [0]"
  "conns (stopping_server 3) = [0]" "conns busy_server = [0]"
  by (simp_all add: stopping_server_def server_stop_def busy_server_def new_server_node_def one_client_def
      numeral_eq_Suc stopListening_def close_acceptor_def conns_def Let_def)

lemma run_three_stops:
  "example_run ((((accepting @ handshaking) @ [Node_event Stop_server]) @ [Node_event Stop_server]) @ [Node_event Stop_server])
     ((world_with waiting_session)\<lparr>w_node := stopping_server 3\<rparr>)"
proof -
  have s: "stopping_server 0 = busy_server" "server_stop (stopping_server n) = stopping_server (Suc n)" for n
    by (simp_all add: stopping_server_def)
  have "example_run ((accepting @ handshaking) @ [Node_event Stop_server])
      ((world_with waiting_session)\<lparr>w_node := stopping_server 1\<rparr>)"
    using run_stop [OF run_handshaking] stopping_server_facts s(2) [of 0]
    by (simp add: world_with_def s(1))
  from run_stop [OF this] have "example_run (((accepting @ handshaking) @ [Node_event Stop_server]) @ [Node_event Stop_server])
      ((world_with waiting_session)\<lparr>w_node := stopping_server 2\<rparr>)"
    using stopping_server_facts s(2) [of 1] by (simp add: numeral_eq_Suc)
  from run_stop [OF this] show ?thesis
    using stopping_server_facts s(2) [of 2] by (simp add: numeral_eq_Suc)
qed

lemma waiting_closes: "\<exists>s. close_session waiting_session = Some s"
  by (simp add: close_session_def ws_close_def ws_onStopThread_def waiting_session_def open_stream_def
      new_server_connection_def ws_connection.extend_def new_ws_connection_def new_conn_def)

section \<open>The properties\<close>

text \<open>
  C25. No connection is forgotten. In every reachable state of the server with all its connections,
  every connection the manager holds has a session whose thread runs with exactly one operation
  outstanding, or whose stream was closed, or whose stop is posted to the server, which no longer
  holds the connection once the posted requests have run; and every other connection that was ever
  accepted is closed, its threads are stopped and its managers are empty.
\<close>

theorem world_no_zombies:
  assumes "world_run cfg plugin es w"
  shows "(\<forall>k \<in> set (conns (w_node w)). \<exists>s. w_sessions w k = Some s
      \<and> (io_running s \<and> (\<exists>io. pending s = [io]) \<or> io_running s \<and> \<not> ws_open (ws_conn (ses s))
         \<or> k \<in> posted_stops (w_node w)
           \<and> k \<notin> set (connections ((run_stop_post ^^ length (stop_posts (s_manager (w_node w)))) (s_manager (w_node w))))))
    \<and> (\<forall>k s. w_sessions w k = Some s \<and> k \<notin> set (conns (w_node w)) \<longrightarrow> session_closed s)"
proof (intro conjI ballI allI impI)
  have ok: "world_ok cfg plugin w" using world_ok_run [OF assms] .
  show "session_closed s" if "w_sessions w k = Some s \<and> k \<notin> set (conns (w_node w))" for k s
    using ok that by (auto simp: world_ok_def)
  fix k assume "k \<in> set (conns (w_node w))"
  then obtain s where s: "w_sessions w k = Some s" "server_session cfg plugin s"
    "requested s \<longrightarrow> k \<in> posted_stops (w_node w)"
    using ok by (auto simp: world_ok_def)
  have sok: "session_ok s" using server_session_ok [OF s(2)] .
  have "distinct (connections (s_manager (w_node w)))" using ok by (simp add: world_ok_def manager_inv_def)
  then have served: "k \<notin> set (connections ((run_stop_post ^^ length (stop_posts (s_manager (w_node w)))) (s_manager (w_node w))))"
    if "k \<in> posted_stops (w_node w)"
    using run_stop_posts that by (simp add: posted_stops_def)
  have "pending s = [] \<or> (\<exists>io. pending s = [io])"
    using sok by (cases "pending s") (auto simp: session_ok_def)
  then have "io_running s \<and> (\<exists>io. pending s = [io]) \<or> io_running s \<and> \<not> ws_open (ws_conn (ses s)) \<or> requested s"
    using sok by (auto simp: session_ok_def requested_def)
  then show "\<exists>s. w_sessions w k = Some s
      \<and> (io_running s \<and> (\<exists>io. pending s = [io]) \<or> io_running s \<and> \<not> ws_open (ws_conn (ses s))
         \<or> k \<in> posted_stops (w_node w)
           \<and> k \<notin> set (connections ((run_stop_post ^^ length (stop_posts (s_manager (w_node w)))) (s_manager (w_node w)))))"
    using s(1,3) served by blast
qed

lemma gone_world_facts:
  "0 \<in> set (conns (w_node gone_world))" "w_sessions gone_world 0 = Some gone_session"
  "pending gone_session = []" "ws_open (ws_conn (ses gone_session))"
  by (simp_all add: gone_world_def conns_def one_client_def gone_session_def waiting_session_def
      request_stop_def open_stream_def)

theorem world_no_zombies_witness:
  "0 \<in> posted_stops (w_node gone_world)
    \<and> 0 \<notin> set (connections ((run_stop_post ^^ length (stop_posts (s_manager (w_node gone_world)))) (s_manager (w_node gone_world))))"
  using world_no_zombies [OF run_gone] gone_world_facts by fastforce





end
