(* ===== verification/LinkSpec.thy ===== *)
theory LinkSpec
  imports Link WorldSpec
begin

text \<open>
  The property of the two ends of a connection; \<open>Link\<close> holds its lemmas.
\<close>

text \<open>
  C4. Authentication between the two programs. Whatever the two ends do and in whatever order their
  frames arrive, the first frame that a server reads from a \<open>connect_client\<close> presents the configured
  user key, so no data precedes the authentication; the server grants a key at most once, so it never
  starts the managers of the connection twice; and when they hold or run anything, the granted key is
  the configured one and the plugin can find it valid.
\<close>

theorem link_authentication:
  assumes "link_reachable ccfg scfg plugin l" and "\<not> authenticationOmit scfg" and "CHR 0x00 \<notin> set (userKey ccfg)"
  shows "(l_up l = [] \<or> hd (l_up l) = authentication_frame (userKey ccfg))
    \<and> length (granted (ses (l_server l))) \<le> 1
    \<and> (dormant (ses (l_server l))
       \<or> granted (ses (l_server l)) = [userKey ccfg] \<and> (\<exists>a. isValid (plugin (userKey ccfg) a)))"
proof -
  have ok: "link_ok ccfg l" using link_ok_reachable [OF assms(1,3)] .
  have "server_session scfg plugin (l_server l)" using link_sessions [OF assms(1)] by blast
  from gate_ok_session [OF this assms(2)]
  have g: "dormant (ses (l_server l)) \<or> granted (ses (l_server l)) \<noteq> []"
    "\<forall>key \<in> set (granted (ses (l_server l))). \<exists>a. isValid (plugin key a)"
    by (simp_all add: gate_ok_def)
  have "granted (ses (l_server l)) = [] \<or> granted (ses (l_server l)) = [userKey ccfg]"
    using ok by (auto simp: link_ok_def)
  then show ?thesis using g ok by (auto simp: link_ok_def)
qed

definition key_config :: GlobalConfig where
  "key_config = initial_config\<lparr>userKey := ''key''\<rparr>"

text \<open>Both ends have finished the handshake and the key was written to the stream.\<close>

lemma example_client:
  "\<exists>s. client_session_apply key_config (Handshake_done False) (begin_client key_config) = Some s
     \<and> on_stream (ws_conn (ses s)) = [authentication_frame ''key''] \<and> stop_requests (ws_conn (ses s)) = 0"
proof -
  let ?w = "open_stream new_ws_connection"
  let ?v = "?w\<lparr>ws_conn := (ws_conn ?w)\<lparr>sendingQueue := [authentication_frame ''key''],
      accepted := [authentication_frame ''key''], writing := Some (authentication_frame ''key'')\<rparr>\<rparr>"
  have "ws_send (authentication_frame ''key'') ?w = Some ?v"
    by (simp add: ws_send_def open_stream_def new_ws_connection_def new_conn_def conn_ops)
  moreover obtain c where "onAuthorized key_config ?v = Some c" "ws_conn c = ws_conn ?v"
    by (simp add: onAuthorized_def open_stream_def new_ws_connection_def key_config_def initial_config_def pm_init_def
        pm_startThread_def pm_onBeforeStartThread_def new_publisher_manager_def new_thread_def startThread_def
        sm_init_def sm_startThread_def new_subscriber_manager_def sam_startThread_def sam_init_def new_sa_manager_def)
  ultimately have "WsConnection.client_connected key_config ?w = Some c" by (simp add: WsConnection.client_connected_def key_config_def)
  then have "client_session_apply key_config (Handshake_done False) (begin_client key_config)
      = asyncRead ((completed Ws_handshake (begin_client key_config))\<lparr>ses := c\<rparr>)"
    by (simp add: handshake_completed_def begin_client_def begin_session_def completed_def Let_def)
  then show ?thesis
    using \<open>ws_conn c = ws_conn ?v\<close>
    by (auto simp: asyncRead_def begin_client_def begin_session_def completed_def on_stream_def open_stream_def
        new_ws_connection_def new_conn_def)
qed

lemma example_server_ready:
  "link_reachable ccfg auth_config plugin l \<Longrightarrow> l_server l = begin_server auth_config
     \<Longrightarrow> link_reachable ccfg auth_config plugin (l\<lparr>l_server := waiting_session\<rparr>)"
proof -
  let ?s = "(begin_server auth_config)\<lparr>pending := [Ws_accept]\<rparr>"
  assume l: "link_reachable ccfg auth_config plugin l" "l_server l = begin_server auth_config"
  have "link_reachable ccfg auth_config plugin (l\<lparr>l_server := ?s\<rparr>)"
    by (rule link_reachable.event [OF l(1), of "At_server (Http_done False)"])
      (simp add: l(2) session_example_simps Let_def)
  then have "link_reachable ccfg auth_config plugin (l\<lparr>l_server := ?s, l_server := waiting_session\<rparr>)"
    by (rule link_reachable.event [of _ _ _ _ "At_server (Accept_ws False None (Some ''10.0.0.2''))"])
      (simp add: waiting_session_def session_example_simps auth_config_def Let_def)
  then show ?thesis by simp
qed

theorem link_authentication_witness:
  "\<exists>l. link_reachable key_config auth_config example_plugin l \<and> \<not> dormant (ses (l_server l))
     \<and> hd (l_up l) = authentication_frame ''key'' \<and> granted (ses (l_server l)) = [''key'']"
proof -
  obtain c where c: "client_session_apply key_config (Handshake_done False) (begin_client key_config) = Some c"
    "on_stream (ws_conn (ses c)) = [authentication_frame ''key'']" "stop_requests (ws_conn (ses c)) = 0"
    using example_client by blast
  let ?l = "(link_begin key_config auth_config)\<lparr>l_client := c\<rparr>"
  have "link_reachable key_config auth_config example_plugin ?l"
    by (rule link_reachable.event [OF link_reachable.starts, of _ _ _ "At_client (Handshake_done False)"])
      (use c(1) in \<open>simp add: link_begin_def begin_client_def begin_session_def\<close>)
  then have w: "link_reachable key_config auth_config example_plugin (?l\<lparr>l_server := waiting_session\<rparr>)"
    by (rule example_server_ready) (simp add: link_begin_def)
  obtain s where s: "server_session_apply auth_config example_plugin (Read_done (Frame (authentication_frame ''key''))) waiting_session = Some s"
    "\<not> dormant (ses s)"
    using example_authorized by blast
  let ?l' = "?l\<lparr>l_server := s, l_up := [authentication_frame ''key'']\<rparr>"
  have small: "length (authentication_frame ''key'') \<le> unat (read_message_max (configure_stream auth_config))"
    by (simp add: authentication_frame_def forOpCodeAuthentication_eq VectorMessage_def vec_getCombinedVector_def
        configure_stream_def auth_config_def initial_config_def)
  have "server_session_enabled (Read_done (Frame (authentication_frame ''key''))) waiting_session"
    by (simp add: waiting_session_def begin_server_def begin_session_def)
  then have "link_apply key_config auth_config example_plugin Up (?l\<lparr>l_server := waiting_session\<rparr>) = Some ?l'"
    using c(2,3) s(1) small by (simp add: next_frame_def link_begin_def)
  from link_reachable.event [OF w this] have l: "link_reachable key_config auth_config example_plugin ?l'" .
  have "\<not> authenticationOmit auth_config" "CHR 0x00 \<notin> set (userKey key_config)" "userKey key_config = ''key''"
    by (simp_all add: auth_config_def initial_config_def key_config_def)
  then show ?thesis using link_authentication [OF l] s(2) l by auto
qed

end
