(* ===== verification/Forwarding.thy ===== *)
theory Forwarding
  imports Publisher Subscriber Endpoint ConfigCorrect
begin

text \<open>
  The ROS side of the topics: the subscriptions and publishers that \<open>SubscriberBase::init\<close> and
  \<open>PublisherBase\<close> create, the names under which their owners log, and the callbacks of the
  subscriptions, which run in other threads while the subscriber manager serves the requests of the
  peer and the threads of the threaded subscribers send.
\<close>

section \<open>Names of loggers\<close>

text \<open>\<open>std::to_string\<close>.\<close>

definition digit_char :: "nat \<Rightarrow> char" where
  "digit_char n = char_of (48 + n)"

fun decimal :: "nat \<Rightarrow> string" where
  "decimal n = (if n < 10 then [digit_char n] else decimal (n div 10) @ [digit_char (n mod 10)])"

declare decimal.simps [simp del]

definition log_name_at :: "string \<Rightarrow> string \<Rightarrow> string \<Rightarrow> string" where
  "log_name_at node name remoteEndpoint =
     (if remoteEndpoint \<noteq> [] then logger_of_endpoint node name remoteEndpoint else logger_named node name)"

definition subscriber_log_name :: "string \<Rightarrow> string \<Rightarrow> Topic_t \<Rightarrow> string" where
  "subscriber_log_name node remoteEndpoint t =
     log_name_at node (decimal (unat (tp_channel t))
       @ (if tp_useOwnThread t then ''-t-subscriber'' else ''-s-subscriber'')) remoteEndpoint"

definition publisher_log_name :: "string \<Rightarrow> string \<Rightarrow> Topic_t \<Rightarrow> string" where
  "publisher_log_name node remoteEndpoint t =
     log_name_at node (decimal (unat (tp_channel t))
       @ (if tp_useOwnThread t then ''-t-publisher'' else ''-s-publisher'')) remoteEndpoint"

definition clock_log_name :: "string \<Rightarrow> string \<Rightarrow> string" where
  "clock_log_name node remoteEndpoint =
     log_name_at node (decimal (unat (opcode CLOCK)) @ ''-t-subscriber'') remoteEndpoint"

text \<open>The \<open>init\<close> functions of the four bases of the plugins.\<close>

definition service_server_log_name :: "string \<Rightarrow> string \<Rightarrow> Service_Action_t \<Rightarrow> string" where
  "service_server_log_name node remoteEndpoint d =
     log_name_at node (decimal (unat (sa_def_channel d)) @ ''-service-server'') remoteEndpoint"

definition service_client_log_name :: "string \<Rightarrow> string \<Rightarrow> Service_Action_t \<Rightarrow> string" where
  "service_client_log_name node remoteEndpoint d =
     log_name_at node (decimal (unat (sa_def_channel d)) @ ''-service-client'') remoteEndpoint"

definition action_server_log_name :: "string \<Rightarrow> string \<Rightarrow> Service_Action_t \<Rightarrow> string" where
  "action_server_log_name node remoteEndpoint d =
     log_name_at node (decimal (unat (sa_def_channel d)) @ ''-action-server'') remoteEndpoint"

definition action_client_log_name :: "string \<Rightarrow> string \<Rightarrow> Service_Action_t \<Rightarrow> string" where
  "action_client_log_name node remoteEndpoint d =
     log_name_at node (decimal (unat (sa_def_channel d)) @ ''-action-client'') remoteEndpoint"

lemma digit_char_of: "n < 10 \<Longrightarrow> (of_char (digit_char n) :: nat) = 48 + n"
  by (simp add: digit_char_def)

lemma nat_of_digits_snoc: "nat_of_digits (ds @ [c]) = 10 * nat_of_digits ds + (of_char c - 48)"
  by (simp add: nat_of_digits_def)

text \<open>The text of a number is read back by the parser of numbers, so names tell channels apart.\<close>

lemma nat_of_decimal: "nat_of_digits (decimal n) = n"
proof (induction n rule: decimal.induct)
  case (1 n)
  show ?case
  proof (cases "n < 10")
    case True
    then show ?thesis by (subst decimal.simps) (simp add: nat_of_digits_def digit_char_of)
  next
    case False
    then have "nat_of_digits (decimal n) = 10 * nat_of_digits (decimal (n div 10)) + n mod 10"
      by (subst decimal.simps) (simp add: nat_of_digits_snoc digit_char_of)
    then show ?thesis using 1 False by simp
  qed
qed

lemma decimal_no_dash: "CHR ''-'' \<notin> set (decimal n)"
proof (induction n rule: decimal.induct)
  case (1 n)
  have "CHR ''-'' \<noteq> digit_char m" if "m < 10" for m
  proof
    assume "CHR ''-'' = digit_char m"
    then have "(of_char (digit_char m) :: nat) = of_char CHR ''-''" by (rule arg_cong [OF sym])
    then show False using digit_char_of [OF that] by simp
  qed
  then show ?case using 1 by (subst decimal.simps) auto
qed

lemma before_dash:
  assumes "xs @ CHR ''-'' # us = ys @ CHR ''-'' # vs" and "CHR ''-'' \<notin> set xs" and "CHR ''-'' \<notin> set ys"
  shows "xs = ys \<and> us = vs"
proof -
  have t: "takeWhile (\<lambda>c. c \<noteq> CHR ''-'') (zs @ CHR ''-'' # ws) = zs" if "CHR ''-'' \<notin> set zs" for zs ws
    using that by (subst takeWhile_append2) auto
  have "xs = ys" using t [OF assms(2), of us] t [OF assms(3), of vs] assms(1) by simp
  then show ?thesis using assms(1) by simp
qed

lemma subscriber_log_names_distinct:
  assumes "subscriber_log_name node [] t = subscriber_log_name node [] u"
  shows "tp_channel t = tp_channel u \<and> tp_useOwnThread t = tp_useOwnThread u"
proof -
  have "decimal (unat (tp_channel t)) @ CHR ''-'' # (if tp_useOwnThread t then ''t-subscriber'' else ''s-subscriber'')
      = decimal (unat (tp_channel u)) @ CHR ''-'' # (if tp_useOwnThread u then ''t-subscriber'' else ''s-subscriber'')"
    using assms by (auto simp: subscriber_log_name_def log_name_at_def logger_named_def split: if_splits)
  from before_dash [OF this decimal_no_dash decimal_no_dash]
  have d: "decimal (unat (tp_channel t)) = decimal (unat (tp_channel u))"
    and o: "(if tp_useOwnThread t then ''t-subscriber'' else ''s-subscriber'')
      = (if tp_useOwnThread u then ''t-subscriber'' else ''s-subscriber'')" by blast+
  have "unat (tp_channel t) = unat (tp_channel u)"
    using arg_cong [OF d, of nat_of_digits] by (simp only: nat_of_decimal)
  moreover have "tp_useOwnThread t = tp_useOwnThread u"
    using o by (cases "tp_useOwnThread t"; cases "tp_useOwnThread u") simp_all
  ultimately show ?thesis by (simp add: word_unat_eq_iff)
qed

section \<open>Subscriptions and publishers of ROS\<close>

text \<open>
  \<open>create_generic_subscription\<close> and \<open>create_generic_publisher\<close> get the topic, the type and the QoS;
  the default profile of rmw is a parameter. A threaded subscriber is served in the reentrant group of
  the manager, a shared one in the mutually exclusive group.
\<close>

datatype sub_group = Reentrant_group | Exclusive_group

record ros_subscription =
  rs_topic :: string
  rs_type :: string
  rs_qos :: rmw_qos_profile
  rs_group :: sub_group
  ignore_local_publications :: bool

definition qos_or_default :: "rmw_qos_profile \<Rightarrow> Topic_t \<Rightarrow> rmw_qos_profile" where
  "qos_or_default dq t = (case tp_qos t of None \<Rightarrow> dq | Some q \<Rightarrow> q)"

definition SubscriberBase_init :: "rmw_qos_profile \<Rightarrow> sub_group \<Rightarrow> Topic_t \<Rightarrow> ros_subscription" where
  "SubscriberBase_init dq g t =
     \<lparr>rs_topic = tp_topic t, rs_type = tp_type t, rs_qos = qos_or_default dq t, rs_group = g,
      ignore_local_publications = True\<rparr>"

definition subscription_of :: "rmw_qos_profile \<Rightarrow> Topic_t \<Rightarrow> ros_subscription" where
  "subscription_of dq t =
     SubscriberBase_init dq (if tp_useOwnThread t then Reentrant_group else Exclusive_group) t"

definition PublisherBase :: "rmw_qos_profile \<Rightarrow> Topic_t \<Rightarrow> string \<times> string \<times> rmw_qos_profile" where
  "PublisherBase dq t = (tp_topic t, tp_type t, qos_or_default dq t)"

text \<open>The ROS subscriptions a manager holds, by channel.\<close>

definition sm_subscriptions :: "rmw_qos_profile \<Rightarrow> subscriber_manager \<Rightarrow> byte \<Rightarrow> ros_subscription option" where
  "sm_subscriptions dq mgr ch = map_option (\<lambda>s. subscription_of dq (sub_topic s)) (map_of (subscribers mgr) ch)"

text \<open>After a successful initialization the fallback to the default profile is never taken.\<close>

lemma configured_qos:
  assumes "topics_ok cfg" and "t \<in> set (gc_subscriber cfg) \<union> set (gc_publisher cfg)"
  shows "tp_qos t = Some (qos_or_default dq t)"
proof -
  have "user_topic cfg t \<or> predefined_topic t" using assms by (auto simp: topics_ok_def list_all_iff)
  then show ?thesis
    by (auto simp: user_topic_def predefined_topic_def predefined_publisher_def qos_or_default_def)
qed

text \<open>
  What \<open>init\<close> logs: the kind of the subscriber and its compression, and a warning when a shared
  subscriber has one, which it ignores.
\<close>

datatype announcement = Threaded_created "Compressor option" | Shared_created | Compression_ignored

definition announce_subscriber :: "Topic_t \<Rightarrow> announcement list" where
  "announce_subscriber t =
     (let compressor = compressor_of_profile (tp_compression t); compression = (compressor \<noteq> NONE) in
      if tp_useOwnThread t
      then [Threaded_created (if compression then Some compressor else None)]
      else Shared_created # (if compression then [Compression_ignored] else []))"

text \<open>The check of the configuration makes the warning unnecessary.\<close>

lemma no_compression_ignored:
  assumes "topics_ok cfg" and "t \<in> set (gc_subscriber cfg)"
  shows "Compression_ignored \<notin> set (announce_subscriber t)"
proof -
  have "user_topic cfg t \<or> predefined_topic t" using assms by (auto simp: topics_ok_def list_all_iff)
  then show ?thesis
    by (auto simp: announce_subscriber_def user_topic_def predefined_topic_def predefined_publisher_def
        DEFAULT_COMPRESSION_PROFILE_def Let_def)
qed

section \<open>What is forwarded\<close>

text \<open>
  The callback of a subscription holds a weak pointer to its subscriber; \<open>s\<close> is the result of
  locking it, which is nothing when the subscriber was erased.
\<close>

definition subscription_callback ::
    "subscriber option \<Rightarrow> bytes \<Rightarrow> (subscriber \<times> bytes list) option" where
  "subscription_callback s msg =
     (case s of
        None \<Rightarrow> None
      | Some s \<Rightarrow> Some (if tp_useOwnThread (sub_topic s) then (threaded_callback msg s, [])
                        else (s, [shared_callback msg s])))"

text \<open>
  What can happen while the manager runs: it handles a request, the executor runs the callback of a
  subscriber or of one that was erased meanwhile, the thread of a threaded subscriber sends.
\<close>

datatype forward_event = Handle_request "byte \<times> bool" | Callback byte bytes | Late_callback bytes | Send_next byte

fun forward_step ::
    "GlobalConfig \<Rightarrow> codecs \<Rightarrow> forward_event \<Rightarrow> subscriber_manager \<Rightarrow> (subscriber_manager \<times> bytes list) option" where
  "forward_step cfg c (Handle_request r) mgr = map_option (\<lambda>m. (m, [])) (sm_handle cfg (request r) mgr)"
| "forward_step cfg c (Callback ch msg) mgr =
     Some (case subscription_callback (map_of (subscribers mgr) ch) msg of
        None \<Rightarrow> (mgr, [])
      | Some (s, frames) \<Rightarrow> (mgr\<lparr>subscribers := map_put ch s (subscribers mgr)\<rparr>, frames))"
| "forward_step cfg c (Late_callback msg) mgr =
     Some (case subscription_callback None msg of None \<Rightarrow> (mgr, []) | Some (_, frames) \<Rightarrow> (mgr, frames))"
| "forward_step cfg c (Send_next ch) mgr =
     (case map_of (subscribers mgr) ch of
        None \<Rightarrow> Some (mgr, [])
      | Some s \<Rightarrow>
          map_option (\<lambda>(s, frame). (mgr\<lparr>subscribers := map_put ch s (subscribers mgr)\<rparr>, opt_list frame))
            (threaded_send c s))"

text \<open>A run, with the requests handled so far and the frames sent, each with the requests before it.\<close>

definition requested_by :: "forward_event \<Rightarrow> (byte \<times> bool) list" where
  "requested_by e = (case e of Handle_request r \<Rightarrow> [r] | _ \<Rightarrow> [])"

inductive forward_run ::
    "GlobalConfig \<Rightarrow> codecs \<Rightarrow> forward_event list \<Rightarrow> subscriber_manager \<Rightarrow> (byte \<times> bool) list
     \<Rightarrow> ((byte \<times> bool) list \<times> bytes) list \<Rightarrow> bool" for cfg c where
  starts: "sm_startThread cfg (sm_init cfg new_subscriber_manager) = Some mgr
    \<Longrightarrow> forward_run cfg c [] mgr [] []"
| event: "forward_run cfg c es mgr rs log \<Longrightarrow> forward_step cfg c e mgr = Some (mgr', frames)
    \<Longrightarrow> forward_run cfg c (es @ [e]) mgr' (rs @ requested_by e) (log @ map (Pair rs) frames)"

text \<open>The frame of a message on a topic.\<close>

definition topic_wire :: "codecs \<Rightarrow> Topic_t \<Rightarrow> bytes \<Rightarrow> bytes option" where
  "topic_wire c t msg =
     (if tp_useOwnThread t \<and> compressor_of_profile (tp_compression t) \<noteq> NONE
      then getCompressedCombinedVector vector_ops (base_compress_ops vector_ops) c
             (fromSerializedMessage (tp_channel t) msg) (tp_compression t)
      else Some (vec_getCombinedVector (fromSerializedMessage (tp_channel t) msg)))"

definition delivered_on :: "forward_event list \<Rightarrow> byte \<Rightarrow> bytes set" where
  "delivered_on es ch = {msg. Callback ch msg \<in> set es}"

text \<open>The subscribers are those of configured topics and queue what their callbacks delivered.\<close>

definition forward_inv :: "GlobalConfig \<Rightarrow> forward_event list \<Rightarrow> subscriber_manager \<Rightarrow> bool" where
  "forward_inv cfg es mgr \<longleftrightarrow>
     (\<forall>ch s. map_of (subscribers mgr) ch = Some s \<longrightarrow>
        find (\<lambda>t. tp_channel t = ch) (gc_subscriber cfg) = Some (sub_topic s)
        \<and> compression_flag s = (compressor_of_profile (tp_compression (sub_topic s)) \<noteq> NONE)
        \<and> set (toSend s) \<subseteq> fromSerializedMessage ch ` delivered_on es ch
        \<and> (toSend s \<noteq> [] \<longrightarrow> tp_useOwnThread (sub_topic s)))"

lemma start_subscriber_thread: "start_subscriber s = Some s' \<Longrightarrow> \<exists>t. s' = s\<lparr>sub_thread := t\<rparr>"
  by (cases s) (auto simp: start_subscriber_def split: if_splits)

lemma sm_handle_subscribers:
  assumes "sm_handle cfg (request (ch, b)) mgr = Some mgr'" and "map_of (subscribers mgr') k = Some s"
  shows "map_of (subscribers mgr) k = Some s
    \<or> (\<exists>t. find (\<lambda>t. tp_channel t = k) (gc_subscriber cfg) = Some t \<and> sub_topic s = t \<and> toSend s = []
         \<and> compression_flag s = (compressor_of_profile (tp_compression t) \<noteq> NONE))"
proof (cases "ch = opcode CLOCK")
  case True
  then show ?thesis using assms by (auto simp: sm_handle_def split: if_splits)
next
  case False
  show ?thesis
  proof (cases "find (\<lambda>sub. tp_channel sub = ch) (gc_subscriber cfg)")
    case None
    then show ?thesis using assms False by (simp add: sm_handle_def)
  next
    case (Some t)
    then have t: "tp_channel t = ch" by (auto simp: find_Some_iff)
    show ?thesis
      using assms False Some t
      by (auto simp: sm_handle_def sm_subscribe_topic_def sm_unsubscribe_def SubscriberBase_def Let_def
          dest!: start_subscriber_thread split: if_splits option.splits)
  qed
qed

lemma forward_inv_start:
  assumes "distinct (map tp_channel (gc_subscriber cfg))"
    and "sm_startThread cfg (sm_init cfg new_subscriber_manager) = Some mgr"
  shows "forward_inv cfg [] mgr \<and> (\<forall>ch. subscribed mgr ch = wanted_subscription cfg [] ch)"
proof -
  let ?mgr = "sm_init cfg new_subscriber_manager"
  have init: "subscribers (foldl (\<lambda>mgr topic. sm_subscribe_topic topic False mgr) m ts)
      = insert_all tp_channel SubscriberBase ts (subscribers m)" for m ts
    unfolding insert_all_def
    by (induction ts arbitrary: m) (auto simp: sm_subscribe_topic_def)
  have "distinct (map tp_channel (filter tp_permanent (gc_subscriber cfg)))"
    using assms(1) by (rule distinct_map_filter)
  then have find: "find (\<lambda>t. tp_channel t = ch) (gc_subscriber cfg) = Some t"
    if "find (\<lambda>t. tp_channel t = ch) (filter tp_permanent (gc_subscriber cfg)) = Some t" for ch t
  proof -
    have "t \<in> set (gc_subscriber cfg)" "tp_channel t = ch"
      using that by (auto simp: find_Some_iff dest: nth_mem)
    then show ?thesis using find_distinct [OF assms(1)] by auto
  qed
  have s0: "find (\<lambda>t. tp_channel t = ch) (gc_subscriber cfg) = Some (sub_topic s) \<and> s = SubscriberBase (sub_topic s)"
    if "map_of (subscribers ?mgr) ch = Some s" for ch s
    using that find
    by (auto simp: sm_init_def init map_of_insert_all new_subscriber_manager_def SubscriberBase_def split: option.splits)
  obtain ss where ss: "start_subscribers (subscribers ?mgr) = Some ss" "subscribers mgr = ss"
    using assms(2) by (auto simp: sm_startThread_def bind_eq_Some_conv split: if_splits prod.splits)
  have started: "map_of ys ch = None \<and> map_of xs ch = None
      \<or> (\<exists>s t. map_of xs ch = Some s \<and> map_of ys ch = Some (s\<lparr>sub_thread := t\<rparr>))"
    if "start_subscribers xs = Some ys" for xs ys and ch
    using that
  proof (induction xs arbitrary: ys)
    case (Cons x xs)
    obtain k s where x: "x = (k, s)" by fastforce
    obtain s' xs' where s': "start_subscriber s = Some s'" "start_subscribers xs = Some xs'" "ys = (k, s') # xs'"
      using Cons.prems by (auto simp: x bind_eq_Some_conv)
    have "\<exists>t. s' = s\<lparr>sub_thread := t\<rparr>" using start_subscriber_thread [OF s'(1)] .
    then show ?case using Cons.IH [OF s'(2)] s'(3) by (auto simp: x)
  qed simp
  have "subscribed mgr ch = subscribed ?mgr ch" for ch
    using started [OF ss(1), of ch] ss(2) by (auto simp: subscribed_def)
  then have "\<forall>ch. subscribed mgr ch = wanted_subscription cfg [] ch"
    using sm_init_subscribed [OF assms(1)] by simp
  moreover have "forward_inv cfg [] mgr"
    unfolding forward_inv_def
  proof (intro allI impI)
    fix ch s assume "map_of (subscribers mgr) ch = Some s"
    then obtain x t where x: "map_of (subscribers ?mgr) ch = Some x" "s = x\<lparr>sub_thread := t\<rparr>"
      using started [OF ss(1), of ch] ss(2) by auto
    have "toSend x = [] \<and> compression_flag x = (compressor_of_profile (tp_compression (sub_topic x)) \<noteq> NONE)"
      using s0 [OF x(1)] by (metis SubscriberBase_def subscriber.select_convs(2,3))
    then show "find (\<lambda>t. tp_channel t = ch) (gc_subscriber cfg) = Some (sub_topic s)
        \<and> compression_flag s = (compressor_of_profile (tp_compression (sub_topic s)) \<noteq> NONE)
        \<and> set (toSend s) \<subseteq> fromSerializedMessage ch ` delivered_on [] ch
        \<and> (toSend s \<noteq> [] \<longrightarrow> tp_useOwnThread (sub_topic s))"
      using s0 [OF x(1)] x(2) by simp
  qed
  ultimately show ?thesis by blast
qed

lemma forward_inv_step:
  assumes "forward_inv cfg es mgr" and "forward_step cfg c e mgr = Some (mgr', frames)"
  shows "forward_inv cfg (es @ [e]) mgr'"
proof -
  have more: "delivered_on es ch \<subseteq> delivered_on (es @ [e]) ch" for ch
    by (auto simp: delivered_on_def)
  show ?thesis
    unfolding forward_inv_def
  proof (intro allI impI)
    fix k s assume s: "map_of (subscribers mgr') k = Some s"
    let ?P = "\<lambda>s. find (\<lambda>t. tp_channel t = k) (gc_subscriber cfg) = Some (sub_topic s)
        \<and> compression_flag s = (compressor_of_profile (tp_compression (sub_topic s)) \<noteq> NONE)
        \<and> set (toSend s) \<subseteq> fromSerializedMessage k ` delivered_on (es @ [e]) k
        \<and> (toSend s \<noteq> [] \<longrightarrow> tp_useOwnThread (sub_topic s))"
    have old: "map_of (subscribers mgr) k = Some x \<Longrightarrow> ?P x" for x
      using assms(1) more [of k] unfolding forward_inv_def by blast
    show "?P s"
    proof (cases e)
      case (Handle_request r)
      obtain ch b where r: "r = (ch, b)" by fastforce
      have "sm_handle cfg (request (ch, b)) mgr = Some mgr'" using assms(2) Handle_request r by auto
      from sm_handle_subscribers [OF this s] old show ?thesis by auto
    next
      case (Callback ch msg)
      show ?thesis
      proof (cases "k = ch \<and> (\<exists>x. map_of (subscribers mgr) ch = Some x \<and> tp_useOwnThread (sub_topic x))")
        case True
        then obtain x where x: "map_of (subscribers mgr) k = Some x" "tp_useOwnThread (sub_topic x)" "k = ch" by blast
        then have f: "find (\<lambda>t. tp_channel t = k) (gc_subscriber cfg) = Some (sub_topic x)" using old by blast
        then have "tp_channel (sub_topic x) = k" by (auto simp: find_Some_iff)
        moreover have "s = threaded_callback msg x"
          using assms(2) Callback s x by (auto simp: subscription_callback_def)
        moreover have "msg \<in> delivered_on (es @ [e]) k" using Callback x(3) by (simp add: delivered_on_def)
        ultimately show ?thesis using old [OF x(1)] x(2) by (simp add: threaded_callback_def)
      next
        case False
        then have "map_of (subscribers mgr) k = Some s"
          using assms(2) Callback s by (auto simp: subscription_callback_def split: option.splits if_splits)
        then show ?thesis by (rule old)
      qed
    next
      case (Late_callback msg)
      then have "map_of (subscribers mgr) k = Some s" using assms(2) s by (simp add: subscription_callback_def)
      then show ?thesis by (rule old)
    next
      case (Send_next ch)
      show ?thesis
      proof (cases "k = ch \<and> map_of (subscribers mgr) ch \<noteq> None")
        case True
        then obtain x where x: "map_of (subscribers mgr) k = Some x" "k = ch" by blast
        then obtain f where f: "threaded_send c x = Some (s, f)"
          using assms(2) Send_next s by auto
        have "s = x \<or> (\<exists>m. toSend x = m # toSend s \<and> s = x\<lparr>toSend := toSend s\<rparr>)"
          using f by (auto simp: threaded_send_def bind_eq_Some_conv split: list.splits)
        then show ?thesis
        proof
          assume "\<exists>m. toSend x = m # toSend s \<and> s = x\<lparr>toSend := toSend s\<rparr>"
          then obtain m where m: "toSend x = m # toSend s" "s = x\<lparr>toSend := toSend s\<rparr>" by blast
          have "sub_topic s = sub_topic x" "compression_flag s = compression_flag x"
            by (subst m(2), simp)+
          then show ?thesis using old [OF x(1)] m(1) by auto
        qed (use old x(1) in simp)
      next
        case False
        then have "map_of (subscribers mgr) k = Some s"
          using assms(2) Send_next s by (auto split: option.splits if_splits)
        then show ?thesis by (rule old)
      qed
    qed
  qed
qed

lemma forward_step_frames:
  assumes "forward_inv cfg es mgr" and "forward_step cfg c e mgr = Some (mgr', frames)" and "frame \<in> set frames"
  shows "\<exists>t msg. t \<in> set (gc_subscriber cfg) \<and> subscribed mgr (tp_channel t)
    \<and> msg \<in> delivered_on (es @ [e]) (tp_channel t) \<and> topic_wire c t msg = Some frame"
proof -
  have found: "sub_topic s \<in> set (gc_subscriber cfg) \<and> tp_channel (sub_topic s) = ch \<and> subscribed mgr ch"
    if "map_of (subscribers mgr) ch = Some s" for ch s
  proof -
    have "find (\<lambda>t. tp_channel t = ch) (gc_subscriber cfg) = Some (sub_topic s)"
      using assms(1) that by (auto simp: forward_inv_def)
    then show ?thesis using that by (auto simp: find_Some_iff subscribed_def)
  qed
  show ?thesis
  proof (cases e)
    case (Callback ch msg)
    then obtain s where s: "map_of (subscribers mgr) ch = Some s" "\<not> tp_useOwnThread (sub_topic s)"
      "frame = shared_callback msg s"
      using assms(2,3) by (auto simp: subscription_callback_def split: option.splits if_splits)
    then have "topic_wire c (sub_topic s) msg = Some frame"
      by (simp add: topic_wire_def shared_callback_def)
    moreover have "msg \<in> delivered_on (es @ [e]) ch" using Callback by (simp add: delivered_on_def)
    ultimately show ?thesis using found [OF s(1)] by blast
  next
    case (Send_next ch)
    then obtain s s' where s: "map_of (subscribers mgr) ch = Some s" "threaded_send c s = Some (s', Some frame)"
      using assms(2,3) by (auto simp: opt_list_def split: option.splits)
    then obtain m ms where m: "toSend s = m # ms"
      and f: "(if compression_flag s
        then getCompressedCombinedVector vector_ops (base_compress_ops vector_ops) c m (tp_compression (sub_topic s))
        else Some (vec_getCombinedVector m)) = Some frame"
      by (auto simp: threaded_send_def bind_eq_Some_conv split: list.splits)
    have i: "compression_flag s = (compressor_of_profile (tp_compression (sub_topic s)) \<noteq> NONE)"
      "set (toSend s) \<subseteq> fromSerializedMessage ch ` delivered_on es ch" "tp_useOwnThread (sub_topic s)"
      using assms(1) [unfolded forward_inv_def, THEN spec, THEN spec, THEN mp, OF s(1)] m by simp_all
    then obtain msg where msg: "m = fromSerializedMessage ch msg" "msg \<in> delivered_on es ch" using m by auto
    then have "topic_wire c (sub_topic s) msg = Some frame"
      using f i(1,3) found [OF s(1)] by (auto simp: topic_wire_def split: if_splits)
    moreover have "msg \<in> delivered_on (es @ [e]) ch" using msg(2) by (simp add: delivered_on_def)
    ultimately show ?thesis using found [OF s(1)] by blast
  qed (use assms in \<open>auto simp: subscription_callback_def\<close>)
qed

lemma forward_step_subscribed:
  assumes "forward_step cfg c e mgr = Some (mgr', frames)" and "\<forall>ch. subscribed mgr ch = wanted_subscription cfg rs ch"
    and "opcode CLOCK \<notin> fst ` set (requested_by e)"
  shows "\<forall>ch. subscribed mgr' ch = wanted_subscription cfg (rs @ requested_by e) ch"
proof (cases e)
  case (Handle_request r)
  obtain ch b where r: "r = (ch, b)" by fastforce
  then have "ch \<noteq> opcode CLOCK" using assms(3) Handle_request by (auto simp: requested_by_def)
  from sm_handle_request [OF this, of cfg b mgr] obtain m where "sm_handle cfg (request (ch, b)) mgr = Some m"
    and "\<forall>k. subscribed m k \<longleftrightarrow> (if k = ch then (case find (\<lambda>t. tp_channel t = ch) (gc_subscriber cfg) of
           None \<Rightarrow> subscribed mgr ch | Some t \<Rightarrow> if b then True else subscribed mgr ch \<and> tp_permanent t)
       else subscribed mgr k)" by blast
  then show ?thesis
    using assms(1,2) Handle_request r
    by (auto simp: wanted_subscription_def requested_by_def split: option.splits)
qed (use assms in \<open>auto simp: subscribed_def requested_by_def subscription_callback_def
      split: option.splits if_splits\<close>)

lemma forward_run_inv:
  assumes "distinct (map tp_channel (gc_subscriber cfg))" and "forward_run cfg c es mgr rs log"
    and "opcode CLOCK \<notin> fst ` set rs"
  shows "forward_inv cfg es mgr \<and> (\<forall>ch. subscribed mgr ch = wanted_subscription cfg rs ch)"
  using assms(2,3)
proof (induction rule: forward_run.induct)
  case (starts mgr)
  show ?case by (rule forward_inv_start [OF assms(1) starts.hyps])
next
  case (event es mgr rs log e mgr' frames)
  then have "opcode CLOCK \<notin> fst ` set (requested_by e)" and "forward_inv cfg es mgr"
    and "\<forall>ch. subscribed mgr ch = wanted_subscription cfg rs ch" by auto
  then show ?case
    using forward_inv_step [OF _ event.hyps(2)] forward_step_subscribed [OF event.hyps(2)] by blast
qed

section \<open>The property\<close>


definition lone_topic :: Topic_t where
  "lone_topic = \<lparr>tp_channel = 3, tp_topic = ''/chatter'', tp_type = ''std_msgs/msg/String'', tp_useOwnThread = False,
     tp_permanent = False, tp_qos = Some CLOCK_AND_TF_QOS, tp_compression = DEFAULT_COMPRESSION_PROFILE\<rparr>"

definition lone_config :: GlobalConfig where
  "lone_config = initial_config\<lparr>gc_subscriber := [lone_topic]\<rparr>"

lemma lone_run:
  "\<exists>mgr frame. forward_run lone_config stored_codecs [Handle_request (3, True), Callback 3 [1, 2]] mgr [(3, True)] [([(3, True)], frame)]"
proof -
  obtain m0 where m0: "sm_startThread lone_config (sm_init lone_config new_subscriber_manager) = Some m0"
    "subscribers m0 = []"
    by (simp add: lone_config_def initial_config_def sm_init_def lone_topic_def new_subscriber_manager_def
        sm_startThread_def startThread_def new_thread_def)
  obtain m1 s where m1: "sm_handle lone_config (request (3, True)) m0 = Some m1" "map_of (subscribers m1) 3 = Some s"
    "\<not> tp_useOwnThread (sub_topic s)"
    using m0(2)
    by (simp add: sm_handle_def lone_config_def lone_topic_def sm_subscribe_topic_def start_subscriber_def SubscriberBase_def)
  have "forward_run lone_config stored_codecs [] m0 [] []" by (rule forward_run.starts [OF m0(1)])
  from forward_run.event [OF this, of "Handle_request (3, True)" m1 "[]"] m1(1)
  have "forward_run lone_config stored_codecs [Handle_request (3, True)] m1 [(3, True)] []" by (simp add: requested_by_def)
  from forward_run.event [OF this, of "Callback 3 [1, 2]" "m1\<lparr>subscribers := map_put 3 s (subscribers m1)\<rparr>"
      "[shared_callback [1, 2] s]"] m1(2,3)
  show ?thesis by (fastforce simp: requested_by_def subscription_callback_def)
qed


end
