(* ===== verification/ClockThread.thy ===== *)
theory ClockThread
  imports Subscriber
begin

text \<open>
  The thread of the clock subscriber (\<^verbatim>\<open>src/subscriber/clockSubscriber.cpp\<close>): it runs an I/O context
  whose only work are the handlers of the timer, while the subscriber manager starts and stops the
  timer and another thread stops and joins the thread. \<open>Subscriber\<close> holds the operations on the timer.
\<close>

section \<open>The loop\<close>

text \<open>
  Where the thread is: before the test of the loop, inside \<open>ioc.run()\<close> and there between handlers,
  sending, before the test of \<open>timerRunning\<close> and before re-arming; after \<open>ioc.run()\<close>, before restarting
  the I/O context, or behind the loop.
\<close>

datatype clock_pc = K_test | K_run | K_sending | K_handled | K_rearm | K_after | K_restart | K_left

record clock_node =
  k_clock :: clock_subscriber
  k_pc :: clock_pc
  k_ioc_stopped :: bool
  k_stop_pc :: nat

definition k_stopping :: "clock_node \<Rightarrow> bool" where
  "k_stopping n = stopping (clock_thread (k_clock n))"

text \<open>
  A step of the thread; \<open>threw\<close> tells whether sending threw, which leaves \<open>ioc.run()\<close> with the handler
  gone. Between handlers the thread waits, unless one is ready or the I/O context was stopped.
\<close>

definition clock_work :: "bool \<Rightarrow> clock_node \<Rightarrow> clock_node" where
  "clock_work threw n =
     (case k_pc n of
        K_test \<Rightarrow> n\<lparr>k_pc := if k_stopping n then K_left else K_run\<rparr>
      | K_run \<Rightarrow>
          (if k_ioc_stopped n then n\<lparr>k_pc := K_after\<rparr>
           else if ready (k_clock n) = 0 then n
           else n\<lparr>k_pc := K_sending, k_clock := (k_clock n)\<lparr>ready := ready (k_clock n) - 1\<rparr>\<rparr>)
      | K_sending \<Rightarrow>
          (if threw then n\<lparr>k_pc := K_after\<rparr>
           else n\<lparr>k_pc := K_handled, k_clock := (k_clock n)\<lparr>clock_sent := clock_sent (k_clock n) + 1\<rparr>\<rparr>)
      | K_handled \<Rightarrow> n\<lparr>k_pc := if timerRunning (k_clock n) then K_rearm else K_run\<rparr>
      | K_rearm \<Rightarrow> n\<lparr>k_pc := K_run, k_clock := restartTimer (k_clock n)\<rparr>
      | K_after \<Rightarrow> n\<lparr>k_pc := if k_stopping n then K_test else K_restart\<rparr>
      | K_restart \<Rightarrow> n\<lparr>k_pc := K_test, k_ioc_stopped := False\<rparr>
      | K_left \<Rightarrow> n)"

text \<open>\<open>stopThread\<close> sets the flag, then \<open>onStopThread\<close> stops the timer and then the I/O context.\<close>

definition clock_stopThread :: "clock_node \<Rightarrow> clock_node" where
  "clock_stopThread n =
     (let n' = n\<lparr>k_stop_pc := k_stop_pc n + 1\<rparr> in
      if k_stop_pc n = 0
      then n'\<lparr>k_clock := (k_clock n)\<lparr>clock_thread := stopThread (clock_thread (k_clock n))\<rparr>\<rparr>
      else if k_stop_pc n = 1 then n'\<lparr>k_clock := clock_stop (k_clock n)\<rparr>
      else if k_stop_pc n = 2 then n'\<lparr>k_ioc_stopped := True\<rparr>
      else n)"

text \<open>
  What can happen: a step of the thread, the expiry of the timer, a request of the peer to start or
  stop, and a step of \<open>stopThread\<close>.
\<close>

datatype clock_node_event = Clock_work bool | Clock_expires | Clock_request bool | Clock_stop_step

fun clock_apply :: "clock_node_event \<Rightarrow> clock_node \<Rightarrow> clock_node" where
  "clock_apply (Clock_work threw) n = clock_work threw n"
| "clock_apply Clock_expires n = n\<lparr>k_clock := timer_expires (k_clock n)\<rparr>"
| "clock_apply (Clock_request b) n =
     n\<lparr>k_clock := (if b then clock_start (k_clock n) else clock_stop (k_clock n))\<rparr>"
| "clock_apply Clock_stop_step n = clock_stopThread n"

text \<open>The thread after \<open>startThread\<close>; the I/O context may still be stopped from an earlier run.\<close>

definition clock_begin :: "bool \<Rightarrow> clock_node" where
  "clock_begin b = \<lparr>k_clock = new_clock_subscriber\<lparr>clock_thread := \<lparr>stopping = False, has_thread = True\<rparr>\<rparr>,
     k_pc = K_test, k_ioc_stopped = b, k_stop_pc = 0\<rparr>"

definition clock_run :: "clock_node_event list \<Rightarrow> clock_node \<Rightarrow> clock_node" where
  "clock_run es n = foldl (\<lambda>n e. clock_apply e n) n es"

definition clock_alone :: "bool list \<Rightarrow> clock_node \<Rightarrow> clock_node" where
  "clock_alone ts n = clock_run (map Clock_work ts) n"

lemma clock_run_simps [simp]:
  "clock_run [] n = n"
  "clock_run (e # es) n = clock_run es (clock_apply e n)"
  "clock_run (es @ es') n = clock_run es' (clock_run es n)"
  by (simp_all add: clock_run_def)

lemma clock_alone_simps [simp]:
  "clock_alone [] n = n"
  "clock_alone (t # ts) n = clock_alone ts (clock_work t n)"
  by (simp_all add: clock_alone_def)

text \<open>The handler of \<open>Subscriber\<close> is what the thread does when nothing else happens.\<close>

lemma clock_work_handler:
  assumes "k_pc n = K_run" and "\<not> k_ioc_stopped n" and "timer_handler (k_clock n) = Some k"
  shows "clock_alone (if timerRunning k then [False, False, False, False] else [False, False, False]) n
    = n\<lparr>k_clock := k\<rparr>"
proof (cases n)
  case (fields q pc st sp)
  then have q: "pc = K_run" "\<not> st" "timer_handler q = Some k" using assms by simp_all
  let ?q = "q\<lparr>ready := ready q - 1, clock_sent := clock_sent q + 1\<rparr>"
  have r: "ready q \<noteq> 0" "k = (if timerRunning q then restartTimer ?q else ?q)" "timerRunning k = timerRunning q"
    using q(3) by (auto simp: timer_handler_def Let_def restartTimer_def cancel_waits_def split: if_splits)
  show ?thesis
    using r q(1,2) by (cases "timerRunning q") (simp_all add: fields clock_work_def)
qed

section \<open>At most one wait\<close>

text \<open>The waits that are there: armed, posted, or about to be armed again by the running handler.\<close>

definition live :: "clock_node \<Rightarrow> nat" where
  "live n = ready (k_clock n) + waiting (k_clock n)
     + (if k_pc n \<in> {K_sending, K_handled, K_rearm} then 1 else 0)"

text \<open>The messages that follow without another start once the timer was stopped.\<close>

definition to_send :: "clock_node \<Rightarrow> nat" where
  "to_send n = ready (k_clock n) + waiting (k_clock n) + (if k_pc n \<in> {K_sending, K_rearm} then 1 else 0)"

definition handed_out :: "clock_node \<Rightarrow> nat" where
  "handed_out n = clock_sent (k_clock n) + ready (k_clock n) + (if k_pc n = K_sending then 1 else 0)"

lemmas clock_defs = clock_work_def clock_stopThread_def clock_start_def clock_stop_def restartTimer_def
  cancel_waits_def timer_expires_def k_stopping_def Let_def

lemma to_send_live: "to_send n \<le> live n"
  by (simp add: to_send_def live_def)

lemma live_step: "live (clock_apply e n) \<le> live n + (if e = Clock_request True then 1 else 0)"
proof (cases e)
  case (Clock_work t)
  then show ?thesis by (cases "k_pc n") (auto simp: live_def clock_defs)
qed (auto simp: live_def clock_defs)

lemma live_run: "live (clock_run es n) \<le> live n + count_list es (Clock_request True)"
proof (induction es arbitrary: n)
  case (Cons e es)
  show ?case using Cons.IH [of "clock_apply e n"] live_step [of e n] by (auto split: if_splits)
qed simp

lemma live_begin [simp]: "live (clock_begin b) = 0" "handed_out (clock_begin b) = 0"
  by (simp_all add: live_def handed_out_def clock_begin_def new_clock_subscriber_def)

definition cancelled_by_stop :: "clock_node \<Rightarrow> nat" where
  "cancelled_by_stop n = (if k_stop_pc n \<ge> 2 then 1 else 0)"

lemma handed_out_step:
  assumes "live (clock_apply e n) \<le> 1"
  shows "handed_out (clock_apply e n) + cancelled_by_stop n
    \<le> handed_out n + cancelled_by_stop (clock_apply e n) + (if e \<in> {Clock_expires, Clock_request False} then 1 else 0)"
proof (cases e)
  case (Clock_work t)
  then show ?thesis
    using assms by (cases "k_pc n") (auto simp: live_def handed_out_def cancelled_by_stop_def clock_defs split: if_splits)
next
  case (Clock_request b)
  then show ?thesis
    using assms by (cases b) (auto simp: live_def handed_out_def cancelled_by_stop_def clock_defs)
qed (use assms in \<open>auto simp: live_def handed_out_def cancelled_by_stop_def clock_defs\<close>)

lemma handed_out_run:
  assumes "count_list es (Clock_request True) \<le> 1"
  shows "handed_out (clock_run es (clock_begin b))
    \<le> count_list es Clock_expires + count_list es (Clock_request False) + cancelled_by_stop (clock_run es (clock_begin b))"
  using assms
proof (induction es rule: rev_induct)
  case (snoc e es)
  let ?n = "clock_run es (clock_begin b)"
  have "live (clock_run (es @ [e]) (clock_begin b)) \<le> 1"
    using live_run [of "es @ [e]" "clock_begin b"] snoc.prems by simp
  then have "handed_out (clock_apply e ?n) + cancelled_by_stop ?n
      \<le> handed_out ?n + cancelled_by_stop (clock_apply e ?n) + (if e \<in> {Clock_expires, Clock_request False} then 1 else 0)"
    by (intro handed_out_step) simp
  then show ?case using snoc by (auto split: if_splits)
qed simp

text \<open>A timer that was stopped runs out.\<close>

lemma stopped_timer_step:
  assumes "\<not> timerRunning (k_clock n)" and "e \<noteq> Clock_request True"
  shows "\<not> timerRunning (k_clock (clock_apply e n))
    \<and> clock_sent (k_clock (clock_apply e n)) + to_send (clock_apply e n) \<le> clock_sent (k_clock n) + to_send n"
proof (cases e)
  case (Clock_work t)
  then show ?thesis using assms(1) by (cases "k_pc n") (auto simp: to_send_def clock_defs)
next
  case (Clock_request b)
  then show ?thesis using assms by (cases b) (auto simp: to_send_def clock_defs)
qed (use assms in \<open>auto simp: to_send_def clock_defs\<close>)

lemma stopped_timer_run:
  "\<not> timerRunning (k_clock n) \<Longrightarrow> Clock_request True \<notin> set es
     \<Longrightarrow> clock_sent (k_clock (clock_run es n)) \<le> clock_sent (k_clock n) + to_send n"
proof (induction es arbitrary: n)
  case (Cons e es)
  have "\<not> timerRunning (k_clock (clock_apply e n))"
    and le: "clock_sent (k_clock (clock_apply e n)) + to_send (clock_apply e n) \<le> clock_sent (k_clock n) + to_send n"
    using stopped_timer_step [of n e] Cons.prems by auto
  from Cons.IH [OF this(1)] Cons.prems le show ?case by simp
qed simp

section \<open>Stopping the thread\<close>

text \<open>
  The stop is not lost: the flag is set before the I/O context is stopped, and tested after every
  restart of it.
\<close>

definition clock_inv :: "clock_node \<Rightarrow> bool" where
  "clock_inv n \<longleftrightarrow> (k_stop_pc n \<ge> 1 \<longrightarrow> k_stopping n)
     \<and> (k_stop_pc n \<ge> 3 \<longrightarrow> k_pc n \<notin> {K_test, K_after, K_restart, K_left} \<longrightarrow> k_ioc_stopped n)"

lemma clock_inv_step: "clock_inv n \<Longrightarrow> clock_inv (clock_apply e n)"
proof (cases e)
  case (Clock_work t)
  then show "clock_inv n \<Longrightarrow> ?thesis" by (cases "k_pc n") (auto simp: clock_inv_def clock_defs)
next
  case (Clock_request b)
  then show "clock_inv n \<Longrightarrow> ?thesis" by (cases b) (auto simp: clock_inv_def clock_defs)
qed (auto simp: clock_inv_def clock_defs stopThread_def)

lemma clock_inv_run: "clock_inv (clock_run es (clock_begin b))"
proof (induction es rule: rev_induct)
  case (snoc e es)
  then show ?case using clock_inv_step by simp
qed (simp add: clock_inv_def clock_begin_def)

fun clock_rank :: "clock_pc \<Rightarrow> nat" where
  "clock_rank K_left = 0"
| "clock_rank K_test = 1"
| "clock_rank K_after = 2"
| "clock_rank K_restart = 2"
| "clock_rank K_run = 3"
| "clock_rank K_rearm = 4"
| "clock_rank K_handled = 5"
| "clock_rank K_sending = 6"

lemma clock_rank_step:
  assumes "clock_inv n" and "k_stop_pc n = 3"
  shows "clock_rank (k_pc (clock_work t n)) \<le> clock_rank (k_pc n) - 1 \<and> k_stop_pc (clock_work t n) = 3"
  using assms by (cases "k_pc n") (auto simp: clock_inv_def clock_defs)

lemma clock_leaves:
  "clock_inv n \<Longrightarrow> k_stop_pc n = 3 \<Longrightarrow> length ts \<ge> clock_rank (k_pc n) \<Longrightarrow> k_pc (clock_alone ts n) = K_left"
proof (induction ts arbitrary: n)
  case Nil
  then show ?case by (cases "k_pc n") simp_all
next
  case (Cons t ts)
  have "clock_inv (clock_work t n)" using clock_inv_step [OF Cons.prems(1), of "Clock_work t"] by simp
  moreover have "clock_rank (k_pc (clock_work t n)) \<le> length ts" "k_stop_pc (clock_work t n) = 3"
    using clock_rank_step [OF Cons.prems(1,2), of t] Cons.prems(3) by auto
  ultimately show ?case using Cons.IH by simp
qed

lemma clock_rank_bound: "clock_rank pc \<le> 6"
  by (cases pc) simp_all

section \<open>Lost and flooding timers\<close>

text \<open>
  Stopping and starting in a row, as a peer does that subscribes again: the handler of the cancelled
  wait sends and re-arms, which cancels the new wait, and so on. The clock is sent without pause and
  without any expiry of the timer.
\<close>

definition resubscribed :: clock_node where
  "resubscribed = clock_run [Clock_work False, Clock_request True, Clock_request False, Clock_request True] (clock_begin False)"

lemma flood_step:
  assumes "k_pc n = K_run" and "\<not> k_ioc_stopped n" and "timerRunning (k_clock n)"
    and "ready (k_clock n) = 1" and "waiting (k_clock n) = 1"
  shows "clock_alone [False, False, False, False] n
    = n\<lparr>k_clock := (k_clock n)\<lparr>clock_sent := clock_sent (k_clock n) + 1\<rparr>\<rparr>"
proof (cases n)
  case (fields q pc st sp)
  show ?thesis
    using assms by (cases q) (simp add: fields clock_defs)
qed

lemma resubscribing_floods:
  "\<exists>es. set es = {Clock_work False} \<and> clock_sent (k_clock (clock_run es resubscribed)) \<ge> Suc k"
proof -
  have start: "k_pc resubscribed = K_run" "\<not> k_ioc_stopped resubscribed" "timerRunning (k_clock resubscribed)"
    "ready (k_clock resubscribed) = 1" "waiting (k_clock resubscribed) = 1"
    by (simp_all add: resubscribed_def clock_begin_def new_clock_subscriber_def clock_defs)
  have many: "\<exists>es. set es \<subseteq> {Clock_work False} \<and> clock_run es n
      = n\<lparr>k_clock := (k_clock n)\<lparr>clock_sent := clock_sent (k_clock n) + j\<rparr>\<rparr>"
    if "k_pc n = K_run" "\<not> k_ioc_stopped n" "timerRunning (k_clock n)"
      "ready (k_clock n) = 1" "waiting (k_clock n) = 1" for n j
    using that
  proof (induction j arbitrary: n)
    case 0
    then show ?case by (intro exI [of _ "[]"]) simp
  next
    case (Suc j)
    let ?n = "n\<lparr>k_clock := (k_clock n)\<lparr>clock_sent := clock_sent (k_clock n) + 1\<rparr>\<rparr>"
    obtain es where es: "set es \<subseteq> {Clock_work False}" "clock_run es ?n
        = ?n\<lparr>k_clock := (k_clock ?n)\<lparr>clock_sent := clock_sent (k_clock ?n) + j\<rparr>\<rparr>"
      using Suc.IH [of ?n] Suc.prems by auto
    have "clock_run (replicate 4 (Clock_work False)) n = ?n"
      using flood_step [OF Suc.prems] by (simp add: numeral_eq_Suc)
    then show ?case
      using es by (intro exI [of _ "replicate 4 (Clock_work False) @ es"]) auto
  qed
  from many [OF start, of "Suc k"] obtain es where "set es \<subseteq> {Clock_work False}"
    and n: "clock_run es resubscribed = resubscribed\<lparr>k_clock := (k_clock resubscribed)
       \<lparr>clock_sent := clock_sent (k_clock resubscribed) + Suc k\<rparr>\<rparr>" by blast
  moreover have sent: "clock_sent (k_clock (clock_run es resubscribed)) = clock_sent (k_clock resubscribed) + Suc k"
    by (simp add: n)
  moreover have "es \<noteq> []" using sent by auto
  ultimately show ?thesis by (intro exI [of _ es]) (cases es; auto)
qed

text \<open>An exception while sending: the loop goes on, but the timer is never armed again.\<close>

lemma exception_loses_timer:
  assumes "live n \<le> 1" and "k_pc n = K_sending" and "Clock_request True \<notin> set es"
  shows "clock_sent (k_clock (clock_run (Clock_work True # es) n)) = clock_sent (k_clock n)"
proof -
  have dead: "live m = 0 \<Longrightarrow> Clock_request True \<notin> set xs \<Longrightarrow> clock_sent (k_clock (clock_run xs m)) = clock_sent (k_clock m)" for xs m
  proof (induction xs arbitrary: m)
    case (Cons e xs)
    have "live (clock_apply e m) = 0" using live_step [of e m] Cons.prems by (auto split: if_splits)
    moreover have "clock_sent (k_clock (clock_apply e m)) = clock_sent (k_clock m)"
      using Cons.prems(1) by (cases e; cases "k_pc m") (auto simp: live_def clock_defs)
    ultimately show ?case using Cons by simp
  qed simp
  have "live (clock_work True n) = 0" "clock_sent (k_clock (clock_work True n)) = clock_sent (k_clock n)"
    using assms(1,2) by (simp_all add: live_def clock_defs)
  with dead assms(3) show ?thesis by simp
qed

section \<open>The properties\<close>

text \<open>
  C35. How often the clock is sent. As long as the timer was started at most once, whatever the
  interleaving of the thread with expiries, requests and a stop of the thread, at most one message is
  sent for every expiry of the timer of 10 milliseconds and every stop request, and one for the stop of
  the thread; once the timer was stopped, at most one message more is sent until it is started again.
\<close>

theorem clock_sends_bounded:
  assumes "count_list es (Clock_request True) \<le> 1"
  shows "clock_sent (k_clock (clock_run es (clock_begin b)))
      \<le> count_list es Clock_expires + count_list es (Clock_request False)
        + (if k_stop_pc (clock_run es (clock_begin b)) \<ge> 2 then 1 else 0)
    \<and> (\<forall>es'. \<not> timerRunning (k_clock (clock_run es (clock_begin b))) \<and> Clock_request True \<notin> set es' \<longrightarrow>
         clock_sent (k_clock (clock_run (es @ es') (clock_begin b)))
           \<le> clock_sent (k_clock (clock_run es (clock_begin b))) + 1)"
proof (intro conjI allI impI)
  let ?n = "clock_run es (clock_begin b)"
  show "clock_sent (k_clock ?n) \<le> count_list es Clock_expires + count_list es (Clock_request False)
      + (if k_stop_pc ?n \<ge> 2 then 1 else 0)"
    using handed_out_run [OF assms, of b] by (simp add: handed_out_def cancelled_by_stop_def)
  fix es' assume "\<not> timerRunning (k_clock ?n) \<and> Clock_request True \<notin> set es'"
  moreover have "to_send ?n \<le> 1"
    using to_send_live [of ?n] live_run [of es "clock_begin b"] assms by simp
  ultimately show "clock_sent (k_clock (clock_run (es @ es') (clock_begin b))) \<le> clock_sent (k_clock ?n) + 1"
    using stopped_timer_run [of ?n es'] by simp
qed

definition one_tick :: "clock_node_event list" where
  "one_tick = [Clock_work False, Clock_request True, Clock_expires, Clock_work False, Clock_work False,
     Clock_work False, Clock_work False, Clock_request False]"

theorem clock_sends_bounded_witness:
  "clock_sent (k_clock (clock_run one_tick (clock_begin False))) = 1
    \<and> clock_sent (k_clock (clock_run (one_tick @ [Clock_work False, Clock_work False, Clock_expires, Clock_work False])
        (clock_begin False))) \<le> 2"
proof -
  let ?n = "clock_run one_tick (clock_begin False)"
  have n: "clock_sent (k_clock ?n) = 1" "\<not> timerRunning (k_clock ?n)"
    by (simp_all add: one_tick_def clock_begin_def new_clock_subscriber_def clock_defs)
  have "count_list one_tick (Clock_request True) \<le> 1" by (simp add: one_tick_def)
  from clock_sends_bounded [OF this, of False, THEN conjunct2, THEN spec, THEN mp,
      of "[Clock_work False, Clock_work False, Clock_expires, Clock_work False]"] n
  show ?thesis by simp
qed

text \<open>
  C34. A stop of the clock subscriber is never lost: once \<open>stopThread\<close> has returned, the thread leaves
  its loop within six of its steps, wherever it was - also between leaving and restarting the I/O
  context, which undoes the stop of the I/O context - and whether or not sending throws.
\<close>

theorem clock_thread_leaves:
  assumes "k_stop_pc (clock_run es (clock_begin b)) = 3" and "length ts \<ge> 6"
  shows "k_pc (clock_alone ts (clock_run es (clock_begin b))) = K_left"
proof (rule clock_leaves [OF clock_inv_run assms(1)])
  show "clock_rank (k_pc (clock_run es (clock_begin b))) \<le> length ts"
    using clock_rank_bound assms(2) by (rule order_trans)
qed

theorem clock_thread_leaves_witness:
  "k_pc (clock_alone [False, False, True, False, False, False]
     (clock_run [Clock_work False, Clock_request True, Clock_expires, Clock_work False,
        Clock_stop_step, Clock_stop_step, Clock_stop_step] (clock_begin False))) = K_left"
  by (rule clock_thread_leaves)
    (simp_all add: clock_begin_def new_clock_subscriber_def clock_defs stopThread_def)

end
