(* ===== verification/Spec2Isabelle.thy ===== *)
theory Spec2Isabelle
  imports Bridge PluginSpec Worker LinkSpec Forwarding ClockThread
begin

text \<open>
  Verification of ROS2-Connect, a pair of ROS 2 nodes (\<^verbatim>\<open>connect_server\<close>, \<^verbatim>\<open>connect_client\<close>) that
  carry topics, services and actions between two ROS networks over one websocket.

  The program and its model. Every definition is named after the function it models.

  \<^item> Startup. \<open>Config\<close> is \<^verbatim>\<open>src/connectBase.hpp\<close> and \<^verbatim>\<open>src/global/\<close>: the parameters are parsed and
    checked into a \<open>GlobalConfig\<close>, with \<open>EnumParser\<close> (\<^verbatim>\<open>src/common/enumParser.hpp\<close>) for the policies.
    \<open>ConfigCorrect\<close> shows what a successful initialization guarantees (\<open>config_ok\<close>), \<open>ConfigExample\<close>
    evaluates one.
  \<^item> Nodes. \<open>Listener\<close> (\<^verbatim>\<open>src/connection/server.cpp\<close>), \<open>ClientNode\<close> (\<^verbatim>\<open>src/connection/client.cpp\<close>) and
    \<open>NodeProgram\<close> (\<^verbatim>\<open>src/connectServer.cpp\<close>, \<^verbatim>\<open>src/connectClient.cpp\<close>, \<^verbatim>\<open>src/status/\<close>) are the thread
    that accepts or connects and the main thread that starts, halts and joins it. Both programs are
    one model over the interface \<open>websocket_thread\<close>; \<open>ProgramSpec\<close> holds their properties.
  \<^item> Connections. \<open>Connection\<close> is the sending queue and the \<open>ConnectionManager\<close> (\<^verbatim>\<open>src/connection/\<close>);
    \<open>WsConnection\<close> routes received frames and authorizes clients, \<open>Session\<close> adds the chain of
    asynchronous operations from the handshake to closing, and \<open>Endpoint\<close> the search for the address
    of a client (\<^verbatim>\<open>src/websocketConnection/\<close>); \<open>SessionSpec\<close> holds their properties. \<open>World\<close>
    composes the thread of the server with all its sessions, which post their stops to it and are
    started and closed by it; \<open>WorldSpec\<close> holds what follows for the whole. \<open>Link\<close> joins the session
    of a client and that of its server by the two streams of frames; \<open>LinkSpec\<close> has its property.
  \<^item> Messages. \<open>Types\<close> and \<open>MessageBase\<close> (\<^verbatim>\<open>include/connect/types.hpp\<close>, \<^verbatim>\<open>messageBase.hpp\<close>) hold the wire
    format and the compression; \<open>RclMessage\<close>, \<open>VectorMessage\<close> and \<open>ServiceActionMessage\<close>
    (\<^verbatim>\<open>src/message/\<close>) are the three kinds of messages behind the interface \<open>wire_message\<close>.
  \<^item> Topics. \<open>Publisher\<close> and \<open>PublisherFlow\<close> (\<^verbatim>\<open>src/publisher/\<close>) publish what arrives, \<open>Subscriber\<close>
    (\<^verbatim>\<open>src/subscriber/\<close>) sends what local publishers publish, on request of the peer; \<open>Forwarding\<close>
    runs the manager with the callbacks of ROS and the threads of the subscribers, \<open>ClockThread\<close> the
    clock subscriber with its I/O context; \<open>Bridge\<close> composes both ends.
  \<^item> Services and actions. \<open>ServiceActionManager\<close> (\<^verbatim>\<open>src/serviceAction/\<close>) routes to the plugins;
    \<open>ServiceActionHandle\<close> is the heap of handles the plugins share (\<^verbatim>\<open>include/connect/\<close>), and
    \<open>ServiceServer\<close>, \<open>ServiceClient\<close>, \<open>ActionServer\<close> and \<open>ActionClient\<close> are the four plugin bases.
    \<open>PluginFlow\<close> composes both ends of a call, \<open>PluginExample\<close> evaluates runs and \<open>PluginSpec\<close>
    holds the properties.
  \<^item> Threads. \<open>Thread\<close> is \<^verbatim>\<open>src/common/thread.cpp\<close> with the interface \<open>std_map\<close> of the containers,
    \<open>Worker\<close> the run loop all managers share, taken apart at every point where another thread acts.
  \<^item> \<open>Prelude\<close> holds the machine types, buffers and exceptions all of them use.

  How the code is translated. Bytes and sizes are words of their width; a buffer access, a pointer or
  a thread object that C++ leaves undefined is \<open>None\<close>, so that a theorem with a result also says
  that no such access happens; exceptions are \<open>Inl\<close>. Code that runs in one strand or under one
  mutex is one step; code of several threads is a step relation or a list of events, and the
  theorems hold for every order. A blocking wait is cut in two: the step after it is enabled by the
  event it waits for or by its time-out.

  What the theorems show. Transport: frames, requests and events arrive unchanged (roundtrips), and
  topics, service calls and goals end to end. Memory safety of the extended header. Managers:
  delivery in order, subscription exactly on request, nothing forwarded without one, routing exactly to the configured plugin.
  Connections: no overlapping writes or reads, no loss on an open stream, one close per connection,
  no manager before authorization. Server with its connections: no connection is forgotten, each
  works only for a client that was authorized on it, and a stopped server has closed all; a client of
  this program presents its key first and once. Plugins: responses belong to their requests, answers are sent
  once, references stay valid, threads stop. Run loop: refinement of an abstract queue. Programs:
  at most one accept, termination after a stop or a lost connection. Where the code does not keep
  what it means to do, a theorem or lemma shows the run: a stop or a cancellation that is lost, a
  rejected goal that is accepted, a request that is never answered, a second authentication that
  terminates the server, an overlapping copy.

  Bounds. The run loop of a manager handles its next message, or leaves after a stop, within 5 of its
  steps; the thread of a goal leaves within 2 (server side) or 4 (client side) steps; the thread of
  the server leaves within 3 steps and accepts again within 8, the one of the clock leaves within 6;
  a program leaves \<open>main\<close> within 11 steps. Each number is the longest path through the program
  counters of the loop, and each theorem states that this many steps suffice. Joins and waits that may take longer are measured by a rank
  that every step decreases. The recursion over outstanding stops is on the list of connections.

  Parameters with named hypotheses. LZ4 and zlib are \<open>codecs\<close>, of which \<open>codecs_ok\<close> states that
  decompressing a compressed block with sufficient space gives the block back. The copy inside one
  vector is \<open>mcpy\<close>, which \<open>gid_copy_ok\<close> relates to \<open>memmove\<close>. \<open>boost::json\<close> and the trial creation
  of ROS entities are \<open>env\<close>; the authentication plugin is a function of key and information; what
  \<open>rclcpp\<close> and \<open>rclcpp_action\<close> document (callbacks of a pending call once, results of a goal once,
  \<open>cancel\<close> of an executor ends the running \<open>spin\<close>) is the enabling condition of the step. A websocket
  delivers frames in the order they were written as long as no write has failed (\<open>next_frame\<close>). Clocks,
  time-outs, \<open>rclcpp::ok\<close>, subscription counts and the results of socket calls are inputs.

  Not modelled, since they are calls of libraries without a decision of the program: name resolution,
  sockets and TLS of Boost.Asio and Beast beyond their results, the
  middleware of ROS, log output beyond the names of the loggers, the time stamp of the status
  message, and the virtual functions of concrete plugins, which are not part of the repository. Two
  threads that touch one container without a mutex - \<open>onStopThread\<close> of the managers erases elements
  while \<open>run\<close> may use them, the signal handler halts the node while callbacks run - are data races
  whose outcome no model of the language gives; the steps of the model stand for code between which
  no such access happens. \<open>VectorMessage::toString\<close> is never called and left out. Launch files and
  the build hold no code.
\<close>

section \<open>Transport of messages\<close>

text \<open>
  C10. Topic data survives the way over the websocket: for every channel, serialized message and
  compression profile, the frame built by \<open>fromSerializedMessage\<close> and
  \<open>getCompressedCombinedVector\<close> is parsed by the peer's \<open>fromFlatBuffer\<close> into a message on the
  same channel from which it publishes exactly the serialized message, under the documented
  behaviour of LZ4 and zlib.
\<close>

theorem topic_transfer:
  assumes "codecs_ok c"
  shows "\<exists>frame r. getCompressedCombinedVector vector_ops (base_compress_ops vector_ops) c
        (fromSerializedMessage ch msg) p = Some frame
    \<and> fromFlatBuffer frame = Some r \<and> channel r = ch \<and> received_payload c r = Some msg"
  by (rule topic_frame [OF assms])

theorem topic_transfer_witness:
  "\<exists>frame r. getCompressedCombinedVector vector_ops (base_compress_ops vector_ops) stored_codecs
        (fromSerializedMessage 7 [1, 2, 3]) \<lparr>compressor_of_profile = ZLIB, rate = 9\<rparr> = Some frame
    \<and> fromFlatBuffer frame = Some r \<and> channel r = 7
    \<and> received_payload stored_codecs r = Some [1, 2, 3]"
  by (rule topic_transfer [OF stored_codecs_ok])

text \<open>
  C11. A service request or action event survives the way over the websocket: the peer parses the
  frame of \<open>forServiceAction\<close> under every compression profile, routes it by the same channel and
  op-code, and obtains the same goal id (up to 255 bytes) and data, provided the copy in
  \<open>ServiceActionMessage::store\<close> moves the goal id (an overlapping \<open>memcpy\<close> that acts as
  \<open>memmove\<close>).
\<close>

theorem service_action_transfer:
  assumes "codecs_ok c" and "length gid < 256" and "gid @ data \<noteq> []"
    and "gid_copy_ok mcpy (length gid)"
  shows "\<exists>m frame. forServiceAction sch sop data gid = Some m
    \<and> sa_channel m = sch \<and> sa_opcode m = sop \<and> channel m = opcode SERVICE_ACTION
    \<and> getCompressedCombinedVector (sa_ops mcpy) sa_compress_ops c m p = Some frame
    \<and> sa_delivered mcpy c frame m gid data"
proof -
  obtain m where m: "forServiceAction sch sop data gid = Some m" "sa_layout m gid data"
    "channel m = opcode SERVICE_ACTION" "compressor m = NONE" "sa_channel m = sch" "sa_opcode m = sop"
    using forServiceAction_layout [OF assms(2), of sch sop data] by blast
  with sa_transfer [OF m(2,4) assms(3,1,4), of p] show ?thesis by blast
qed

theorem service_action_transfer_witness:
  "\<exists>m frame. forServiceAction 3 ACTION_TO_SERVER_FEEDBACK [1, 2] [10, 11, 12, 13, 14, 15] = Some m
    \<and> sa_channel m = 3 \<and> sa_opcode m = ACTION_TO_SERVER_FEEDBACK
    \<and> channel m = opcode SERVICE_ACTION
    \<and> getCompressedCombinedVector (sa_ops memmove) sa_compress_ops stored_codecs m
        \<lparr>compressor_of_profile = LZ4_HC, rate = 9\<rparr> = Some frame
    \<and> sa_delivered memmove stored_codecs frame m [10, 11, 12, 13, 14, 15] [1, 2]"
  by (rule service_action_transfer [OF stored_codecs_ok]) simp_all

text \<open>
  Under the reading of ISO C++, in which \<open>memcpy\<close> on overlapping ranges is undefined, the copy in
  \<open>ServiceActionMessage::store\<close> is defined exactly for goal ids of at most 4 bytes: a compressed
  message with a longer goal id (those of ROS have 16 bytes) has no defined decompression result
  once its data are decompressed.
\<close>

theorem store_memcpy_overlap:
  assumes "sa_layout m gid old" and "isCompressed m"
  shows "sa_store memcpy_iso (m\<lparr>compressor := NONE\<rparr>) d \<noteq> None \<longleftrightarrow> length gid \<le> 4"
proof
  assume "length gid \<le> 4"
  then show "sa_store memcpy_iso (m\<lparr>compressor := NONE\<rparr>) d \<noteq> None"
    using sa_store_layout [OF assms, of memcpy_iso d] by auto
next
  assume "sa_store memcpy_iso (m\<lparr>compressor := NONE\<rparr>) d \<noteq> None"
  then show "length gid \<le> 4"
    using assms
    by (auto simp: sa_store_def sa_layout_def isCompressed_def memcpy_iso_def Let_def unat_of_nat
        bind_eq_Some_conv split: if_splits)
qed

definition overlap_message :: sa_message where
  "overlap_message = \<lparr>channel = 251, compressor = ZLIB, uncompressedSize = 1,
     sa_vec = [251, 3, 1, 0, 0, 0, 4, 9, 5, 1, 2, 3, 4, 5, 42], sa_channel = 4,
     sa_opcode = ACTION_TO_SERVER_FEEDBACK, gID_span = (9, 5), data_span = (14, 1)\<rparr>"

theorem store_memcpy_overlap_witness:
  "sa_store memcpy_iso (overlap_message\<lparr>compressor := NONE\<rparr>) [42] = None"
proof -
  have "sa_layout overlap_message [1, 2, 3, 4, 5] [42]"
    unfolding sa_layout_def
    by (rule exI [of _ "[1, 0, 0, 0]"]) (simp add: overlap_message_def sa_prefix_def)
  then show ?thesis
    using store_memcpy_overlap [of overlap_message "[1, 2, 3, 4, 5]" "[42]" "[42]"]
    by (simp add: overlap_message_def isCompressed_def)
qed

text \<open>
  C18. \<open>fromMessage\<close> never reads outside the frame, whatever the peer sent: the access is always
  defined, and when a message results, its goal id and data are the bytes of the frame behind a
  header of 5 or 9 bytes whose fields it carries.
\<close>

theorem fromMessage_memory_safe:
  "fromMessage ops m \<noteq> None
   \<and> (fromMessage ops m = Some (Some s) \<longrightarrow>
      (\<exists>hdr gid data. getGID s = Some gid \<and> getData s = Some data
        \<and> getCombinedVector ops m = hdr @ gid @ data \<and> sa_vec s = hdr @ gid @ data
        \<and> length hdr = (if compressor m = NONE then 5 else 9)
        \<and> unat (hdr ! (length hdr - 1)) = length gid
        \<and> sa_code (sa_opcode s) = hdr ! (length hdr - 2)
        \<and> sa_channel s = hdr ! (length hdr - 3)
        \<and> channel s = channel m \<and> compressor s = compressor m))"
  using fromMessage_defined [of ops m] fromMessage_spans [of ops m s] by blast

theorem fromMessage_memory_safe_witness:
  "\<exists>s. fromMessage rcl_ops (RclMessage 251 NONE 6 [4, 2, 2, 65, 66, 67]) = Some (Some s)
     \<and> (\<exists>hdr gid data. getGID s = Some gid \<and> getData s = Some data
        \<and> [251, 0, 4, 2, 2, 65, 66, 67] = hdr @ gid @ data \<and> length hdr = 5)"
proof -
  obtain s where s: "fromMessage rcl_ops (RclMessage 251 NONE 6 [4, 2, 2, 65, 66, 67]) = Some (Some s)"
    by (simp add: fromMessage_def RclMessage_def rcl_getCombinedVector_def ServiceActionMessage_def
        sa_opcode_of_def all_sa_opcodes_def SERVICE_ACTION_OP_CODE_MAX_def)
  with fromMessage_memory_safe [of rcl_ops "RclMessage 251 NONE 6 [4, 2, 2, 65, 66, 67]" s]
  show ?thesis
    by (auto simp: RclMessage_def rcl_getCombinedVector_def)
qed

text \<open>
  \<open>fromFlatBuffer\<close> and \<open>getCombinedVector\<close> of \<open>RclMessage\<close> are inverse to each other on the
  frames this program produces: printing a message (whose size field is the payload's length when
  it is not compressed) and parsing it gives the message, and printing what a frame with a known
  compressor parses to gives that frame.
\<close>

theorem frame_roundtrip:
  "((compressor m = NONE \<longrightarrow> uncompressedSize m = word_of_nat (length (serialized m))) \<longrightarrow>
     fromFlatBuffer (rcl_getCombinedVector m) = Some m)
   \<and> (fromFlatBuffer buf = Some m' \<and> compressor_of (buf ! 1) \<noteq> None \<longrightarrow> rcl_getCombinedVector m' = buf)"
  using rcl_print_parse rcl_parse_print by blast+

theorem frame_roundtrip_witness:
  "fromFlatBuffer (rcl_getCombinedVector (RclMessage 5 LZ4_HC 1000 [1, 2])) = Some (RclMessage 5 LZ4_HC 1000 [1, 2])
   \<and> rcl_getCombinedVector (RclMessage 5 NONE 2 [7, 8]) = [5, 0, 7, 8]"
  using frame_roundtrip [of "RclMessage 5 LZ4_HC 1000 [1, 2]" "[5, 0, 7, 8]" "RclMessage 5 NONE 2 [7, 8]"]
  by (simp add: RclMessage_def)

text \<open>
  \<open>fromFlatBuffer\<close> does not check the length of the frame: it reads outside the buffer exactly
  for frames shorter than two bytes and for frames of a real compressor that are shorter than six.
\<close>

theorem fromFlatBuffer_out_of_bounds:
  "fromFlatBuffer buf = None \<longleftrightarrow>
     length buf < 2
     \<or> length buf < 6 \<and> buf ! 1 \<in> compressor_code ` {LZ4_DEFAULT, LZ4_HC, ZLIB}"
proof -
  have "(\<exists>cc. cc \<noteq> NONE \<and> compressor_of (buf ! 1) = Some cc)
      \<longleftrightarrow> buf ! 1 \<in> compressor_code ` {LZ4_DEFAULT, LZ4_HC, ZLIB}"
  proof -
    have "cc \<noteq> NONE \<longleftrightarrow> cc \<in> {LZ4_DEFAULT, LZ4_HC, ZLIB}" for cc
      by (cases cc) simp_all
    then show ?thesis by (auto simp only: compressor_of_Some image_iff)
  qed
  then show ?thesis unfolding fromFlatBuffer_None_iff by simp
qed

section \<open>Initialization\<close>



text \<open>
  The number of executor threads fits the configuration: whenever the initialization succeeds,
  \<open>evalNrOfMultiThreadedExecutorThreads\<close>, which parses the same parameters before, returns four plus
  one for every user-defined subscriber, service and action with an own thread and one for each of
  the clock publisher, the tf publisher and the tf subscription. In particular it does not fail.
\<close>

theorem executor_threads:
  assumes "init env name namespace authentication p initial_config = Some cfg"
  shows "evalNrOfMultiThreadedExecutorThreads env p =
    4 + int (own_threads cfg) + (if publishClock cfg then 1 else 0) + (if publishTf cfg then 1 else 0)
      + (if subscribeTf cfg then 1 else 0)"
proof -
  obtain base where fin: "finish_initialization env authentication base = Inr cfg" and ok: "loops_ok env p base"
    and flags: "publishTf base = p_tf_publish p" "subscribeTf base = p_tf_subscribe p"
      "publishClock base = p_clock_publish p"
    using init_cases [OF assms] by blast
  have cfg: "cfg = add_predefined base" using fin by (simp add: finish_initialization_Inr)
  have "list_all (user_topic base) (gc_subscriber base)" using ok by (simp add: loops_ok_def)
  from own_threads_add_predefined [OF this] show ?thesis
    using ok flags by (simp add: cfg loops_ok_def add_predefined_frame)
qed

theorem executor_threads_witness:
  "\<exists>cfg. init example_env ''connect_server'' ''/'' True example_parameters initial_config = Some cfg
     \<and> evalNrOfMultiThreadedExecutorThreads example_env example_parameters
         = 4 + int (own_threads cfg) + (if publishClock cfg then 1 else 0)
             + (if publishTf cfg then 1 else 0) + (if subscribeTf cfg then 1 else 0)"
  using example_init executor_threads by blast


text \<open>
  A profile number is converted to a byte before it is looked up: a topic, service or action
  that names a profile number outside 0 to 255 is given the profile with the number modulo 256
  instead of being rejected.
\<close>

theorem profile_number_wraps:
  assumes "jget obj key = JInt i"
  shows "find_profile profiles obj key what = find_profile profiles [(key, JInt (i mod 256))] key what"
proof -
  have "(word_of_int (i mod 256) :: byte) = word_of_int i"
    by (simp add: word_of_int_eq_iff take_bit_eq_mod)
  then show ?thesis using assms by (simp add: find_profile_def jget_def)
qed

theorem profile_number_wraps_witness:
  "find_profile (map_insert 1 example_qos (\<lambda>_. None)) [(''qos'', JInt 257)] ''qos'' ''Subscriber'' = Inr example_qos"
  by (subst profile_number_wraps [where i = 257]) (simp_all add: jget_def find_profile_def map_insert_def)

section \<open>Topics from end to end\<close>


definition example_topic :: Topic_t where
  "example_topic = \<lparr>tp_channel = 10, tp_topic = ''/scan'', tp_type = ''LaserScan'', tp_useOwnThread = True,
     tp_permanent = False, tp_qos = Some example_qos, tp_compression = example_zlib\<rparr>"


text \<open>
  C6. The publishing side delivers every message exactly once and in order, however the manager
  thread, the threads of the publishers and the arrival of messages interleave: at any moment, what
  was published for a channel, followed by what is still queued for it, is the sequence of payloads
  of the messages that arrived on that channel.
\<close>

theorem publisher_delivery:
  assumes "(pub_step c)\<^sup>*\<^sup>* (pub_start cfg) s"
    and "find (\<lambda>t. tp_channel t = ch) (gc_publisher cfg) = Some t"
  shows "published_on ch (published s) @ in_flight c t ch s = payloads c t (on_channel ch (arrived s))"
  by (rule delivery [OF assms])

definition example_config :: GlobalConfig where
  "example_config = initial_config
     \<lparr>gc_publisher := [example_topic], gc_subscriber := [example_topic\<lparr>tp_channel := 11\<rparr>],
      gc_serviceServer := [\<lparr>sa_def_channel = 5, sa_def_type = ''AddTwoInts'', sa_useOwnThread = True,
        sa_allowSimultaneous = True, sa_serviceQos = example_qos, sa_feedbackQos = example_qos,
        sa_statusQos = example_qos, sa_resultTimeout = 0, sa_maxExecTime = 500,
        sa_compression = example_zlib\<rparr>],
      authenticationPlugin := ''connect::Backend'', subscribeClock := True\<rparr>"

theorem publisher_delivery_witness:
  "\<exists>s. (pub_step stored_codecs)\<^sup>*\<^sup>* (pub_start example_config) s
     \<and> published_on 10 (published s) = [[7, 8]] \<and> arrived s \<noteq> []
     \<and> published_on 10 (published s) @ in_flight stored_codecs example_topic 10 s
         = payloads stored_codecs example_topic (on_channel 10 (arrived s))"
proof -
  let ?m = "RclMessage 10 ZLIB 2 [7, 8]"
  let ?p = "new_publisher example_topic"
  let ?s0 = "pub_start example_config"
  let ?s1 = "?s0\<lparr>pub_mgr := pm_publish ?m (pub_mgr ?s0), arrived := arrived ?s0 @ [?m]\<rparr>"
  let ?s2 = "?s1\<lparr>pub_mgr := (pub_mgr ?s0)\<lparr>publishers := [(10, threaded_publish ?m ?p)]\<rparr>,
      published := published ?s1 @ opt_list None\<rparr>"
  let ?p3 = "?p\<lparr>pub_queue := []\<rparr>"
  let ?s3 = "?s2\<lparr>pub_mgr := (pub_mgr ?s2)\<lparr>publishers := map_put 10 ?p3 (publishers (pub_mgr ?s2))\<rparr>,
      published := published ?s2 @ map (Pair 10) (opt_list (Some [7, 8])),
      notified := notified ?s2 @ map (Pair 10) (opt_list None)\<rparr>"
  have mgr: "pub_mgr ?s0 = \<lparr>publishers = [(10, ?p)], toPublish = [], hasSharedPublisher = False,
      pm_thread = new_thread, subscriptionMonitor = False\<rparr>"
    by (simp add: pub_start_def pm_init_def pm_add_def example_config_def example_topic_def
        new_publisher_manager_def map_insert_new_def)
  have 1: "pub_step stored_codecs ?s0 ?s1" by (rule pub_step.arrive)
  have "pm_run_step True (pub_mgr ?s1) = ((pub_mgr ?s0)\<lparr>publishers := [(10, threaded_publish ?m ?p)]\<rparr>, None)"
    unfolding mgr by (simp add: pm_publish_def mgr pm_run_step_def getChannel_def RclMessage_def
        new_publisher_def example_topic_def map_put_def)
  then have 2: "pub_step stored_codecs ?s1 ?s2" using pub_step.dispatch by fastforce
  have "threaded_step stored_codecs True 0 1 (threaded_publish ?m ?p) = (?p3, None, Some [7, 8])"
    by (simp add: threaded_step_def threaded_publish_def new_publisher_def testForSubscriber_def
        RclMessage_def isCompressed_def decompress_def zlibDecompression_def stored_codecs_def
        ZLIB_MAX_SRC_SIZE_def rosPublish_def rcl_getSerializedMessage_def)
  then have 3: "pub_step stored_codecs ?s2 ?s3"
    by (intro pub_step.work [where now = 1 and count = 0 and p = "threaded_publish ?m ?p"])
      (simp_all add: mgr threaded_publish_def new_publisher_def example_topic_def)
  have reach: "(pub_step stored_codecs)\<^sup>*\<^sup>* ?s0 ?s3" using 1 2 3 by (meson converse_rtranclp_into_rtranclp r_into_rtranclp)
  have "published_on 10 (published ?s3) = [[7, 8]]"
    by (simp add: pub_start_def published_on_def)
  moreover have "find (\<lambda>t. tp_channel t = 10) (gc_publisher example_config) = Some example_topic"
    by (simp add: example_config_def example_topic_def)
  ultimately show ?thesis
    using reach publisher_delivery [OF reach, of 10 example_topic] by auto
qed

section \<open>Subscriptions\<close>

text \<open>
  A publisher tells its peer about subscribers in alternating notifications that begin with an
  appearance, and it reports that they are gone only after every test of at least ten seconds found
  none, for any sequence of observed counts and (non-negative) times.
\<close>

theorem subscriber_notifications:
  assumes "run_tests obs (new_publisher t) = (p, told)" and "list_all (\<lambda>o1. snd o1 \<ge> 0) obs"
  shows "alternating True told
    \<and> (snd (testForSubscriber count now p) = Some False \<longrightarrow>
         (\<exists>since. silent_since (obs @ [(count, now)]) since \<and> now - since \<ge> 10000000000))"
proof -
  have "alternating True told"
    using run_tests_alternating [OF assms(1)] by (simp add: new_publisher_def)
  moreover have "\<exists>since. silent_since (obs @ [(count, now)]) since \<and> now - since \<ge> 10000000000"
    if "snd (testForSubscriber count now p) = Some False"
    using that gone_notification [OF assms] by (cases "testForSubscriber count now p") auto
  ultimately show ?thesis by blast
qed

theorem subscriber_notifications_witness:
  "alternating True [True]
    \<and> (\<exists>since. silent_since ([(1, 5), (0, 10)] @ [(0, 20000000000)]) since
         \<and> 20000000000 - since \<ge> 10000000000)"
proof -
  let ?obs = "[(1, 5), (0, 10)] :: (nat \<times> int) list"
  let ?p = "(new_publisher example_topic)\<lparr>hasSubscriber := True, subscriberGoneAwayTimePoint := 10\<rparr>"
  have run: "run_tests ?obs (new_publisher example_topic) = (?p, [True])"
    by (simp add: testForSubscriber_def new_publisher_def)
  moreover have "snd (testForSubscriber 0 20000000000 ?p) = Some False"
    by (simp add: testForSubscriber_def new_publisher_def)
  ultimately show ?thesis
    using subscriber_notifications [OF run, of 0 20000000000] by simp
qed



text \<open>
  A clock subscriber that was started once sends at most one clock message per expiry of its
  timer of 10 milliseconds, in every order of expiries and completion handlers.
\<close>

theorem clock_rate:
  assumes "clock_events es (clock_start new_clock_subscriber) = Some k"
  shows "clock_sent k \<le> count_list es Expire \<and> ready k + waiting k \<le> 1"
proof -
  let ?k = "clock_start new_clock_subscriber"
  have "ready ?k + waiting ?k \<le> 1" "timerRunning ?k" "clock_sent ?k = 0" "ready ?k = 0"
    by (simp_all add: clock_start_def restartTimer_def cancel_waits_def new_clock_subscriber_def Let_def)
  with clock_events_one_start [OF assms] show ?thesis by simp
qed

theorem clock_rate_witness:
  "\<exists>k. clock_events [Expire, Handler, Expire, Handler] (clock_start new_clock_subscriber) = Some k
     \<and> clock_sent k = 2 \<and> clock_sent k \<le> count_list [Expire, Handler, Expire, Handler] Expire"
proof -
  obtain k where k: "clock_events [Expire, Handler, Expire, Handler] (clock_start new_clock_subscriber) = Some k"
    "clock_sent k = 2"
    by (simp add: clock_start_def restartTimer_def cancel_waits_def new_clock_subscriber_def Let_def
        timer_expires_def timer_handler_def)
  with clock_rate [OF k(1)] show ?thesis by auto
qed

text \<open>
  A second start while the clock is running breaks the period: the completion handler does not
  look at its error code and re-arms the timer, so the handlers abort each other and send any number
  of clock messages without the timer ever expiring.
\<close>

theorem clock_started_twice_floods:
  "\<exists>k. clock_events (replicate n Handler) (clock_start (clock_start new_clock_subscriber)) = Some k
     \<and> clock_sent k = n"
proof -
  let ?k = "clock_start (clock_start new_clock_subscriber)"
  have "ready ?k \<ge> 1" "waiting ?k = 1" "timerRunning ?k" "clock_sent ?k = 0"
    by (simp_all add: clock_start_def restartTimer_def cancel_waits_def new_clock_subscriber_def Let_def)
  with clock_flood [of ?k n] show ?thesis by auto
qed

section \<open>The sending queue and the connection manager\<close>



text \<open>
  C19. While the stream stays open and no write fails, nothing is lost: the frames that were written,
  followed by the queue, are the frames that were sent, and a write is outstanding exactly while the
  queue is not empty.
\<close>

theorem send_queue_lossless:
  assumes "lossless_step\<^sup>*\<^sup>* (new_conn\<lparr>ws_open := True\<rparr>) c"
  shows "accepted c = written c @ sendingQueue c \<and> (writing c \<noteq> None \<longleftrightarrow> sendingQueue c \<noteq> [])"
  using lossless_reachable [OF assms] by (auto simp: lossless_inv_def split: list.splits)

theorem send_queue_lossless_witness:
  "accepted (new_conn\<lparr>ws_open := True, sendingQueue := [[1]], writing := Some [1], accepted := [[1]]\<rparr>)
     = [] @ [[1]]"
proof -
  let ?c1 = "new_conn\<lparr>ws_open := True\<rparr>"
  let ?c2 = "?c1\<lparr>sendingQueue := [[1]], writing := Some [1], accepted := [[1]]\<rparr>"
  have "lossless_step ?c1 ?c2"
    by (rule lossless_step.step [of "Send True [1]"])
      (simp_all add: send_def queueMessage_def asyncWrite_def new_conn_def)
  then have "lossless_step\<^sup>*\<^sup>* ?c1 ?c2" by blast
  from send_queue_lossless [OF this] show ?thesis by (simp add: new_conn_def)
qed



section \<open>Authentication\<close>

text \<open>
  The authorization gate: on a server that does not omit the check, no publisher, subscriber or
  service plugin exists and no manager runs, whatever frames arrive in whatever order, unless a
  client presented a user key in an authentication frame that the authentication plugin accepts.
\<close>

theorem authorization_gate:
  assumes "server_run cfg plugin es (new_server_connection cfg) = Some w"
    and "\<not> authenticationOmit cfg"
  shows "dormant w \<or> (\<exists>e \<in> set es. authorizing plugin e)"
  by (rule server_gate [OF assms dormant_new])

lemma example_wrong_key:
  "\<exists>w. server_run example_config example_plugin [Connected, Read (Frame (authentication_frame ''guess''))]
     (new_server_connection example_config) = Some w \<and> authentication_info w \<noteq> None"
  by (simp add: server_onConnected_def example_config_def initial_config_def read_handler_def
      authentication_frame_parsed server_processMessage_def isOpCode_def RclMessage_def
      rcl_toString_def cstring_terminated validateUserKeyForAuthentication_def new_server_connection_def
      new_ws_connection_def ws_connection.extend_def example_plugin_def new_authentication_def isValid_def
      request_stop_def cstring_def byte_of_char_def)

theorem authorization_gate_witness:
  "\<exists>w. server_run example_config example_plugin [Connected, Read (Frame (authentication_frame ''guess''))]
     (new_server_connection example_config) = Some w
   \<and> (dormant w \<or> (\<exists>e \<in> set [Connected, Read (Frame (authentication_frame ''guess''))]. authorizing example_plugin e))"
proof -
  obtain w where w: "server_run example_config example_plugin
      [Connected, Read (Frame (authentication_frame ''guess''))] (new_server_connection example_config) = Some w"
    using example_wrong_key by blast
  have "\<not> authenticationOmit example_config" by (simp add: example_config_def initial_config_def)
  from authorization_gate [OF w this] w show ?thesis by blast
qed

text \<open>
  After a successful initialization of a server that does not omit the check, the callback of the
  authentication timer is always defined: the pointer to the authentication plugin it reads through
  is not null, whatever happened on the connection before. It requests the stop of the connection
  exactly when there is no valid authentication.
\<close>

theorem authentication_timer_defined:
  assumes "init env name namespace True p initial_config = Some cfg" and "\<not> authenticationOmit cfg"
    and "server_run cfg plugin es (new_server_connection cfg) = Some w"
  shows "\<exists>a w'. authentication_info w = Some a \<and> validAuthenticationCheckCallback w = Some w'
    \<and> ws_stops w' = ws_stops w @ (if isValid a then [] else [(CC_going_away, ''No valid authentication'')])"
proof -
  obtain base where fin: "finish_initialization env True base = Inr cfg"
    using init_cases [OF assms(1)] by blast
  then have "authenticationPlugin cfg \<noteq> []"
    using assms(2) by (auto simp: finish_initialization_Inr authentication_ok_def)
  then have "authentication_info (new_server_connection cfg) \<noteq> None"
    by (simp add: new_server_connection_def ws_connection.extend_def new_ws_connection_def)
  from server_run_info [OF assms(3) this] obtain a where "authentication_info w = Some a" by blast
  then show ?thesis
    by (simp add: validAuthenticationCheckCallback_def request_stop_def)
qed

theorem authentication_timer_defined_witness:
  "\<exists>cfg w a w'. init example_env ''connect_server'' ''/'' True example_parameters initial_config = Some cfg
     \<and> server_run cfg example_plugin [] (new_server_connection cfg) = Some w
     \<and> authentication_info w = Some a \<and> validAuthenticationCheckCallback w = Some w'"
proof -
  obtain cfg where cfg: "init example_env ''connect_server'' ''/'' True example_parameters initial_config = Some cfg"
    and omit: "authenticationOmit cfg = p_authentication_omit example_parameters"
    using example_init init_omit by blast
  then have "\<not> authenticationOmit cfg" by (simp add: example_parameters_def)
  from authentication_timer_defined [OF cfg this, of example_plugin "[]" "new_server_connection cfg"] cfg
  show ?thesis by auto
qed

text \<open>
  C40. A second valid user key terminates the server: once a connection is authorized, every further
  authentication message whose key the plugin accepts starts the managers again, which destroys a
  joinable thread.
\<close>

theorem second_authentication_terminates:
  assumes "\<not> authenticationOmit cfg"
    and "validateUserKeyForAuthentication cfg plugin key w = Some w'"
    and "authentication_info w = Some a" and "isValid (plugin key a)"
    and "isValid (plugin key' (plugin key a))"
  shows "validateUserKeyForAuthentication cfg plugin key' w' = None"
proof -
  obtain v where v: "onAuthorized cfg (w\<lparr>authentication_info := Some (plugin key a), granted := granted w @ [key]\<rparr>) = Some v"
    and w': "authentication_info w' = authentication_info v" "publisherManager w' = publisherManager v"
    using assms(1-4)
    by (auto simp: validateUserKeyForAuthentication_def Let_def bind_eq_Some_conv ws_send_def split: option.splits)
  have "authentication_info w' = Some (plugin key a)"
    using onAuthorized_frame [OF v] w'(1) by simp
  moreover have "has_thread (pm_thread (publisherManager w'))"
    using onAuthorized_running [OF v] w'(2) by simp
  then have "onAuthorized cfg (w'\<lparr>authentication_info := i, granted := g\<rparr>) = None" for i g
    by (intro onAuthorized_again) simp
  ultimately show ?thesis
    using assms(1,5) by (simp add: validateUserKeyForAuthentication_def Let_def)
qed

theorem second_authentication_terminates_witness:
  "\<exists>w. validateUserKeyForAuthentication auth_config example_plugin ''key'' (new_server_connection auth_config) = Some w
     \<and> validateUserKeyForAuthentication auth_config example_plugin ''key'' w = None"
proof -
  let ?w0 = "new_server_connection auth_config"
  have omit: "\<not> authenticationOmit auth_config" by (simp add: auth_config_def initial_config_def)
  have valid: "isValid (example_plugin ''key'' a)" for a by (simp add: example_plugin_def isValid_def)
  have info: "authentication_info ?w0 = Some new_authentication"
    by (simp add: new_server_connection_def ws_connection.extend_def new_ws_connection_def auth_config_def)
  have conn: "ws_conn ?w0 = new_conn" "publisherManager ?w0 = new_publisher_manager"
    "subscriberManager ?w0 = new_subscriber_manager" "serviceActionManager ?w0 = new_sa_manager"
    by (simp_all add: new_server_connection_def ws_connection.extend_def new_ws_connection_def)
  have cfg: "gc_publisher auth_config = []" "gc_subscriber auth_config = []"
    "subscribeClock auth_config = False" "gc_serviceServer auth_config = []"
    "gc_serviceClient auth_config = []" "gc_actionServer auth_config = []" "gc_actionClient auth_config = []"
    by (simp_all add: auth_config_def initial_config_def)
  have on: "\<exists>v. onAuthorized auth_config (?w0\<lparr>authentication_info := i, granted := g\<rparr>) = Some v
      \<and> ws_conn v = new_conn" for i g
    by (simp add: onAuthorized_def conn cfg pm_init_def pm_startThread_def pm_onBeforeStartThread_def
        new_publisher_manager_def new_thread_def startThread_def sm_init_def sm_startThread_def
        new_subscriber_manager_def sam_startThread_def sam_init_def new_sa_manager_def)
  obtain v where v: "onAuthorized auth_config (?w0\<lparr>authentication_info := Some (new_authentication\<lparr>auth_user := ''alice''\<rparr>),
      granted := [''key'']\<rparr>) = Some v" "ws_conn v = new_conn"
    using on by blast
  have g: "granted ?w0 = []" by (simp add: new_server_connection_def ws_connection.extend_def)
  have plug: "example_plugin ''key'' new_authentication = new_authentication\<lparr>auth_user := ''alice''\<rparr>"
    by (simp add: example_plugin_def new_authentication_def)
  obtain w where w: "validateUserKeyForAuthentication auth_config example_plugin ''key'' ?w0 = Some w"
    using omit info v valid [of new_authentication]
    by (simp add: validateUserKeyForAuthentication_def g plug Let_def)
      (simp add: new_authentication_def ws_send_def send_def queueMessage_def asyncWrite_def new_conn_def)
  from second_authentication_terminates [OF omit w info valid valid] w show ?thesis by blast
qed

section \<open>Services and actions from end to end\<close>

text \<open>
  C31. A service request or action event reaches the plugin it is meant for: the frame built from it
  under any compression profile is parsed by the peer, routed to the service/action manager, and
  handed in the next iteration of that manager's thread to the server or client plugin that its
  op-code addresses on its channel, which obtains the same goal id and the same data, provided such a
  plugin is configured.
\<close>

theorem service_action_routed:
  assumes "codecs_ok c" and "length gid < 256" and "gid @ data \<noteq> []" and "gid_copy_ok mcpy (length gid)"
    and "configured cfg (addressee sop sch)"
    and "serviceActionManager w = (sam_init cfg new_sa_manager)\<lparr>toHandle := [], sam_thread := th\<rparr>"
  shows "\<exists>m frame r w' mgr' s. forServiceAction sch sop data gid = Some m
    \<and> getCompressedCombinedVector (sa_ops mcpy) sa_compress_ops c m p = Some frame
    \<and> fromFlatBuffer frame = Some r \<and> processMessage r w = Some w'
    \<and> sam_run_step (serviceActionManager w') = Some (mgr', Some (addressee sop sch, s))
    \<and> getGID s = Some gid \<and> received_data mcpy c s = Some data"
proof -
  obtain m where m: "forServiceAction sch sop data gid = Some m" "sa_layout m gid data"
    "channel m = opcode SERVICE_ACTION" "compressor m = NONE" "sa_channel m = sch" "sa_opcode m = sop"
    using forServiceAction_layout [OF assms(2), of sch sop data] by blast
  from sa_transfer [OF m(2,4) assms(3,1,4), of p] obtain frame where
    f: "getCompressedCombinedVector (sa_ops mcpy) sa_compress_ops c m p = Some frame"
    and d: "sa_delivered mcpy c frame m gid data" by blast
  have "configured cfg (addressee (sa_opcode m) (sa_channel m))" using assms(5) m(5,6) by simp
  from delivered_routed [OF d this assms(6) m(3)] m f show ?thesis by blast
qed

theorem service_action_routed_witness:
  "\<exists>m frame r w' mgr' s. forServiceAction 5 SERVICE_TO_SERVER [1, 2, 3] [9, 9] = Some m
    \<and> getCompressedCombinedVector (sa_ops memmove) sa_compress_ops stored_codecs m example_zlib = Some frame
    \<and> fromFlatBuffer frame = Some r
    \<and> processMessage r (new_ws_connection\<lparr>serviceActionManager := sam_init example_config new_sa_manager\<rparr>) = Some w'
    \<and> sam_run_step (serviceActionManager w') = Some (mgr', Some (addressee SERVICE_TO_SERVER 5, s))
    \<and> getGID s = Some [9, 9] \<and> received_data memmove stored_codecs s = Some [1, 2, 3]"
  by (rule service_action_routed [OF stored_codecs_ok, where cfg = example_config and th = new_thread])
    (simp_all add: example_config_def sam_init_def new_sa_manager_def)

text \<open>
  The thread of the service/action manager never leaves the frame of a message, whatever the peer
  sent, and a manager that was filled from the configuration hands every message it accepts to a
  configured plugin on the side that the op-code names, and drops all others.
\<close>

theorem service_action_routing:
  "sam_run_step mgr \<noteq> None
   \<and> route (sam_init cfg new_sa_manager) s =
      (let target = addressee (sa_opcode s) (sa_channel s)
       in if configured cfg target then Some target else None)"
  using sam_run_step_defined route_init by blast

section \<open>The threads of the managers\<close>



text \<open>
  A thread that has a message to handle and is not stopped handles the next one within five steps
  of its own, wherever it is in its loop: it cannot be asleep while the queue is not empty.
\<close>

theorem worker_handles_next:
  assumes "worker_run es new_worker = Some w" and "\<not> w_stopping w" and "in_hand w @ w_queue w = m # ms"
  shows "\<exists>n \<le> 5. w_handled (work n w) = w_handled w @ [m]"
  by (rule work_handles [OF worker_inv_run [OF assms(1) worker_inv_new] assms(2,3)])

theorem worker_handles_next_witness:
  "\<exists>w. worker_run [Work, Work, Work, Work, Put (4 :: nat)] new_worker = Some w
     \<and> (\<exists>n \<le> 5. w_handled (work n w) = w_handled w @ [4])"
proof -
  let ?w = "\<lparr>w_pc = Woken, w_locked = False, w_queue = [4 :: nat], w_stopping = False, w_handled = []\<rparr>"
  have run: "worker_run [Work, Work, Work, Work, Put (4 :: nat)] new_worker = Some ?w"
    by (simp add: new_worker_def worker_defs)
  have "\<not> w_stopping ?w" "in_hand ?w @ w_queue ?w = 4 # []" by (simp_all add: in_hand_def)
  from worker_handles_next [OF run this] run show ?thesis by blast
qed

text \<open>
  C33. Stopping: a thread whose flag is set ends within five steps of its own, unless it sleeps or is
  about to sleep; a sleeping one ends within five steps of a notification. The run loop therefore
  terminates whenever the notification of \<open>stopThread\<close> does not fall into the gap shown next.
\<close>

theorem worker_stop_terminates:
  assumes "worker_run es new_worker = Some w" and "w_stopping w"
  shows "if w_pc w = Asleep then w_pc (work 5 (notify_all w)) = Left
    else w_pc w = Block \<or> w_pc (work 5 w) = Left"
proof -
  have inv: "worker_inv w" by (rule worker_inv_run [OF assms(1) worker_inv_new])
  have "worker_inv (notify_all w)" "w_stopping (notify_all w)" "w_pc w = Asleep \<Longrightarrow> w_pc (notify_all w) = Woken"
    using inv assms(2) by (auto simp: notify_all_def worker_inv_def)
  then show ?thesis using stop_leaves [OF inv assms(2)] stop_leaves [of "notify_all w"] by auto
qed

theorem worker_stop_terminates_witness:
  "\<exists>w. worker_run [Work, Work, Work, Work, Set_stopping] (new_worker :: nat worker) = Some w
     \<and> w_pc w = Asleep \<and> w_pc (work 5 (notify_all w)) = Left"
proof -
  let ?w = "\<lparr>w_pc = Asleep, w_locked = False, w_queue = [], w_stopping = True, w_handled = []\<rparr> :: nat worker"
  have run: "worker_run [Work, Work, Work, Work, Set_stopping] (new_worker :: nat worker) = Some ?w"
    by (simp add: new_worker_def worker_defs)
  have st: "w_stopping ?w" "w_pc ?w = Asleep" by simp_all
  have "w_pc (work 5 (notify_all ?w)) = Left"
    using worker_stop_terminates [OF run st(1)] unfolding st(2) by simp
  with run st show ?thesis by blast
qed

text \<open>
  The gap: \<open>stopThread\<close> sets the flag and notifies without the mutex of the condition variable. When
  this falls between the moment at which the thread has found its predicate false and the moment at
  which it sleeps, the thread sleeps although it was stopped and notified, and no number of its own
  steps ends it: \<open>joinThread\<close> never returns.
\<close>

theorem stop_can_be_lost:
  "\<exists>w. worker_run [Work, Work, Work, Set_stopping, Notify, Work] (new_worker :: 'm worker) = Some w
     \<and> w_stopping w \<and> (\<forall>n. w_pc (work n w) = Asleep)"
proof -
  obtain w :: "'m worker" where w: "worker_run lost_stop new_worker = Some w" using lost_stop_runs by blast
  note A = lost_stop_asleep [OF w]
  have "work n w = w" for n using A by (cases n) simp_all
  with w A show ?thesis by (auto simp: lost_stop_def)
qed

end
